(* ===== verification/Prelude.thy ===== *)
theory Prelude
  imports Main "HOL-Library.Word"
begin

unbundle bit_operations_syntax

text \<open>
  Shared vocabulary of the development: the machine integers of the 32-bit target, the
  flat byte-addressed memory the boot loader runs in, reading and writing runs of bytes
  in it, and the lemmas on words, lists and memories that every component uses.

  The target (MIPS or PowerPC, o32-like data model of \<^verbatim>\<open>include/types.h\<close>) has 32-bit
  addresses, 32-bit \<open>int\<close> and 32-bit \<open>long\<close>. Addresses wrap around at \<open>2 ^ 32\<close>, so a
  region is described by its base and its length and membership is decided by the
  wrapped distance from the base.
\<close>

section \<open>Machine integers\<close>

type_synonym u8 = "8 word"
type_synonym u16 = "16 word"
type_synonym u32 = "32 word"
type_synonym u64 = "64 word"
type_synonym addr = "32 word"
type_synonym mem = "addr \<Rightarrow> u8"

named_theorems cstr_simps "what the C string routines return on well-formed strings"
named_theorems byte_simps "byte-order encodings and decodings"
named_theorems frame_simps "which part of the state an operation leaves unchanged"

text \<open>The bytes of a string literal of the source, without the final NUL.\<close>

definition bytes_of :: "string \<Rightarrow> u8 list" where
  "bytes_of s = map of_char s"

lemma bytes_of_Nil [simp]: "bytes_of [] = []"
  by (simp add: bytes_of_def)

lemma bytes_of_Cons [simp]: "bytes_of (c # s) = of_char c # bytes_of s"
  by (simp add: bytes_of_def)

lemma length_bytes_of [simp]: "length (bytes_of s) = length s"
  by (simp add: bytes_of_def)

lemma bytes_of_append [simp]: "bytes_of (s @ t) = bytes_of s @ bytes_of t"
  by (simp add: bytes_of_def)

section \<open>Errors as values\<close>

text \<open>Sequencing of computations that may fail: the first \<open>Inl\<close> wins.\<close>

fun bindE :: "'e + 'a \<Rightarrow> ('a \<Rightarrow> 'e + 'b) \<Rightarrow> 'e + 'b" where
  "bindE (Inl e) f = Inl e"
| "bindE (Inr x) f = f x"

lemma bindE_Inr_iff: "bindE r f = Inr y \<longleftrightarrow> (\<exists>x. r = Inr x \<and> f x = Inr y)"
  by (cases r) auto

lemma bindE_Inl_iff: "bindE r f = Inl e \<longleftrightarrow> r = Inl e \<or> (\<exists>x. r = Inr x \<and> f x = Inl e)"
  by (cases r) auto

section \<open>Word arithmetic\<close>

lemma unat_Suc_word:
  fixes x :: "'a::len word"
  assumes "unat x < k" and "k < 2 ^ LENGTH('a)"
  shows "unat (x + 1) = Suc (unat x)"
proof -
  have "Suc (unat x) < 2 ^ LENGTH('a)" using assms by simp
  then show ?thesis by (simp add: unat_word_ariths)
qed

lemma unat_of_nat_small [simp]:
  "n < 2 ^ LENGTH('a) \<Longrightarrow> unat (of_nat n :: 'a::len word) = n"
  by (simp add: unat_of_nat)

lemma unat_u32_lt: "unat (x :: u32) < 2 ^ 32"
proof -
  have "unat x < 2 ^ LENGTH(32)" by (rule unsigned_less)
  then show ?thesis by simp
qed

lemma unat_u32_le: "unat (x :: u32) \<le> 2 ^ 32"
  using unat_u32_lt [of x] by simp

lemma unat_add_of_nat_diff:
  "n < 2 ^ LENGTH('a) \<Longrightarrow> unat (a + of_nat n - a :: 'a::len word) = n"
  by simp

lemma word_add_of_nat_Suc: "a + of_nat (Suc n) = a + 1 + (of_nat n :: 'a::len word)"
  by (simp add: algebra_simps)

lemma of_nat_unat_diff: "a + of_nat (unat (x - a)) = (x :: 'a::len word)"
  by simp

text \<open>One step further from the base of a region.\<close>

lemma unat_diff_Suc:
  fixes x a :: "'a::len word"
  assumes "x \<noteq> a"
  shows "unat (x - a) = Suc (unat (x - (a + 1)))"
proof -
  have ne: "x - a \<noteq> 0" using assms by simp
  have "unat (x - a - 1) = unat (x - a) - 1"
    using ne by (rule unat_minus_one)
  moreover have "x - a - 1 = x - (a + 1)" by (simp add: algebra_simps)
  moreover have "0 < unat (x - a)" using ne by (simp add: unat_gt_0)
  ultimately show ?thesis by simp
qed

lemma base_offset_nonzero:
  assumes "b \<noteq> 0" and "unat b + n < 2 ^ 32" and "k \<le> n"
  shows "b + of_nat k \<noteq> (0 :: addr)"
proof -
  have "0 < unat b" using assms(1) by (simp add: unat_gt_0)
  then have "unat (b + of_nat k) = unat b + k"
    using assms(2,3) by (simp add: unat_word_ariths unat_of_nat)
  then show ?thesis using \<open>0 < unat b\<close> by (metis add_is_0 less_irrefl unat_0)
qed

section \<open>Regions\<close>

definition in_range :: "addr \<Rightarrow> nat \<Rightarrow> addr \<Rightarrow> bool" where
  "in_range a n x \<longleftrightarrow> unat (x - a) < n"

definition apart :: "addr \<Rightarrow> nat \<Rightarrow> addr \<Rightarrow> nat \<Rightarrow> bool" where
  "apart a n b k \<longleftrightarrow> n \<le> unat (b - a) \<and> k \<le> unat (a - b)"

lemma apart_sym: "apart a n b k \<longleftrightarrow> apart b k a n"
  by (auto simp: apart_def)

lemma apart_not_in_range:
  assumes "apart a n b k" and "in_range a n x"
  shows "\<not> in_range b k x"
  using assms unfolding apart_def in_range_def by unat_arith

lemma in_rangeE:
  assumes "in_range a n x"
  obtains i where "i < n" and "x = a + of_nat i"
  using assms of_nat_unat_diff [of a x] unfolding in_range_def by metis

lemma in_range_base [simp]: "in_range a n a \<longleftrightarrow> 0 < n"
  by (simp add: in_range_def)

lemma in_range_offset: "i < n \<Longrightarrow> n \<le> 2 ^ 32 \<Longrightarrow> in_range a n (a + of_nat i)"
  by (simp add: in_range_def)

lemma apart_mono: "apart a n b k \<Longrightarrow> n' \<le> n \<Longrightarrow> k' \<le> k \<Longrightarrow> apart a n' b k'"
  by (auto simp: apart_def)

lemma apart_mono_sym: "apart b k a n \<Longrightarrow> n' \<le> n \<Longrightarrow> k' \<le> k \<Longrightarrow> apart a n' b k'"
  by (auto simp: apart_def)

text \<open>A part of a region is apart from whatever the region is apart from.\<close>

lemma unat_uminus: "(x :: addr) \<noteq> 0 \<Longrightarrow> unat (- x) = 2 ^ 32 - unat x"
  using unat_sub_if_size [of 0 x] by (simp add: word_size unat_gt_0)

lemma apart_part:
  assumes "apart b k a n" and "i + j \<le> k" and "0 < j"
  shows "apart (b + of_nat i) j a n"
proof -
  define d where "d = a - b"
  have k: "k \<le> unat d" and n: "n \<le> unat (- d)"
    using assms(1) by (auto simp: apart_def d_def)
  have i: "i < unat d" using k assms(2,3) by simp
  moreover have "unat d < 2 ^ LENGTH(32)" by (rule unsigned_less)
  ultimately have ui: "unat (of_nat i :: addr) = i" by simp
  then have sub: "unat (d - of_nat i) = unat d - i"
    using i by (intro trans [OF unat_sub]) (simp_all add: word_le_nat_alt)
  have "d \<noteq> 0" "d - of_nat i \<noteq> 0" using i sub by (auto simp flip: unat_eq_0)
  then have "unat (- d) \<le> unat (- (d - of_nat i))"
    using sub unat_uminus [of d] unat_uminus [of "d - of_nat i"] by linarith
  moreover have "a - (b + of_nat i) = d - of_nat i" "b + of_nat i - a = - (d - of_nat i)"
    by (simp_all add: d_def)
  ultimately show ?thesis
    using k n sub assms(2) by (simp only: apart_def) simp
qed

section \<open>Runs of bytes in memory\<close>

definition mem_read :: "mem \<Rightarrow> addr \<Rightarrow> nat \<Rightarrow> u8 list" where
  "mem_read m a n = map (\<lambda>i. m (a + of_nat i)) [0..<n]"

fun mem_write :: "mem \<Rightarrow> addr \<Rightarrow> u8 list \<Rightarrow> mem" where
  "mem_write m a [] = m"
| "mem_write m a (b # bs) = mem_write (m(a := b)) (a + 1) bs"

lemma length_mem_read [simp]: "length (mem_read m a n) = n"
  by (simp add: mem_read_def)

lemma nth_mem_read [simp]: "i < n \<Longrightarrow> mem_read m a n ! i = m (a + of_nat i)"
  by (simp add: mem_read_def)

lemma mem_read_0 [simp]: "mem_read m a 0 = []"
  by (simp add: mem_read_def)

lemma mem_read_Suc: "mem_read m a (Suc n) = m a # mem_read m (a + 1) n"
  by (rule nth_equalityI) (auto simp: nth_Cons algebra_simps split: nat.splits)

lemma mem_read_append:
  "mem_read m a (n + k) = mem_read m a n @ mem_read m (a + of_nat n) k"
  by (rule nth_equalityI) (auto simp: nth_append algebra_simps)

lemma mem_read_cong:
  "(\<And>i. i < n \<Longrightarrow> m (a + of_nat i) = m' (a + of_nat i)) \<Longrightarrow> mem_read m a n = mem_read m' a n"
  by (simp add: mem_read_def)

lemma take_mem_read: "k \<le> n \<Longrightarrow> take k (mem_read m a n) = mem_read m a k"
  by (rule nth_equalityI) auto

lemma sub_mem_read:
  "k + n \<le> N \<Longrightarrow> mem_read m (a + of_nat k) n = take n (drop k (mem_read m a N))"
  by (rule nth_equalityI) (auto simp: algebra_simps)

lemma mem_write_append:
  "mem_write m a (xs @ ys) = mem_write (mem_write m a xs) (a + of_nat (length xs)) ys"
  by (induction xs arbitrary: m a) (auto simp: algebra_simps)

lemma mem_write_outside: "\<not> in_range a (length bs) x \<Longrightarrow> mem_write m a bs x = m x"
proof (induction bs arbitrary: m a)
  case (Cons b bs)
  have ne: "x \<noteq> a" using Cons.prems by auto
  with Cons.prems have "\<not> in_range (a + 1) (length bs) x"
    by (simp add: in_range_def unat_diff_Suc)
  with Cons.IH ne show ?case by simp
qed simp

lemma mem_write_same_at: "m x = m' x \<Longrightarrow> mem_write m a bs x = mem_write m' a bs x"
proof (induction bs arbitrary: m m' a)
  case (Cons b bs)
  have "(m(a := b)) x = (m'(a := b)) x" using Cons.prems by (cases "x = a") simp_all
  then show ?case unfolding mem_write.simps by (rule Cons.IH [of "m(a := b)" "m'(a := b)"])
qed (simp only: mem_write.simps)

text \<open>The byte found after a write, as long as the run does not wrap onto itself.\<close>

lemma mem_write_inside:
  "length bs \<le> 2 ^ 32 \<Longrightarrow> in_range a (length bs) x \<Longrightarrow>
     mem_write m a bs x = bs ! unat (x - a)"
proof (induction bs arbitrary: m a)
  case (Cons b bs)
  show ?case
  proof (cases "x = a")
    case True
    have "unat (a - (a + 1)) = 2 ^ 32 - 1"
      by (simp add: unsigned_minus_1_eq_mask mask_eq_exp_minus_1)
    then have "\<not> in_range (a + 1) (length bs) a"
      using Cons.prems(1) by (simp add: in_range_def)
    with True show ?thesis by (simp add: mem_write_outside)
  next
    case False
    with Cons.prems have "in_range (a + 1) (length bs) x"
      by (simp add: in_range_def unat_diff_Suc)
    with Cons.IH Cons.prems(1) False show ?thesis by (simp add: unat_diff_Suc)
  qed
qed (simp add: in_range_def)

lemma mem_write_apply:
  "length bs \<le> 2 ^ 32 \<Longrightarrow>
     mem_write m a bs x = (if in_range a (length bs) x then bs ! unat (x - a) else m x)"
  by (simp add: mem_write_inside mem_write_outside)

lemma mem_write_idem:
  "length bs \<le> 2 ^ 32 \<Longrightarrow> mem_write (mem_write m a bs) a bs = mem_write m a bs"
  by (rule ext) (simp add: mem_write_apply)

lemma mem_read_write_same [simp]:
  "length bs \<le> 2 ^ 32 \<Longrightarrow> mem_read (mem_write m a bs) a (length bs) = bs"
  by (rule nth_equalityI) (simp_all add: mem_write_apply in_range_offset)

lemma mem_read_write_apart:
  assumes "apart a n b (length bs)" and "n \<le> 2 ^ 32"
  shows "mem_read (mem_write m b bs) a n = mem_read m a n"
proof (rule mem_read_cong)
  fix i assume "i < n"
  then have "in_range a n (a + of_nat i)" using assms(2) by (rule in_range_offset)
  then show "mem_write m b bs (a + of_nat i) = m (a + of_nat i)"
    using assms(1) by (simp add: apart_not_in_range mem_write_outside)
qed

lemma mem_write_read_id:
  assumes "n \<le> 2 ^ 32"
  shows "mem_write m a (mem_read m a n) = m"
proof (rule ext)
  fix x
  show "mem_write m a (mem_read m a n) x = m x"
    using assms by (cases "in_range a n x") (simp_all add: mem_write_apply in_range_def)
qed

text \<open>A part of a region that two memories agree on.\<close>

lemma in_range_shift:
  assumes "in_range (f + of_nat k) n x" and "k + n \<le> 2 ^ 32"
  shows "in_range f (k + n) x"
proof -
  obtain i where i: "i < n" "x = f + of_nat k + of_nat i"
    using assms(1) by (rule in_rangeE)
  then have "x = f + of_nat (k + i)" by simp
  moreover have "in_range f (k + n) (f + of_nat (k + i))"
    using i(1) assms(2) by (intro in_range_offset) auto
  ultimately show ?thesis by simp
qed

lemma in_range_mono: "in_range a n x \<Longrightarrow> n \<le> k \<Longrightarrow> in_range a k x"
  by (simp add: in_range_def)

lemma mem_write_beyond: "\<not> in_range a n x \<Longrightarrow> length bs \<le> n \<Longrightarrow> mem_write m a bs x = m x"
  using mem_write_outside in_range_mono by blast

lemma mem_read_frame:
  assumes "\<And>x. in_range f N x \<Longrightarrow> m' x = m x" and "k + n \<le> N" and "N \<le> 2 ^ 32"
  shows "mem_read m' (f + of_nat k) n = mem_read m (f + of_nat k) n"
proof (rule mem_read_cong)
  fix i assume "i < n"
  then have "in_range f N (f + of_nat (k + i))"
    using assms(2,3) by (intro in_range_offset) auto
  from assms(1) [OF this] show "m' (f + of_nat k + of_nat i) = m (f + of_nat k + of_nat i)"
    by (simp add: add.assoc)
qed

section \<open>An object kept in memory\<close>

text \<open>\<open>image_at m b data\<close>: the bytes \<open>data\<close> lie at \<open>b\<close>.\<close>

definition image_at :: "mem \<Rightarrow> addr \<Rightarrow> u8 list \<Rightarrow> bool" where
  "image_at m b data \<longleftrightarrow> length data < 2 ^ 31 \<and> mem_read m b (length data) = data"

lemma image_at_cong:
  "image_at m b data \<Longrightarrow> (\<And>x. in_range b (length data) x \<Longrightarrow> m' x = m x) \<Longrightarrow> image_at m' b data"
  using in_range_offset [of _ "length data" b] mem_read_cong [of "length data" m' b m]
  by (simp add: image_at_def)

lemma image_at_write:
  "image_at m b data \<Longrightarrow> apart b (length data) a (length bs) \<Longrightarrow> image_at (mem_write m a bs) b data"
  by (simp add: image_at_def mem_read_write_apart)

lemma image_at_part:
  "image_at m b data \<Longrightarrow> k + n \<le> length data \<Longrightarrow> mem_read m (b + of_nat k) n = take n (drop k data)"
  by (simp add: image_at_def sub_mem_read)

end
