(* ===== verification/CString.thy ===== *)
theory CString
  imports Prelude
begin

text \<open>
  The C string and memory routines of \<^verbatim>\<open>string.c\<close>, over the flat memory. A \<open>while\<close> loop that
  scans for a NUL byte need not end, so it is a \<^theory_text>\<open>partial_function\<close> whose value is
  \<open>None\<close> when the loop runs forever; the counted loops are total. A routine that stores
  returns the new memory beside the C return value; a null pointer is the address 0.
\<close>

section \<open>The routines\<close>

partial_function (option) strcmp :: "mem \<Rightarrow> addr \<Rightarrow> addr \<Rightarrow> int option" where
  "strcmp m s1 s2 =
     (if m s1 = m s2 \<and> m s1 \<noteq> 0 \<and> m s2 \<noteq> 0 then strcmp m (s1 + 1) (s2 + 1)
      else if m s1 \<noteq> m s2 then Some (-1) else Some 0)"

text \<open>\<open>int i\<close> is compared with the unsigned \<open>n\<close>, so the comparison is unsigned.\<close>

function strncmp_loop :: "mem \<Rightarrow> addr \<Rightarrow> addr \<Rightarrow> u32 \<Rightarrow> u32 \<Rightarrow> int" where
  "strncmp_loop m s1 s2 n i =
     (if i < n then
        if m (s1 + i) \<noteq> m (s2 + i) then -1
        else if m (s1 + i) = m (s2 + i) \<and> m (s1 + i) = 0 then 0
        else strncmp_loop m s1 s2 n (i + 1)
      else 0)"
  by pat_completeness auto
termination
  by (relation "measure (\<lambda>(m, s1, s2, n, i). unat n - unat i)")
    (auto simp: word_less_nat_alt unat_Suc_word [OF _ unsigned_less])

definition strncmp :: "mem \<Rightarrow> addr \<Rightarrow> addr \<Rightarrow> u32 \<Rightarrow> int" where
  "strncmp m s1 s2 n = strncmp_loop m s1 s2 n 0"

partial_function (option) strcpy_loop :: "mem \<Rightarrow> addr \<Rightarrow> addr \<Rightarrow> (mem \<times> addr) option" where
  "strcpy_loop m dest src =
     (if m src \<noteq> 0 then strcpy_loop (m(dest := m src)) (dest + 1) (src + 1)
      else Some (m(dest := 0), dest))"

definition strcpy :: "mem \<Rightarrow> addr \<Rightarrow> addr \<Rightarrow> (mem \<times> addr) option" where
  "strcpy m dest src =
     (if dest = 0 \<or> src = 0 then Some (m, 0) else strcpy_loop m dest src)"

function strncpy_loop :: "mem \<Rightarrow> addr \<Rightarrow> addr \<Rightarrow> u32 \<Rightarrow> u32 \<Rightarrow> bool \<Rightarrow> mem" where
  "strncpy_loop m dest src n i t =
     (if i < n then
        let m' = (if \<not> t then m(dest + i := m (src + i)) else m(dest + i := 0))
        in strncpy_loop m' dest src n (i + 1) (if m' (dest + i) = 0 then True else t)
      else m)"
  by pat_completeness auto
termination
  by (relation "measure (\<lambda>(m, dest, src, n, i, t). unat n - unat i)")
    (auto simp: word_less_nat_alt unat_Suc_word [OF _ unsigned_less])

definition strncpy :: "mem \<Rightarrow> addr \<Rightarrow> addr \<Rightarrow> u32 \<Rightarrow> mem \<times> addr" where
  "strncpy m dest src n =
     (if dest = 0 \<or> src = 0 \<or> n = 0 then (m, 0)
      else (strncpy_loop m dest src n 0 False, dest))"

partial_function (option) strlen_loop :: "mem \<Rightarrow> addr \<Rightarrow> u32 \<Rightarrow> u32 option" where
  "strlen_loop m s i = (if m s \<noteq> 0 then strlen_loop m (s + 1) (i + 1) else Some i)"

definition strlen :: "mem \<Rightarrow> addr \<Rightarrow> u32 option" where
  "strlen m s = strlen_loop m s 0"

text \<open>\<open>n\<close> is a signed \<open>int\<close>: a negative count copies nothing. The result is the number of
  bytes copied, or \<open>-1\<close> for a null pointer.\<close>

definition memcpy_loop :: "mem \<Rightarrow> addr \<Rightarrow> addr \<Rightarrow> nat \<Rightarrow> mem" where
  "memcpy_loop m dst src n =
     fold (\<lambda>i m. m(dst + of_nat i := m (src + of_nat i))) [0..<n] m"

definition memcpy :: "mem \<Rightarrow> addr \<Rightarrow> addr \<Rightarrow> u32 \<Rightarrow> mem \<times> int" where
  "memcpy m dst src n =
     (if dst = 0 \<or> src = 0 then (m, -1)
      else (memcpy_loop m dst src (nat (sint n)), max 0 (sint n)))"

partial_function (option) strchr_loop :: "mem \<Rightarrow> addr \<Rightarrow> u8 \<Rightarrow> addr option" where
  "strchr_loop m ptr c =
     (if m ptr \<noteq> 0 then
        if m (ptr + 1) = c then Some (ptr + 1) else strchr_loop m (ptr + 1) c
      else Some 0)"

definition strchr :: "mem \<Rightarrow> addr \<Rightarrow> u32 \<Rightarrow> addr option" where
  "strchr m s c = (if m s = ucast c then Some s else strchr_loop m s (ucast c))"

text \<open>The variable \<open>start\<close> is uninitialised in the source; the first iteration sets it
  before it is read, so the initial value does not matter.\<close>

partial_function (option) strstr_loop ::
    "mem \<Rightarrow> addr \<Rightarrow> addr \<Rightarrow> int \<Rightarrow> int \<Rightarrow> addr \<Rightarrow> addr option" where
  "strstr_loop m haystack needle nlen npos start =
     (if m haystack \<noteq> 0 then
        let start' = (if npos = 0 then haystack else start);
            npos' = (if m (needle + of_int npos) = m haystack then npos + 1 else 0)
        in if npos' = nlen - 1 then Some start'
           else strstr_loop m (haystack + 1) needle nlen npos' start'
      else Some 0)"

definition strstr :: "mem \<Rightarrow> addr \<Rightarrow> addr \<Rightarrow> addr option" where
  "strstr m haystack needle =
     Option.bind (strlen m needle) (\<lambda>nlen. strstr_loop m haystack needle (sint nlen) 0 0)"

declare strncmp_loop.simps [simp del] strncpy_loop.simps [simp del]
declare strcmp.simps [code] strcpy_loop.simps [code] strlen_loop.simps [code]
  strchr_loop.simps [code] strstr_loop.simps [code]

section \<open>Strings in memory\<close>

text \<open>\<open>cstr m a s\<close>: the NUL-terminated string at \<open>a\<close> is \<open>s\<close>.\<close>

fun cstr :: "mem \<Rightarrow> addr \<Rightarrow> u8 list \<Rightarrow> bool" where
  "cstr m a [] \<longleftrightarrow> m a = 0"
| "cstr m a (c # cs) \<longleftrightarrow> m a = c \<and> c \<noteq> 0 \<and> cstr m (a + 1) cs"

text \<open>The string in a fixed-size field: it ends at a NUL or at the end of the field.\<close>

definition field_str :: "mem \<Rightarrow> addr \<Rightarrow> nat \<Rightarrow> u8 list" where
  "field_str m a n = takeWhile (\<lambda>c. c \<noteq> 0) (mem_read m a n)"

lemma cstr_nonzero: "cstr m a s \<Longrightarrow> c \<in> set s \<Longrightarrow> c \<noteq> 0"
  by (induction s arbitrary: a) auto

lemma cstr_mem_read: "cstr m a s \<longleftrightarrow> mem_read m a (Suc (length s)) = s @ [0] \<and> 0 \<notin> set s"
  by (induction s arbitrary: a) (auto simp: mem_read_Suc)

lemma cstr_nth: "cstr m a s \<Longrightarrow> i < length s \<Longrightarrow> m (a + of_nat i) = s ! i"
proof (induction s arbitrary: a i)
  case (Cons c s)
  then show ?case by (cases i) (auto simp: word_add_of_nat_Suc simp del: of_nat_Suc)
qed simp

lemma cstr_end: "cstr m a s \<Longrightarrow> m (a + of_nat (length s)) = 0"
  by (induction s arbitrary: a) (auto simp: word_add_of_nat_Suc simp del: of_nat_Suc)

lemma cstr_unique: "cstr m a s \<Longrightarrow> cstr m a t \<Longrightarrow> s = t"
  by (induction s arbitrary: a t; case_tac t; auto)

lemma cstr_append: "cstr m a (s @ t) \<longleftrightarrow>
    mem_read m a (length s) = s \<and> 0 \<notin> set s \<and> cstr m (a + of_nat (length s)) t"
  by (induction s arbitrary: a) (auto simp: mem_read_Suc algebra_simps)

lemma cstr_cong:
  assumes "\<And>i. i \<le> length s \<Longrightarrow> m (a + of_nat i) = m' (a + of_nat i)"
  shows "cstr m a s \<longleftrightarrow> cstr m' a s"
  unfolding cstr_mem_read using assms by (simp cong: mem_read_cong)

lemma field_str_0 [simp]: "field_str m a 0 = []"
  by (simp add: field_str_def)

lemma field_str_Suc:
  "field_str m a (Suc n) = (if m a = 0 then [] else m a # field_str m (a + 1) n)"
  by (simp add: field_str_def mem_read_Suc)

lemma field_str_terminated: "field_str m a n = s \<Longrightarrow> length s < n \<Longrightarrow> cstr m a s"
  by (induction n arbitrary: a s) (auto simp: field_str_Suc split: if_splits)

lemma cstr_write_apart:
  assumes "cstr m a s" and "apart a (Suc (length s)) b (length bs)" and "Suc (length s) \<le> 2 ^ 32"
  shows "cstr (mem_write m b bs) a s"
  using assms by (simp add: cstr_mem_read mem_read_write_apart)

lemma length_field_str: "length (field_str m a n) \<le> n"
  unfolding field_str_def by (metis length_mem_read length_takeWhile_le)

lemma field_str_cstr: "cstr m a s \<Longrightarrow> field_str m a n = take n s"
proof (induction n arbitrary: a s)
  case (Suc n)
  then show ?case by (cases s) (auto simp: field_str_Suc)
qed simp

section \<open>What the routines compute\<close>

lemma strlen_loop_cstr: "cstr m a s \<Longrightarrow> strlen_loop m a i = Some (i + of_nat (length s))"
  by (induction s arbitrary: a i) (subst strlen_loop.simps; simp add: algebra_simps)+

lemma strlen_cstr [cstr_simps]: "cstr m a s \<Longrightarrow> strlen m a = Some (of_nat (length s))"
  by (simp add: strlen_def strlen_loop_cstr)

lemma strcmp_cstr [cstr_simps]:
  "cstr m a s \<Longrightarrow> cstr m b t \<Longrightarrow> strcmp m a b = Some (if s = t then 0 else -1)"
proof (induction s arbitrary: a b t)
  case Nil
  then show ?case by (cases t) (subst strcmp.simps; simp)+
next
  case (Cons c s)
  then show ?case by (cases t) (subst strcmp.simps; simp)+
qed

lemma strncmp_loop_eq:
  "i \<le> n \<Longrightarrow> strncmp_loop m a b n i =
     (if field_str m (a + i) (unat n - unat i) = field_str m (b + i) (unat n - unat i)
      then 0 else -1)"
proof (induction m a b n i rule: strncmp_loop.induct)
  case (1 m a b n i)
  show ?case
  proof (cases "i < n")
    case False
    with "1.prems" show ?thesis by (simp add: strncmp_loop.simps)
  next
    case True
    have i1: "unat (i + 1) = Suc (unat i)"
      using True by (simp add: word_less_nat_alt unat_Suc_word [OF _ unsigned_less])
    with True have le: "i + 1 \<le> n" by (simp add: word_le_nat_alt word_less_nat_alt)
    have k: "unat n - unat i = Suc (unat n - unat (i + 1))"
      using True i1 by (simp add: word_less_nat_alt)
    show ?thesis
      using True "1.IH" [OF True _ _ le]
      by (simp add: strncmp_loop.simps [of m a b n i] k field_str_Suc add.assoc)
  qed
qed

text \<open>\<open>strncmp\<close> decides equality of the two fields, with no assumption on the memory.\<close>

lemma strncmp_eq [cstr_simps]:
  "strncmp m a b n =
     (if field_str m a (unat n) = field_str m b (unat n) then 0 else -1)"
  by (simp add: strncmp_def strncmp_loop_eq)


lemma strcpy_loop_cstr:
  "cstr m src s \<Longrightarrow> apart dest (Suc (length s)) src (Suc (length s)) \<Longrightarrow>
     length s < 2 ^ 32 \<Longrightarrow>
     strcpy_loop m dest src = Some (mem_write m dest (s @ [0]), dest + of_nat (length s))"
proof (induction s arbitrary: m dest src)
  case Nil
  then show ?case by (subst strcpy_loop.simps) simp
next
  case (Cons c s)
  let ?m = "m(dest := c)"
  have keep: "?m (src + 1 + of_nat i) = m (src + 1 + of_nat i)" if "i \<le> length s" for i
  proof -
    have "in_range src (Suc (length (c # s))) (src + of_nat (Suc i))"
      using that Cons.prems(3) by (intro in_range_offset) auto
    then have "\<not> in_range dest (Suc (length (c # s))) (src + of_nat (Suc i))"
      using Cons.prems(2) apart_not_in_range apart_sym by blast
    then have "src + of_nat (Suc i) \<noteq> dest" by auto
    then show ?thesis by (simp add: algebra_simps)
  qed
  have tail: "cstr ?m (src + 1) s"
    using Cons.prems(1) keep by (subst cstr_cong [where m' = m]) auto
  have "apart (dest + 1) (Suc (length s)) (src + 1) (Suc (length s))"
    using Cons.prems(2) by (simp add: apart_def)
  from Cons.IH [OF tail this] Cons.prems(3)
  have "strcpy_loop ?m (dest + 1) (src + 1) =
      Some (mem_write ?m (dest + 1) (s @ [0]), dest + 1 + of_nat (length s))"
    by (simp add: fun_upd_def)
  with Cons.prems(1) show ?case
    by (subst strcpy_loop.simps) (simp add: algebra_simps)
qed

text \<open>\<open>strcpy\<close> copies the string and its NUL and returns the address of the copied NUL.\<close>

lemma strcpy_cstr [cstr_simps]:
  assumes "cstr m src s" and "apart dest (Suc (length s)) src (Suc (length s))"
    and "length s < 2 ^ 32" and "dest \<noteq> 0" and "src \<noteq> 0"
  shows "strcpy m dest src = Some (mem_write m dest (s @ [0]), dest + of_nat (length s))"
  using assms by (simp add: strcpy_def strcpy_loop_cstr)

text \<open>What \<open>strncpy\<close> stores: the field's string, padded with NULs to the full width.\<close>

definition padded_field :: "mem \<Rightarrow> addr \<Rightarrow> nat \<Rightarrow> u8 list" where
  "padded_field m a n = (let s = field_str m a n in s @ replicate (n - length s) 0)"

lemma length_padded_field [simp]: "length (padded_field m a n) = n"
  using length_field_str [of m a n] by (simp add: padded_field_def Let_def)

lemma padded_field_Suc:
  "padded_field m a (Suc n) =
     m a # (if m a = 0 then replicate n 0 else padded_field m (a + 1) n)"
  by (simp add: padded_field_def field_str_Suc Let_def)

lemma padded_field_0 [simp]: "padded_field m a 0 = []"
  by (simp add: padded_field_def)

lemma padded_field_cong:
  "(\<And>i. i < n \<Longrightarrow> m (a + of_nat i) = m' (a + of_nat i)) \<Longrightarrow> padded_field m a n = padded_field m' a n"
  unfolding padded_field_def field_str_def by (simp cong: mem_read_cong)

lemma strncpy_loop_eq:
  "i \<le> n \<Longrightarrow> (\<And>j k. \<not> t \<Longrightarrow> j < unat n \<Longrightarrow> k < unat n \<Longrightarrow> dest + of_nat j \<noteq> src + of_nat k) \<Longrightarrow>
     strncpy_loop m dest src n i t =
       mem_write m (dest + i)
         (if t then replicate (unat n - unat i) 0
          else padded_field m (src + i) (unat n - unat i))"
proof (induction m dest src n i t rule: strncpy_loop.induct)
  case (1 m dest src n i t)
  show ?case
  proof (cases "i < n")
    case False
    with "1.prems"(1) show ?thesis by (simp add: strncpy_loop.simps)
  next
    case True
    define c where "c = (if t then 0 else m (src + i))"
    define k where "k = unat n - unat (i + 1)"
    have i1: "unat (i + 1) = Suc (unat i)"
      using True by (simp add: word_less_nat_alt unat_Suc_word [OF _ unsigned_less])
    with True have le: "i + 1 \<le> n" by (simp add: word_le_nat_alt word_less_nat_alt)
    have k: "unat n - unat i = Suc k"
      using True i1 by (simp add: k_def word_less_nat_alt)
    have step: "strncpy_loop m dest src n i t =
        strncpy_loop (m(dest + i := c)) dest src n (i + 1) (t \<or> c = 0)"
      using True by (simp add: strncpy_loop.simps [of m dest src n i t] c_def Let_def)
    have IH: "strncpy_loop (m(dest + i := c)) dest src n (i + 1) (t \<or> c = 0) =
        mem_write (m(dest + i := c)) (dest + (i + 1))
          (if t \<or> c = 0 then replicate k 0
           else padded_field (m(dest + i := c)) (src + (i + 1)) k)"
      using "1.IH" [OF True refl le] "1.prems"(2) unfolding k_def c_def
      by (cases t) (auto simp: fun_upd_def)
    have same: "padded_field (m(dest + i := c)) (src + (i + 1)) k
        = padded_field m (src + (i + 1)) k" if "\<not> t"
    proof (rule padded_field_cong)
      fix j assume "j < k"
      then have "unat (i + 1) + j < unat n" by (simp add: k_def)
      moreover have "unat i < unat n" using True by (simp add: word_less_nat_alt)
      ultimately have "dest + of_nat (unat i) \<noteq> src + of_nat (unat (i + 1) + j)"
        using "1.prems"(2) that by blast
      then have "src + (i + 1) + of_nat j \<noteq> dest + i" by (simp add: add.assoc)
      then show "(m(dest + i := c)) (src + (i + 1) + of_nat j) = m (src + (i + 1) + of_nat j)"
        by simp
    qed
    show ?thesis
      unfolding step IH k using same
      by (auto simp: c_def padded_field_Suc add.assoc)
  qed
qed

lemma strncpy_eq [cstr_simps]:
  assumes "apart dest (unat n) src (unat n)" and "dest \<noteq> 0" and "src \<noteq> 0" and "n \<noteq> 0"
  shows "strncpy m dest src n = (mem_write m dest (padded_field m src (unat n)), dest)"
proof -
  have "dest + of_nat j \<noteq> src + of_nat k" if "j < unat n" "k < unat n" for j k
  proof -
    have "unat n < 2 ^ LENGTH(32)" by (rule unsigned_less)
    then have "unat n \<le> 2 ^ 32" by simp
    then have "in_range dest (unat n) (dest + of_nat j)" "in_range src (unat n) (src + of_nat k)"
      using that in_range_offset by blast+
    then show ?thesis using assms(1) apart_not_in_range by metis
  qed
  then show ?thesis using assms strncpy_loop_eq [of 0 n False dest src m]
    by (simp add: strncpy_def)
qed

text \<open>\<open>strncpy\<close> never stores outside the \<open>n\<close> bytes it is given, even when the regions overlap.\<close>

lemma strncpy_loop_outside:
  "\<not> in_range dest (unat n) x \<Longrightarrow> strncpy_loop m dest src n i t x = m x"
proof (induction m dest src n i t rule: strncpy_loop.induct)
  case (1 m dest src n i t)
  show ?case
  proof (cases "i < n")
    case True
    then have "x \<noteq> dest + i" using "1.prems" by (auto simp: in_range_def word_less_nat_alt)
    then show ?thesis
      using True "1.IH" [OF True refl "1.prems"]
      by (simp add: strncpy_loop.simps [of m dest src n i t] Let_def split: if_splits)
  qed (simp add: strncpy_loop.simps)
qed

lemma strncpy_outside [frame_simps]:
  "\<not> in_range dest (unat n) x \<Longrightarrow> fst (strncpy m dest src n) x = m x"
  by (simp add: strncpy_def strncpy_loop_outside)


lemma sint_small: "unat (n :: u32) < 2 ^ 31 \<Longrightarrow> sint n = int (unat n)"
  unfolding sint_uint uint_nat by (simp add: signed_take_bit_int_eq_self del: of_nat_unat)

text \<open>\<open>memcpy\<close> between disjoint regions copies the bytes as they were.\<close>

lemma mem_read_snoc: "mem_read m a (Suc n) = mem_read m a n @ [m (a + of_nat n)]"
  by (simp add: mem_read_def)

lemma memcpy_loop_Suc:
  "memcpy_loop m dst src (Suc n) =
     (memcpy_loop m dst src n)(dst + of_nat n := memcpy_loop m dst src n (src + of_nat n))"
  by (simp add: memcpy_loop_def)

lemma memcpy_loop_0 [simp]: "memcpy_loop m dst src 0 = m"
  by (simp add: memcpy_loop_def)

lemma memcpy_loop_eq:
  assumes "apart dst n src n" and "n \<le> 2 ^ 32" and "k \<le> n"
  shows "memcpy_loop m dst src k = mem_write m dst (mem_read m src k)"
  using assms(3)
proof (induction k)
  case (Suc k)
  have "in_range src n (src + of_nat k)"
    using Suc.prems assms(2) by (intro in_range_offset) auto
  then have "\<not> in_range dst n (src + of_nat k)"
    using assms(1) apart_not_in_range apart_sym by blast
  then have "\<not> in_range dst k (src + of_nat k)"
    using Suc.prems by (simp add: in_range_def)
  then show ?case
    using Suc by (simp add: memcpy_loop_Suc mem_read_snoc mem_write_append mem_write_outside)
qed simp

lemma memcpy_eq [cstr_simps]:
  assumes "apart dst (unat n) src (unat n)" and "dst \<noteq> 0" and "src \<noteq> 0" and "unat n < 2 ^ 31"
  shows "memcpy m dst src n = (mem_write m dst (mem_read m src (unat n)), int (unat n))"
proof -
  have "sint n = int (unat n)" using assms(4) by (rule sint_small)
  then show ?thesis
    using assms memcpy_loop_eq [of dst "unat n" src "unat n" m] by (simp add: memcpy_def)
qed

text \<open>Whatever the overlap, nothing outside the destination changes.\<close>

lemma memcpy_loop_outside:
  "\<not> in_range dst n x \<Longrightarrow> n \<le> 2 ^ 32 \<Longrightarrow> memcpy_loop m dst src n x = m x"
proof (induction n)
  case (Suc n)
  have "\<not> in_range dst n x" using Suc.prems(1) by (simp add: in_range_def)
  moreover have "x \<noteq> dst + of_nat n"
    using Suc.prems in_range_offset [of n "Suc n" dst] by auto
  ultimately show ?case using Suc by (simp add: memcpy_loop_Suc)
qed simp

lemma nat_sint_le: "nat (sint (n :: u32)) < 2 ^ 31"
  using sint_lt [of n] by simp

lemma memcpy_outside [frame_simps]:
  "\<not> in_range dst (nat (sint n)) x \<Longrightarrow> fst (memcpy m dst src n) x = m x"
  using nat_sint_le [of n] by (simp add: memcpy_def memcpy_loop_outside)

text \<open>\<open>strchr\<close> finds the first occurrence; the final NUL counts as part of the string.\<close>

definition strchr_result :: "addr \<Rightarrow> u8 list \<Rightarrow> u8 \<Rightarrow> addr" where
  "strchr_result a s c =
     (if c \<in> set s \<or> c = 0 then a + of_nat (length (takeWhile (\<lambda>x. x \<noteq> c) s)) else 0)"

lemma strchr_loop_cstr:
  "cstr m a s \<Longrightarrow>
     (if m a = c then Some a else strchr_loop m a c) = Some (strchr_result a s c)"
proof (induction s arbitrary: a)
  case Nil
  then show ?case by (subst strchr_loop.simps) (simp add: strchr_result_def)
next
  case (Cons x s)
  have "(if m (a + 1) = c then Some (a + 1) else strchr_loop m (a + 1) c)
      = Some (strchr_result (a + 1) s c)"
    using Cons by simp
  with Cons.prems show ?case
    by (subst strchr_loop.simps) (simp add: strchr_result_def add.assoc)
qed

lemma strchr_cstr [cstr_simps]:
  "cstr m a s \<Longrightarrow> strchr m a c = Some (strchr_result a s (ucast c))"
  unfolding strchr_def by (rule strchr_loop_cstr)


section \<open>The substring search\<close>

text \<open>
  \<open>strstr\<close> compares its count of matched characters with \<open>nlen - 1\<close>, so it stops one
  character early: what it finds is an occurrence of the needle \<^emph>\<open>without its last
  character\<close>. The loop is described by the bytes already read: the last \<open>npos\<close> of them
  are the first \<open>npos\<close> bytes of the needle.
\<close>

lemma strstr_loop_sound:
  assumes "cstr m needle ns" and "2 \<le> length ns"
  shows "cstr m a rest \<Longrightarrow> a = h + of_nat (length pre) \<Longrightarrow> npos \<le> length pre \<Longrightarrow>
     npos < length ns - 1 \<Longrightarrow> drop (length pre - npos) pre = take npos ns \<Longrightarrow>
     (npos \<noteq> 0 \<Longrightarrow> start = h + of_nat (length pre - npos)) \<Longrightarrow>
     \<exists>p. strstr_loop m a needle (int (length ns)) (int npos) start = Some p \<and>
       (p \<noteq> 0 \<longrightarrow> (\<exists>l r. pre @ rest = l @ butlast ns @ r \<and> p = h + of_nat (length l)))"
proof (induction rest arbitrary: a pre npos start)
  case Nil
  then show ?case by (subst strstr_loop.simps) simp
next
  case (Cons c rest)
  define start' where "start' = (if npos = 0 then a else start)"
  define npos' where "npos' = (if ns ! npos = c then Suc npos else 0)"
  have ndl: "m (needle + of_nat npos) = ns ! npos"
    using assms(1) Cons.prems(4) by (intro cstr_nth) auto
  have st: "start' = h + of_nat (length pre - npos)"
    using Cons.prems(2,6) by (simp add: start'_def)
  have le: "npos' \<le> length (pre @ [c])" using Cons.prems(3) by (simp add: npos'_def)
  have suffix: "drop (length (pre @ [c]) - npos') (pre @ [c]) = take npos' ns"
    using Cons.prems(3,4,5) by (simp add: npos'_def take_Suc_conv_app_nth)
  have start: "start' = h + of_nat (length (pre @ [c]) - npos')" if "npos' \<noteq> 0"
    using that st by (simp add: npos'_def split: if_splits)
  have unfold: "strstr_loop m a needle (int (length ns)) (int npos) start =
      (if npos' = length ns - 1 then Some start'
       else strstr_loop m (a + 1) needle (int (length ns)) (int npos') start')"
    using Cons.prems(1,4) assms(2) ndl
    by (subst strstr_loop.simps) (auto simp: Let_def start'_def npos'_def add.commute)
  show ?case
  proof (cases "npos' = length ns - 1")
    case True
    define l where "l = take (length (pre @ [c]) - npos') (pre @ [c])"
    have "pre @ [c] = l @ butlast ns"
      using suffix True append_take_drop_id [of "length (pre @ [c]) - npos'" "pre @ [c]"]
      by (simp only: butlast_conv_take l_def)
    then have "pre @ c # rest = l @ butlast ns @ rest" by simp
    moreover have "start' = h + of_nat (length l)"
      using start True assms(2) le by (simp add: l_def)
    ultimately have "\<exists>l r. pre @ c # rest = l @ butlast ns @ r \<and> start' = h + of_nat (length l)"
      by blast
    then show ?thesis unfolding unfold by (simp only: True refl if_True) blast
  next
    case False
    with Cons.prems(4) have lt: "npos' < length ns - 1"
      by (auto simp: npos'_def split: if_splits)
    have "cstr m (a + 1) rest" and "a + 1 = h + of_nat (length (pre @ [c]))"
      using Cons.prems(1,2) by auto
    from Cons.IH [OF this le lt suffix start]
    show ?thesis unfolding unfold using False by simp
  qed
qed

lemma strstr_unfold:
  assumes "cstr m needle ns" and "length ns < 2 ^ 31"
  shows "strstr m h needle = strstr_loop m h needle (int (length ns)) 0 0"
  using assms by (simp add: strstr_def strlen_cstr sint_small)

text \<open>\<open>strstr\<close> always returns on strings, and a non-null result points at an occurrence of
  the needle less its last character.\<close>

lemma strstr_sound:
  assumes "cstr m h hs" and "cstr m needle ns" and "2 \<le> length ns" and "length ns < 2 ^ 31"
  shows "\<exists>p. strstr m h needle = Some p \<and>
     (p \<noteq> 0 \<longrightarrow> (\<exists>l r. hs = l @ butlast ns @ r \<and> p = h + of_nat (length l)))"
  using strstr_loop_sound [OF assms(2,3,1), of h "[]" 0 0] assms(3)
  by (simp add: strstr_unfold [OF assms(2,4)])

text \<open>While a prefix of the needle is being matched the loop runs on to the end of it.\<close>

lemma strstr_loop_match:
  assumes "cstr m needle ns" and "2 \<le> length ns"
  shows "npos < length ns - 1 \<Longrightarrow> cstr m a (drop npos (butlast ns) @ r) \<Longrightarrow>
     strstr_loop m a needle (int (length ns)) (int npos) start =
       Some (if npos = 0 then a else start)"
proof (induction "length ns - 1 - npos" arbitrary: npos a start)
  case (Suc k)
  have len: "npos < length (butlast ns)" using Suc.prems(1) by simp
  then have hd: "m a = ns ! npos" "m a \<noteq> 0"
    and tail: "cstr m (a + 1) (drop (Suc npos) (butlast ns) @ r)"
    using Suc.prems(2) by (auto simp: Cons_nth_drop_Suc [OF len, symmetric] nth_butlast)
  have ndl: "m (needle + of_nat npos) = ns ! npos"
    using assms(1) Suc.prems(1) by (intro cstr_nth) auto
  show ?case
  proof (cases "Suc npos = length ns - 1")
    case True
    then have "length ns = Suc (Suc npos)" using assms(2) by simp
    then show ?thesis using hd ndl by (subst strstr_loop.simps) (simp add: Let_def)
  next
    case False
    with Suc.prems(1) have "Suc npos < length ns - 1" by simp
    from Suc.hyps(1) [OF _ this tail, of "if npos = 0 then a else start"] Suc.hyps(2) False hd ndl
    show ?thesis by (subst strstr_loop.simps) (auto simp: Let_def add.commute)
  qed
qed simp

lemma strstr_loop_skip:
  assumes "cstr m needle ns" and "2 \<le> length ns"
  shows "cstr m a (pre @ t) \<Longrightarrow> hd ns \<notin> set pre \<Longrightarrow>
     \<exists>st'. strstr_loop m a needle (int (length ns)) 0 st =
       strstr_loop m (a + of_nat (length pre)) needle (int (length ns)) 0 st'"
proof (induction pre arbitrary: a st)
  case (Cons c pre)
  have "m needle = hd ns" using assms by (cases ns) auto
  then have "strstr_loop m a needle (int (length ns)) 0 st =
      strstr_loop m (a + 1) needle (int (length ns)) 0 a"
    using Cons.prems assms(2) by (subst strstr_loop.simps) (auto simp: Let_def)
  moreover obtain st' where "strstr_loop m (a + 1) needle (int (length ns)) 0 a =
      strstr_loop m (a + 1 + of_nat (length pre)) needle (int (length ns)) 0 st'"
    using Cons.IH [of "a + 1" a] Cons.prems by auto
  ultimately show ?case by (auto simp: add.assoc)
qed auto

text \<open>The search succeeds at the first candidate when the needle's first byte does not occur
  before it; without that condition the loop, which never re-reads a byte after a
  mismatch, can miss an occurrence.\<close>

lemma strstr_finds:
  assumes "cstr m h (pre @ butlast ns @ r)" and "cstr m needle ns" and "2 \<le> length ns"
    and "length ns < 2 ^ 31" and "hd ns \<notin> set pre"
  shows "strstr m h needle = Some (h + of_nat (length pre))"
proof -
  obtain st where "strstr m h needle =
      strstr_loop m (h + of_nat (length pre)) needle (int (length ns)) 0 st"
    using strstr_loop_skip [OF assms(2,3,1,5)] strstr_unfold [OF assms(2,4)] by metis
  moreover have "cstr m (h + of_nat (length pre)) (drop 0 (butlast ns) @ r)"
    using assms(1) by (simp add: cstr_append)
  ultimately show ?thesis
    using strstr_loop_match [OF assms(2,3), of 0] assms(3) by simp
qed

text \<open>A one-byte needle: the loop stops at a byte that \<^emph>\<open>differs\<close> from it.\<close>

lemma strstr_one_byte:
  assumes "cstr m h (x # r)" and "x \<noteq> c" and "cstr m needle [c]"
  shows "strstr m h needle = Some h"
proof -
  have "strlen m needle = Some 1" using strlen_cstr [OF assms(3)] by simp
  moreover have "strstr_loop m h needle 1 0 0 = Some h"
    using assms by (subst strstr_loop.simps) simp
  ultimately show ?thesis by (simp add: strstr_def)
qed

section \<open>Properties\<close>

text \<open>\<open>strncmp\<close> returns 0 exactly when the two fields of \<open>n\<close> bytes hold the same string
  (each ended by a NUL or by the width of the field), and \<open>-1\<close> otherwise; it needs no
  terminator within the fields.\<close>

theorem strncmp_decides:
  "(strncmp m a b n = 0 \<longleftrightarrow> field_str m a (unat n) = field_str m b (unat n)) \<and> strncmp m a b n \<in> {0, -1}"
  by (simp add: strncmp_eq)

text \<open>\<open>strcpy\<close> between disjoint places copies the string with its NUL and stores nowhere
  else; what it returns is the address of the NUL it stored, not \<open>dest\<close>.\<close>

theorem strcpy_copies:
  assumes "cstr m src s" and "apart dest (Suc (length s)) src (Suc (length s))"
    and "Suc (length s) < 2 ^ 32" and "dest \<noteq> 0" and "src \<noteq> 0"
  shows "\<exists>m'. strcpy m dest src = Some (m', dest + of_nat (length s)) \<and> cstr m' dest s \<and>
    (\<forall>x. \<not> in_range dest (Suc (length s)) x \<longrightarrow> m' x = m x)"
proof -
  have "0 \<notin> set s" using cstr_nonzero [OF assms(1)] by blast
  then have "cstr (mem_write m dest (s @ [0])) dest s"
    using assms(3) mem_read_write_same [of "s @ [0]" m dest] by (simp add: cstr_mem_read)
  then show ?thesis using strcpy_cstr [OF assms(1,2) _ assms(4,5)] assms(3)
    by (simp add: mem_write_outside)
qed

lemma strcpy_copies_witness:
  "\<exists>m'. strcpy (mem_write (\<lambda>_. 7) 0x100 [65, 66, 0]) 0x200 0x100 = Some (m', 0x202) \<and> cstr m' 0x200 [65, 66]"
  using strcpy_copies [where m = "mem_write (\<lambda>_. 7) 0x100 [65, 66, 0]" and src = "0x100" and s = "[65, 66]"
      and dest = "0x200"]
  by (auto simp: apart_def)

text \<open>\<open>strncpy\<close> between disjoint places fills exactly the \<open>n\<close> bytes at \<open>dest\<close> with the
  source string cut to \<open>n\<close> bytes and padded with NULs; nothing else changes.\<close>

theorem strncpy_fills:
  assumes "apart dest (unat n) src (unat n)" and "dest \<noteq> 0" and "src \<noteq> 0" and "n \<noteq> 0"
  shows "\<exists>m'. strncpy m dest src n = (m', dest) \<and> mem_read m' dest (unat n) = padded_field m src (unat n) \<and>
    field_str m' dest (unat n) = field_str m src (unat n) \<and> (\<forall>x. \<not> in_range dest (unat n) x \<longrightarrow> m' x = m x)"
proof -
  let ?m = "mem_write m dest (padded_field m src (unat n))"
  have rd: "mem_read ?m dest (unat n) = padded_field m src (unat n)"
    using mem_read_write_same [of "padded_field m src (unat n)" m dest] unat_u32_le by simp
  have "takeWhile (\<lambda>c. c \<noteq> 0) (padded_field m src (unat n)) = field_str m src (unat n)"
  proof -
    have "takeWhile (\<lambda>c. c \<noteq> 0) (field_str m src k @ replicate j 0) = field_str m src k" for k j
      by (simp add: field_str_def takeWhile_append takeWhile_idem)
    then show ?thesis by (simp add: padded_field_def Let_def)
  qed
  with rd have "field_str ?m dest (unat n) = field_str m src (unat n)" by (simp add: field_str_def)
  with rd show ?thesis using strncpy_eq [OF assms] by (simp add: mem_write_outside)
qed

lemma strncpy_fills_witness:
  "\<exists>m'. strncpy (mem_write (\<lambda>_. 7) 0x100 [65, 66, 0]) 0x200 0x100 5 = (m', 0x200) \<and>
     field_str m' 0x200 5 = [65, 66]"
proof -
  let ?m = "mem_write (\<lambda>_. 7) 0x100 [65, 66, 0] :: mem"
  have "field_str ?m 0x100 (unat (5 :: u32)) = [65, 66]"
    by (simp add: field_str_def mem_read_def upt_rec)
  with strncpy_fills [of "0x200" 5 "0x100" ?m] show ?thesis by (auto simp: apart_def)
qed

text \<open>C37: \<open>strstr\<close> returns on every pair of strings, and a non-null result points at an
  occurrence of the needle without its last character; where the needle's first character
  does not occur earlier, such an occurrence is found.\<close>

theorem strstr_finds_all_but_last:
  assumes "cstr m h hs" and "cstr m needle ns" and "2 \<le> length ns" and "length ns < 2 ^ 31"
  shows "\<exists>p. strstr m h needle = Some p \<and>
    (p \<noteq> 0 \<longrightarrow> (\<exists>l r. hs = l @ butlast ns @ r \<and> p = h + of_nat (length l))) \<and>
    (\<forall>l r. hs = l @ butlast ns @ r \<longrightarrow> hd ns \<notin> set l \<longrightarrow> p = h + of_nat (length l))"
  using strstr_sound [OF assms] strstr_finds [OF _ assms(2,3,4)] assms(1) by fastforce

lemma strstr_finds_all_but_last_witness:
  "strstr (mem_write (mem_write (\<lambda>_. 0) 0x100 [107, 46, 108, 122, 109, 0]) 0x200 [108, 122, 109, 97, 0])
     0x100 0x200 = Some 0x102"
proof -
  let ?m = "mem_write (mem_write (\<lambda>_. 0) 0x100 [107, 46, 108, 122, 109, 0]) 0x200 [108, 122, 109, 97, 0] :: mem"
  have "cstr ?m 0x100 [107, 46, 108, 122, 109]" "cstr ?m 0x200 [108, 122, 109, 97]" by simp_all
  from strstr_finds_all_but_last [OF this] obtain p where p: "strstr ?m 0x100 0x200 = Some p"
    and found: "\<And>l r. [107, 46, 108, 122, 109 :: u8] = l @ [108, 122, 109] @ r \<longrightarrow> 108 \<notin> set l \<longrightarrow>
      p = 0x100 + of_nat (length l)"
    by auto
  have "p = 0x102" using found [of "[107, 46]" "[]"] by simp
  with p show ?thesis by simp
qed

text \<open>A byte that repeats the needle's first character in front of an occurrence makes the
  search miss it: the loop drops the byte on which a partial match fails instead of starting
  again there.\<close>

theorem strstr_misses_restart:
  assumes "cstr m h (hd ns # ns)" and "cstr m needle ns" and "3 \<le> length ns" and "length ns < 2 ^ 31"
    and "hd ns \<notin> set (tl ns)"
  shows "strstr m h needle = Some 0"
proof -
  obtain c d e where ns: "ns = c # d # e" using assms(3) by (cases ns; cases "tl ns") auto
  have two: "2 \<le> length ns" using assms(3) by simp
  have h: "m h = c" "m (h + 1) = c" "c \<noteq> 0" "m needle = c" "m (needle + 1) = d"
    and rest: "cstr m (h + 1 + 1) (d # e)"
    using assms(1,2) by (auto simp: ns)
  have ne: "e \<noteq> []" using assms(3) ns by auto
  have "strstr m h needle = strstr_loop m h needle (int (length ns)) 0 0"
    by (rule strstr_unfold [OF assms(2,4)])
  also have "\<dots> = strstr_loop m (h + 1) needle (int (length ns)) 1 h"
    using h ne by (subst strstr_loop.simps) (simp add: ns)
  also have "\<dots> = strstr_loop m (h + 1 + 1) needle (int (length ns)) 0 h"
    using h ne assms(5) by (subst strstr_loop.simps) (auto simp: ns)
  also obtain st where "\<dots> = strstr_loop m (h + 1 + 1 + of_nat (length (d # e))) needle (int (length ns)) 0 st"
    using strstr_loop_skip [OF assms(2) two, of "h + 1 + 1" "d # e" "[]" h] rest assms(5)
    by (auto simp: ns)
  also have "\<dots> = Some 0"
    using cstr_end [OF rest] by (subst strstr_loop.simps) simp
  finally show ?thesis .
qed

lemma strstr_misses_restart_witness:
  "strstr (mem_write (mem_write (\<lambda>_. 0) 0x100 [108, 108, 122, 109, 97, 0]) 0x200 [108, 122, 109, 97, 0])
     0x100 0x200 = Some 0"
  by (rule strstr_misses_restart [where ns = "[108, 122, 109, 97]"]) simp_all

end
