(* ===== verification/Bytes.thy ===== *)
theory Bytes
  imports CString
begin

text \<open>
  Byte orders: the 16- and 32-bit loads of the big-endian target and of a little-endian
  host, the \<^verbatim>\<open>SWAP_16\<close> and \<^verbatim>\<open>SWAP_32\<close> macros of \<^verbatim>\<open>types.h\<close>, and the interface of a
  fixed-width encoding (\<open>byte_codec\<close>), of which every C structure read from a file or a
  memory is an instance.
\<close>

section \<open>The swap macros\<close>

definition SWAP_32 :: "u32 \<Rightarrow> u32" where
  "SWAP_32 x =
     push_bit 24 (x AND 0x000000ff) OR
     push_bit 8 (x AND 0x0000ff00) OR
     drop_bit 8 (x AND 0x00ff0000) OR
     drop_bit 24 (x AND 0xff000000)"

definition SWAP_16 :: "u16 \<Rightarrow> u16" where
  "SWAP_16 x = push_bit 8 (x AND 0x00ff) OR drop_bit 8 (x AND 0xff00)"

section \<open>Loads and stores in either byte order\<close>

datatype endian = BE | LE

fun other :: "endian \<Rightarrow> endian" where
  "other BE = LE"
| "other LE = BE"

definition be16 :: "u8 \<Rightarrow> u8 \<Rightarrow> u16" where
  "be16 a b = push_bit 8 (ucast a) OR ucast b"

definition be32 :: "u8 \<Rightarrow> u8 \<Rightarrow> u8 \<Rightarrow> u8 \<Rightarrow> u32" where
  "be32 a b c d =
     push_bit 24 (ucast a) OR push_bit 16 (ucast b) OR push_bit 8 (ucast c) OR ucast d"

fun u16_of :: "endian \<Rightarrow> u8 list \<Rightarrow> u16" where
  "u16_of BE bs = be16 (bs ! 0) (bs ! 1)"
| "u16_of LE bs = be16 (bs ! 1) (bs ! 0)"

fun u32_of :: "endian \<Rightarrow> u8 list \<Rightarrow> u32" where
  "u32_of BE bs = be32 (bs ! 0) (bs ! 1) (bs ! 2) (bs ! 3)"
| "u32_of LE bs = be32 (bs ! 3) (bs ! 2) (bs ! 1) (bs ! 0)"

fun u16_bytes :: "endian \<Rightarrow> u16 \<Rightarrow> u8 list" where
  "u16_bytes BE w = [ucast (drop_bit 8 w), ucast w]"
| "u16_bytes LE w = [ucast w, ucast (drop_bit 8 w)]"

fun u32_bytes :: "endian \<Rightarrow> u32 \<Rightarrow> u8 list" where
  "u32_bytes BE w = [ucast (drop_bit 24 w), ucast (drop_bit 16 w), ucast (drop_bit 8 w), ucast w]"
| "u32_bytes LE w = [ucast w, ucast (drop_bit 8 w), ucast (drop_bit 16 w), ucast (drop_bit 24 w)]"


text \<open>Equality of words bit by bit, with the bit positions enumerated.\<close>

lemma word_eq_by_bits:
  fixes x y :: "'a::len word"
  assumes "list_all (\<lambda>i. bit x i \<longleftrightarrow> bit y i) is" and "{0..<LENGTH('a)} \<subseteq> set is"
  shows "x = y"
proof (rule bit_word_eqI)
  fix n assume "n < LENGTH('a)"
  then have "n \<in> set is" using assms(2) by auto
  then show "bit x n = bit y n" using assms(1) by (simp add: list_all_iff)
qed

lemma enum8: "{0..<LENGTH(8)} \<subseteq> set [0,1,2,3,4,5,6,7]"
  by code_simp

lemma enum16: "{0..<LENGTH(16)} \<subseteq> set [0, 1, 2, 3, 4, 5, 6, 7, 8, 9, 10, 11, 12, 13, 14, 15]"
  by code_simp

lemma enum32: "{0..<LENGTH(32)} \<subseteq> set [0, 1, 2, 3, 4, 5, 6, 7, 8, 9, 10, 11, 12, 13, 14, 15, 16, 17, 18, 19, 20, 21, 22, 23, 24, 25, 26, 27, 28, 29, 30, 31]"
  by code_simp

lemma bit_u8_beyond [simp]: "8 \<le> n \<Longrightarrow> \<not> bit (b :: u8) n"
  by (auto dest: bit_imp_le_length)

lemma be32_inj: "u32_of BE (u32_bytes BE w) = w"
  by (rule word_eq_by_bits [OF _ enum32]) (simp add: be32_def bit_simps)

lemma SWAP_32_be32: "SWAP_32 (be32 a b c d) = be32 d c b a"
  by (rule word_eq_by_bits [OF _ enum32]) (simp add: be32_def SWAP_32_def bit_simps)

lemma SWAP_16_be16: "SWAP_16 (be16 a b) = be16 b a"
  by (rule word_eq_by_bits [OF _ enum16]) (simp add: be16_def SWAP_16_def bit_simps)


lemma ucast_be32 [byte_simps]:
  "(ucast (be32 a b c d) :: u8) = d"
  "(ucast (drop_bit 8 (be32 a b c d)) :: u8) = c"
  "(ucast (drop_bit 16 (be32 a b c d)) :: u8) = b"
  "(ucast (drop_bit 24 (be32 a b c d)) :: u8) = a"
  by (rule word_eq_by_bits [OF _ enum8], simp add: be32_def bit_simps)+

lemma ucast_be16 [byte_simps]:
  "(ucast (be16 a b) :: u8) = b"
  "(ucast (drop_bit 8 (be16 a b)) :: u8) = a"
  by (rule word_eq_by_bits [OF _ enum8], simp add: be16_def bit_simps)+

lemma be32_split [byte_simps]:
  "be32 (ucast (drop_bit 24 w)) (ucast (drop_bit 16 w)) (ucast (drop_bit 8 w)) (ucast w) = w"
  by (rule word_eq_by_bits [OF _ enum32]) (simp add: be32_def bit_simps)

lemma be16_split [byte_simps]: "be16 (ucast (drop_bit 8 w)) (ucast w) = w"
  by (rule word_eq_by_bits [OF _ enum16]) (simp add: be16_def bit_simps)

lemma SWAP_32_swap [byte_simps]: "SWAP_32 (SWAP_32 w) = w"
  by (metis SWAP_32_be32 be32_split)

lemma SWAP_16_swap [byte_simps]: "SWAP_16 (SWAP_16 w) = w"
  by (metis SWAP_16_be16 be16_split)

text \<open>Swapping what was loaded in one order is loading in the other.\<close>

lemma SWAP_32_load [byte_simps]: "SWAP_32 (u32_of e bs) = u32_of (other e) bs"
  by (cases e) (simp_all add: SWAP_32_be32)

lemma SWAP_16_load [byte_simps]: "SWAP_16 (u16_of e bs) = u16_of (other e) bs"
  by (cases e) (simp_all add: SWAP_16_be16)

lemma SWAP_32_bytes [byte_simps]: "u32_bytes e (SWAP_32 w) = u32_bytes (other e) w"
proof -
  have "u32_bytes e (SWAP_32 (be32 a b c d)) = u32_bytes (other e) (be32 a b c d)" for a b c d
    by (cases e) (simp_all add: SWAP_32_be32 ucast_be32)
  then show ?thesis by (metis be32_split)
qed

lemma SWAP_16_bytes [byte_simps]: "u16_bytes e (SWAP_16 w) = u16_bytes (other e) w"
proof -
  have "u16_bytes e (SWAP_16 (be16 a b)) = u16_bytes (other e) (be16 a b)" for a b
    by (cases e) (simp_all add: SWAP_16_be16 ucast_be16)
  then show ?thesis by (metis be16_split)
qed

lemma bytes_other: "u32_bytes (other e) w = rev (u32_bytes e w)" "u16_bytes (other e) v = rev (u16_bytes e v)"
  by (cases e; simp)+

lemma other_other [simp]: "other (other e) = e"
  by (cases e) simp_all

section \<open>Fixed-width encodings\<close>

text \<open>
  A value of fixed size in a file or in memory: \<open>enc\<close> lays it out in \<open>width\<close> bytes and
  \<open>dec\<close> reads it back from the front of a run of bytes. Loads and stores of C structures
  are instances; what a later reader sees of an earlier store is proved once here.
\<close>

locale byte_codec =
  fixes enc :: "'v \<Rightarrow> u8 list"
    and dec :: "u8 list \<Rightarrow> 'v"
    and width :: nat
  assumes length_enc: "length (enc v) = width"
    and dec_enc: "dec (enc v @ rest) = v"
    and dec_front: "length bs = width \<Longrightarrow> dec (bs @ rest) = dec bs"
    and width_bound: "width \<le> 2 ^ 31"
begin

lemma dec_enc_nil: "dec (enc v) = v"
  using dec_enc [of v "[]"] by simp

lemma enc_inj: "enc v = enc w \<Longrightarrow> v = w"
  by (metis dec_enc_nil)

lemma dec_take: "width \<le> length bs \<Longrightarrow> dec (take width bs) = dec bs"
  using dec_front [of "take width bs" "drop width bs"] by simp

lemma dec_at: "length pre = k \<Longrightarrow> dec (drop k (pre @ enc v @ post)) = v"
  by (simp add: dec_enc)

lemma load_store: "dec (mem_read (mem_write m a (enc v)) a width) = v"
  using mem_read_write_same [of "enc v" m a] width_bound
  by (simp add: length_enc dec_enc_nil)

lemma load_store_apart:
  "apart a width b (length bs) \<Longrightarrow>
     dec (mem_read (mem_write m b bs) a width) = dec (mem_read m a width)"
  using width_bound by (simp add: mem_read_write_apart)

lemma load_longer: "width \<le> n \<Longrightarrow> dec (mem_read m a n) = dec (mem_read m a width)"
  using dec_take [of "mem_read m a n"] by (simp add: take_mem_read)

end

text \<open>The same value in two byte orders: a swap turns what the one codec reads into what the other reads, undoes
  itself, and makes a codec of the other order out of the first.\<close>

locale codec_swap = one: byte_codec enc dec width + two: byte_codec enc' dec' width
  for enc :: "'v \<Rightarrow> u8 list" and dec :: "u8 list \<Rightarrow> 'v" and enc' :: "'v \<Rightarrow> u8 list" and dec' :: "u8 list \<Rightarrow> 'v"
    and width :: nat +
  fixes swap :: "'v \<Rightarrow> 'v"
  assumes swap_dec: "swap (dec bs) = dec' bs" and swap_dec': "swap (dec' bs) = dec bs"
begin

lemma swap_swap: "swap (swap v) = v"
  by (metis one.dec_enc_nil swap_dec swap_dec')

lemma dec_other: "dec (enc' v) = swap v"
  by (metis two.dec_enc_nil swap_dec')

end

sublocale codec_swap \<subseteq> swapped: byte_codec "\<lambda>v. enc (swap v)" "\<lambda>bs. swap (dec bs)" width
  using one.width_bound by unfold_locales (simp_all add: one.length_enc one.dec_enc one.dec_front swap_swap)

interpretation codec16: byte_codec "u16_bytes e" "u16_of e" 2
  by unfold_locales (cases e; simp add: byte_simps nth_append)+

interpretation codec32: byte_codec "u32_bytes e" "u32_of e" 4
  by unfold_locales (cases e; simp add: byte_simps nth_append)+

interpretation swap16: codec_swap "u16_bytes e" "u16_of e" "u16_bytes (other e)" "u16_of (other e)" 2 SWAP_16
  by unfold_locales (simp_all add: SWAP_16_load)

interpretation swap32: codec_swap "u32_bytes e" "u32_of e" "u32_bytes (other e)" "u32_of (other e)" 4 SWAP_32
  by unfold_locales (simp_all add: SWAP_32_load)

section \<open>Properties\<close>

text \<open>The swap macros turn a number loaded in one byte order into the number the same bytes
  make in the other, store back the same bytes reversed, and undo themselves.\<close>

theorem swap_macros:
  "SWAP_32 (u32_of e bs) = u32_of (other e) bs \<and> SWAP_16 (u16_of e bs) = u16_of (other e) bs \<and>
   u32_bytes e (SWAP_32 w) = rev (u32_bytes e w) \<and> u16_bytes e (SWAP_16 v) = rev (u16_bytes e v) \<and>
   SWAP_32 (SWAP_32 w) = w \<and> SWAP_16 (SWAP_16 v) = v"
  using SWAP_32_load SWAP_16_load SWAP_32_swap SWAP_16_swap bytes_other SWAP_32_bytes SWAP_16_bytes
  by simp

end
