(* ===== verification/Printf.thy ===== *)
theory Printf
  imports Bytes
begin

text \<open>
  The formatted output of \<^verbatim>\<open>printf.c\<close>: \<open>number\<close>, \<open>vsprintf\<close> and \<open>sprintf\<close>. The format is
  a string literal of the source (it is never stored to), the variadic arguments are the
  32-bit values \<^verbatim>\<open>va_arg\<close> takes one after the other, and the output goes to memory at
  \<open>str\<close>, so that a \<^verbatim>\<open>%s\<close> argument may alias the output buffer. \<open>None\<close> stands for no
  defined result: arguments exhausted, an unterminated string scanned for ever, or the
  null pointer \<open>number\<close> returns for a base outside 2..36. \<open>int\<close> fields (width, precision)
  are unbounded: an overflow of theirs is undefined behaviour in C.
\<close>

section \<open>Digits and flags\<close>

definition isdigit :: "char \<Rightarrow> bool" where
  "isdigit c \<longleftrightarrow> 48 \<le> (of_char c :: int) \<and> (of_char c :: int) \<le> 57"

fun skip_atoi :: "int \<Rightarrow> string \<Rightarrow> int \<times> string" where
  "skip_atoi i [] = (i, [])"
| "skip_atoi i (c # cs) =
     (if isdigit c then skip_atoi (i * 10 + of_char c - 48) cs else (i, c # cs))"

definition ZEROPAD :: u32 where "ZEROPAD = 1"
definition SIGN :: u32 where "SIGN = 2"
definition PLUS :: u32 where "PLUS = 4"
definition SPACE :: u32 where "SPACE = 8"
definition LEFT :: u32 where "LEFT = 16"
definition SMALL :: u32 where "SMALL = 32"
definition SPECIAL :: u32 where "SPECIAL = 64"

lemmas flag_defs = ZEROPAD_def SIGN_def PLUS_def SPACE_def LEFT_def SMALL_def SPECIAL_def

text \<open>\<open>type & FLAG\<close> used as a condition.\<close>

definition has :: "u32 \<Rightarrow> u32 \<Rightarrow> bool" where
  "has type flag \<longleftrightarrow> type AND flag \<noteq> 0"

text \<open>The digit loop fills \<open>tmp\<close> with the least significant digit first. The division is
  unsigned (\<open>do_div\<close> casts), also for a negative \<open>num\<close>.\<close>

definition digit_chars :: "u8 list" where
  "digit_chars = bytes_of ''0123456789ABCDEF''"

function num_digits :: "u32 \<Rightarrow> u32 \<Rightarrow> u8 \<Rightarrow> u8 list" where
  "num_digits num base locase =
     (if num = 0 \<or> base < 2 then []
      else (digit_chars ! unat (num mod base) OR locase)
        # num_digits (num div base) base locase)"
  by pat_completeness auto
termination
proof (relation "measure (\<lambda>(num, base, locase). unat num)")
  fix num base :: u32 and locase :: u8
  assume a: "\<not> (num = 0 \<or> base < 2)"
  then have "0 < unat num" and "2 \<le> unat base"
    by (auto simp: unat_gt_0 word_less_nat_alt not_less)
  then have "unat num div unat base < unat num" by (intro div_less_dividend) auto
  then show "((num div base, base, locase), (num, base, locase))
      \<in> measure (\<lambda>(num, base, locase). unat num)"
    by (simp add: unat_div)
qed simp

declare num_digits.simps [simp del]

text \<open>The value of \<open>n\<close> after \<open>while (n-- > 0)\<close>.\<close>

definition after_countdown :: "int \<Rightarrow> int" where
  "after_countdown n = min n 0 - 1"

text \<open>
  \<open>number\<close> stores the converted number at \<open>str\<close> and returns the advanced pointer; here it
  yields the bytes it stores. A base above 16 would index \<open>digits\<close> out of bounds.
\<close>

definition number_sign :: "u32 \<Rightarrow> u32 \<Rightarrow> int \<Rightarrow> u8 \<times> u32 \<times> int" where
  "number_sign type num size0 =
     (if has type SIGN then
        if sint num < 0 then (45, - num, size0 - 1)
        else if has type PLUS then (43, num, size0 - 1)
        else if has type SPACE then (32, num, size0 - 1)
        else (0, num, size0)
      else (0, num, size0))"

definition number_special_size :: "u32 \<Rightarrow> u32 \<Rightarrow> int \<Rightarrow> int" where
  "number_special_size type base size1 =
     (if has type SPECIAL then
        if base = 16 then size1 - 2 else if base = 8 then size1 - 1 else size1
      else size1)"

definition number_special :: "u32 \<Rightarrow> u32 \<Rightarrow> u8 \<Rightarrow> u8 list" where
  "number_special type base locase =
     (if has type SPECIAL then
        if base = 8 then [48] else if base = 16 then [48, 0x58 OR locase] else []
      else [])"

text \<open>The stores of \<open>number\<close>, from the flags and the letter case on.\<close>

definition number_stores :: "u32 \<Rightarrow> u8 \<Rightarrow> u32 \<Rightarrow> u32 \<Rightarrow> int \<Rightarrow> int \<Rightarrow> u8 list" where
  "number_stores type locase num base size0 precision0 =
     (let c = (if has type ZEROPAD then 48 else 32);
          (sign, num, size1) = number_sign type num size0;
          size2 = number_special_size type base size1;
          tmp = (if num = 0 then [48] else num_digits num base locase);
          i = int (length tmp);
          precision = (if i > precision0 then i else precision0);
          size3 = size2 - precision;
          (lead, size4) =
            (if \<not> has type (ZEROPAD + LEFT)
             then (replicate (nat size3) 32, after_countdown size3) else ([], size3));
          signs = (if sign \<noteq> 0 then [sign] else []);
          (pad, size5) =
            (if \<not> has type LEFT then (replicate (nat size4) c, after_countdown size4)
             else ([], size4));
          zeros = replicate (nat (precision - i)) 48;
          trail = replicate (nat size5) 32
      in lead @ signs @ number_special type base locase @ pad @ zeros @ rev tmp @ trail)"

definition number :: "u32 \<Rightarrow> u32 \<Rightarrow> int \<Rightarrow> int \<Rightarrow> u32 \<Rightarrow> u8 list option" where
  "number num base size0 precision0 type0 =
     (let locase = ucast (type0 AND SMALL) :: u8;
          type = (if has type0 LEFT then type0 AND NOT ZEROPAD else type0)
      in if base < 2 \<or> base > 36 then None
         else if base > 16 then None
         else Some (number_stores type locase num base size0 precision0))"

section \<open>The format interpreter\<close>

fun parse_flags :: "u32 \<Rightarrow> string \<Rightarrow> u32 \<times> string" where
  "parse_flags flags [] = (flags, [])"
| "parse_flags flags (c # cs) =
     (if c = CHR ''-'' then parse_flags (flags OR LEFT) cs
      else if c = CHR ''+'' then parse_flags (flags OR PLUS) cs
      else if c = CHR '' '' then parse_flags (flags OR SPACE) cs
      else if c = CHR ''#'' then parse_flags (flags OR SPECIAL) cs
      else if c = CHR ''0'' then parse_flags (flags OR ZEROPAD) cs
      else (flags, c # cs))"

fun parse_width :: "u32 \<Rightarrow> string \<Rightarrow> u32 list \<Rightarrow> (int \<times> u32 \<times> string \<times> u32 list) option" where
  "parse_width flags [] args = Some (-1, flags, [], args)"
| "parse_width flags (c # cs) args =
     (if isdigit c then (case skip_atoi 0 (c # cs) of (w, rest) \<Rightarrow> Some (w, flags, rest, args))
      else if c = CHR ''*'' then
        (case args of [] \<Rightarrow> None
         | a # as \<Rightarrow>
             if sint a < 0 then Some (- sint a, flags OR LEFT, cs, as)
             else Some (sint a, flags, cs, as))
      else Some (-1, flags, c # cs, args))"

fun parse_precision :: "string \<Rightarrow> u32 list \<Rightarrow> (int \<times> string \<times> u32 list) option" where
  "parse_precision [] args = Some (-1, [], args)"
| "parse_precision (c # cs) args =
     (if c = CHR ''.'' then
        (case cs of [] \<Rightarrow> Some (0, [], args)
         | d # ds \<Rightarrow>
             if isdigit d then
               (case skip_atoi 0 cs of (p, rest) \<Rightarrow> Some (if p < 0 then 0 else p, rest, args))
             else if d = CHR ''*'' then
               (case args of [] \<Rightarrow> None
                | a # as \<Rightarrow> Some (if sint a < 0 then 0 else sint a, ds, as))
             else Some (0, cs, args))
      else Some (-1, c # cs, args))"

fun parse_qualifier :: "string \<Rightarrow> char option \<times> string" where
  "parse_qualifier [] = (None, [])"
| "parse_qualifier (c # cs) =
     (if c = CHR ''h'' \<or> c = CHR ''l'' \<or> c = CHR ''L'' then (Some c, cs) else (None, c # cs))"

text \<open>\<open>c_strnlen\<close> of \<^verbatim>\<open>promlib.c\<close> (the same in the three platforms): \<open>maxlen = -1\<close> is no limit.\<close>

partial_function (option) c_strnlen_loop :: "mem \<Rightarrow> addr \<Rightarrow> int \<Rightarrow> int \<Rightarrow> int option" where
  "c_strnlen_loop m s maxlen i =
     (if m s \<noteq> 0 \<and> i \<noteq> maxlen then c_strnlen_loop m (s + 1) maxlen (i + 1) else Some i)"

declare c_strnlen_loop.simps [code]

definition c_strnlen :: "mem \<Rightarrow> addr \<Rightarrow> int \<Rightarrow> int option" where
  "c_strnlen m s maxlen = (if s = 0 then Some 0 else c_strnlen_loop m s maxlen 0)"

definition emit :: "mem \<Rightarrow> addr \<Rightarrow> u8 list \<Rightarrow> mem \<times> addr" where
  "emit m str bs = (mem_write m str bs, str + of_nat (length bs))"

definition convert_c :: "mem \<Rightarrow> addr \<Rightarrow> u32 \<Rightarrow> int \<Rightarrow> u32 \<Rightarrow> mem \<times> addr" where
  "convert_c m str flags field_width a =
     (let (lead, w) =
        (if \<not> has flags LEFT
         then (replicate (nat (field_width - 1)) 32, min (field_width - 1) 0)
         else ([], field_width))
      in emit m str (lead @ [ucast a] @ replicate (nat (w - 1)) 32))"

definition convert_s :: "mem \<Rightarrow> addr \<Rightarrow> u32 \<Rightarrow> int \<Rightarrow> int \<Rightarrow> addr \<Rightarrow> (mem \<times> addr) option" where
  "convert_s m str flags field_width precision s =
     (case c_strnlen m s precision of None \<Rightarrow> None
      | Some len \<Rightarrow>
          let (lead, w) =
                (if \<not> has flags LEFT
                 then (replicate (nat (field_width - len)) 32, min field_width len - 1)
                 else ([], field_width));
              (m1, str1) = emit m str lead;
              m2 = memcpy_loop m1 str1 s (nat len);
              str2 = str1 + of_int len
          in Some (emit m2 str2 (replicate (nat (w - len)) 32)))"

text \<open>The value of an integer argument, by qualifier and signedness.\<close>

definition int_arg :: "u32 \<Rightarrow> char option \<Rightarrow> u32 \<Rightarrow> u32" where
  "int_arg flags qualifier a =
     (if qualifier = Some (CHR ''l'') then a
      else if qualifier = Some (CHR ''h'') then
        (if has flags SIGN then scast (ucast a :: u16) else ucast (ucast a :: u16))
      else a)"

definition convert_int ::
    "mem \<Rightarrow> addr \<Rightarrow> u32 \<Rightarrow> int \<Rightarrow> int \<Rightarrow> char option \<Rightarrow> u32 \<Rightarrow> string \<Rightarrow> u32 list \<Rightarrow>
       (mem \<times> addr \<times> string \<times> u32 list) option" where
  "convert_int m str flags field_width precision qualifier base fmt args =
     (case args of [] \<Rightarrow> None
      | a # as \<Rightarrow>
          (case number (int_arg flags qualifier a) base field_width precision flags of
             None \<Rightarrow> None
           | Some bs \<Rightarrow> (case emit m str bs of (m', str') \<Rightarrow> Some (m', str', fmt, as))))"

definition convert ::
    "mem \<Rightarrow> addr \<Rightarrow> addr \<Rightarrow> u32 \<Rightarrow> int \<Rightarrow> int \<Rightarrow> char option \<Rightarrow> string \<Rightarrow> u32 list \<Rightarrow>
       (mem \<times> addr \<times> string \<times> u32 list) option" where
  "convert m buf str flags field_width precision qualifier fmt args =
     (case fmt of
        [] \<Rightarrow> Some (m(str := 37), str + 1, [], args)
      | c # cs \<Rightarrow>
          if c = CHR ''c'' then
            (case args of [] \<Rightarrow> None
             | a # as \<Rightarrow> (case convert_c m str flags field_width a of
                 (m', str') \<Rightarrow> Some (m', str', cs, as)))
          else if c = CHR ''s'' then
            (case args of [] \<Rightarrow> None
             | a # as \<Rightarrow> (case convert_s m str flags field_width precision a of None \<Rightarrow> None
                 | Some (m', str') \<Rightarrow> Some (m', str', cs, as)))
          else if c = CHR ''p'' then
            (if field_width = -1
             then convert_int m str (flags OR ZEROPAD) 8 precision (Some (CHR ''l'')) 16 cs args
             else convert_int m str flags field_width precision (Some (CHR ''l'')) 16 cs args)
          else if c = CHR ''n'' then
            (case args of [] \<Rightarrow> None
             | ip # as \<Rightarrow> Some (mem_write m ip (u32_bytes BE (str - buf)), str, cs, as))
          else if c = CHR ''%'' then Some (m(str := 37), str + 1, cs, args)
          else if c = CHR ''o'' then
            convert_int m str flags field_width precision qualifier 8 cs args
          else if c = CHR ''x'' then
            convert_int m str (flags OR SMALL) field_width precision qualifier 16 cs args
          else if c = CHR ''X'' then
            convert_int m str flags field_width precision qualifier 16 cs args
          else if c = CHR ''d'' \<or> c = CHR ''i'' then
            convert_int m str (flags OR SIGN) field_width precision qualifier 10 cs args
          else if c = CHR ''u'' then
            convert_int m str flags field_width precision qualifier 10 cs args
          else Some (m(str := 37, str + 1 := of_char c), str + 2, cs, args))"

text \<open>One conversion, from the character after the percent sign.\<close>

definition directive ::
    "mem \<Rightarrow> addr \<Rightarrow> addr \<Rightarrow> string \<Rightarrow> u32 list \<Rightarrow> (mem \<times> addr \<times> string \<times> u32 list) option" where
  "directive m buf str fmt args =
     (case parse_flags 0 fmt of (flags, fmt1) \<Rightarrow>
        (case parse_width flags fmt1 args of None \<Rightarrow> None
         | Some (field_width, flags', fmt2, args2) \<Rightarrow>
             (case parse_precision fmt2 args2 of None \<Rightarrow> None
              | Some (precision, fmt3, args3) \<Rightarrow>
                  (case parse_qualifier fmt3 of (qualifier, fmt4) \<Rightarrow>
                     convert m buf str flags' field_width precision qualifier fmt4 args3))))"

lemma length_skip_atoi: "skip_atoi i s = (n, r) \<Longrightarrow> length r \<le> length s"
  by (induction i s rule: skip_atoi.induct) (auto split: if_splits)

lemma length_parse_flags: "parse_flags f s = (n, r) \<Longrightarrow> length r \<le> length s"
  by (induction f s rule: parse_flags.induct) (auto split: if_splits)

lemma length_parse_width:
  "parse_width f s as = Some (w, f', r, as') \<Longrightarrow> length r \<le> length s"
  by (cases s) (auto split: if_splits list.splits prod.splits dest: length_skip_atoi)

lemma length_parse_precision:
  "parse_precision s as = Some (p, r, as') \<Longrightarrow> length r \<le> length s"
  by (cases s) (auto split: if_splits list.splits prod.splits dest!: length_skip_atoi)

lemma length_parse_qualifier: "parse_qualifier s = (q, r) \<Longrightarrow> length r \<le> length s"
  by (cases s) (auto split: if_splits)

lemma length_convert:
  "convert m buf str f w p q s as = Some (m', str', r, as') \<Longrightarrow> length r \<le> length s"
  by (auto simp: convert_def convert_int_def split: if_splits list.splits option.splits prod.splits)

lemma length_directive:
  assumes "directive m buf str s as = Some (m', str', r, as')"
  shows "length r \<le> length s"
  using assms unfolding directive_def
  by (auto split: prod.splits option.splits dest!: length_parse_flags length_parse_width
      length_parse_precision length_parse_qualifier length_convert)

function vsprintf_loop ::
    "mem \<Rightarrow> addr \<Rightarrow> addr \<Rightarrow> string \<Rightarrow> u32 list \<Rightarrow> (mem \<times> addr) option" where
  "vsprintf_loop m buf str [] args = Some (m, str)"
| "vsprintf_loop m buf str (c # fmt) args =
     (if c \<noteq> CHR ''%'' then vsprintf_loop (m(str := of_char c)) buf (str + 1) fmt args
      else (case directive m buf str fmt args of None \<Rightarrow> None
            | Some (m', str', fmt', args') \<Rightarrow> vsprintf_loop m' buf str' fmt' args'))"
  by pat_completeness auto
termination
  by (relation "measure (\<lambda>(m, buf, str, fmt, args). length fmt)")
    (auto dest!: length_directive)

text \<open>The result is the memory, with the final NUL stored, and the number of bytes before it.\<close>

definition vsprintf :: "mem \<Rightarrow> addr \<Rightarrow> string \<Rightarrow> u32 list \<Rightarrow> (mem \<times> u32) option" where
  "vsprintf m buf fmt args =
     (case vsprintf_loop m buf buf fmt args of None \<Rightarrow> None
      | Some (m', str) \<Rightarrow> Some (m'(str := 0), str - buf))"

definition sprintf :: "mem \<Rightarrow> addr \<Rightarrow> string \<Rightarrow> u32 list \<Rightarrow> (mem \<times> u32) option" where
  "sprintf m buf fmt args = vsprintf m buf fmt args"

section \<open>Numbers\<close>

text \<open>The digits of a number, most significant first, and their value.\<close>

definition number_digits :: "u32 \<Rightarrow> u32 \<Rightarrow> u8 \<Rightarrow> u8 list" where
  "number_digits num base locase =
     rev (if num = 0 then [48] else num_digits num base locase)"

definition digit_value :: "u8 \<Rightarrow> nat" where
  "digit_value d = (if d \<le> 57 then unat d - 48 else unat (d AND NOT 32) - 55)"

fun digits_value :: "nat \<Rightarrow> u8 list \<Rightarrow> nat" where
  "digits_value base [] = 0"
| "digits_value base (d # ds) = digit_value d * base ^ length ds + digits_value base ds"

lemma digits_value_append:
  "digits_value b (xs @ ys) = digits_value b xs * b ^ length ys + digits_value b ys"
  by (induction xs) (auto simp: power_add algebra_simps)

text \<open>A digit is recognised again in either letter case.\<close>

lemma digit_value_char:
  assumes "k < 16" and "locase = 0 \<or> locase = 0x20"
  shows "digit_value (digit_chars ! k OR locase) = k"
proof -
  have "k = 0 \<or> k = 1 \<or> k = 2 \<or> k = 3 \<or> k = 4 \<or> k = 5 \<or> k = 6 \<or> k = 7 \<or> k = 8 \<or> k = 9 \<or>
      k = 10 \<or> k = 11 \<or> k = 12 \<or> k = 13 \<or> k = 14 \<or> k = 15"
    using assms(1) by presburger
  then show ?thesis using assms(2)
    by (elim disjE) (simp_all add: digit_value_def digit_chars_def)
qed

lemma unat_mod_small:
  fixes n b :: u32
  assumes "2 \<le> b" and "b \<le> 16"
  shows "unat (n mod b) < 16"
proof -
  have "0 < unat b" "unat b \<le> 16" using assms by (auto simp: word_le_nat_alt)
  then have "unat n mod unat b < 16" using mod_less_divisor [of "unat b" "unat n"] by linarith
  then show ?thesis by (simp add: unat_mod)
qed

lemma num_digits_value:
  assumes "2 \<le> base" and "base \<le> 16" and "locase = 0 \<or> locase = 0x20"
  shows "digits_value (unat base) (rev (num_digits num base locase)) = unat num"
  using assms
proof (induction num base locase rule: num_digits.induct)
  case (1 num base locase)
  show ?case
  proof (cases "num = 0")
    case True
    then show ?thesis by (simp add: num_digits.simps)
  next
    case False
    with "1.prems" have "\<not> (num = 0 \<or> base < 2)" by auto
    then have "digits_value (unat base) (rev (num_digits (num div base) base locase))
        = unat num div unat base"
      using "1.IH" "1.prems" by (simp add: unat_div)
    moreover have "digit_value (digit_chars ! unat (num mod base) OR locase) = unat num mod unat base"
      using digit_value_char [OF unat_mod_small [OF "1.prems"(1,2)] "1.prems"(3)]
      by (simp add: unat_mod)
    ultimately show ?thesis
      using \<open>\<not> (num = 0 \<or> base < 2)\<close>
      by (simp add: num_digits.simps [of num base locase] digits_value_append)
  qed
qed

lemma number_digits_value:
  assumes "2 \<le> base" and "base \<le> 16" and "locase = 0 \<or> locase = 0x20"
  shows "digits_value (unat base) (number_digits num base locase) = unat num"
  using num_digits_value [OF assms] by (simp add: number_digits_def digit_value_def)

lemma length_num_digits:
  "2 \<le> base \<Longrightarrow> unat num < 2 ^ k \<Longrightarrow> length (num_digits num base locase) \<le> k"
proof (induction k arbitrary: num)
  case 0
  then have "num = 0" by (simp add: unat_eq_zero)
  then show ?case by (simp add: num_digits.simps)
next
  case (Suc k)
  have "2 \<le> unat base" using Suc.prems(1) by (simp add: word_le_nat_alt)
  then have "unat num div unat base \<le> unat num div 2" by (simp add: div_le_mono2)
  with Suc.prems(2) have "unat (num div base) < 2 ^ k" by (simp add: unat_div)
  then have "length (num_digits (num div base) base locase) \<le> k" by (rule Suc.IH [OF Suc.prems(1)])
  then show ?case by (subst num_digits.simps) simp
qed

lemma length_number_digits:
  assumes "2 \<le> base"
  shows "0 < length (number_digits num base locase)"
    and "length (number_digits num base locase) \<le> 32"
proof -
  have "unat num < 2 ^ LENGTH(32)" by (rule unsigned_less)
  then have le: "length (num_digits num base locase) \<le> 32"
    using length_num_digits [OF assms, of num 32] by simp
  have "num \<noteq> 0 \<Longrightarrow> num_digits num base locase \<noteq> []"
    using assms by (subst num_digits.simps) auto
  then show "0 < length (number_digits num base locase)" by (simp add: number_digits_def)
  show "length (number_digits num base locase) \<le> 32" using le by (simp add: number_digits_def)
qed

text \<open>The plain conversions the boot loader uses.\<close>

definition decimal :: "u32 \<Rightarrow> u8 list" where
  "decimal a = (if sint a < 0 then 45 # number_digits (- a) 10 0 else number_digits a 10 0)"

lemmas number_defs = number_def number_stores_def number_sign_def number_special_def number_special_size_def
  has_def flag_defs Let_def after_countdown_def

lemma number_signed: "number a 10 (-1) (-1) SIGN = Some (decimal a)"
  by (simp add: number_defs decimal_def number_digits_def)

lemma number_unsigned: "number a 10 (-1) (-1) 0 = Some (number_digits a 10 0)"
  by (simp add: number_defs number_digits_def)

lemma number_hex: "number a 16 (-1) (-1) SMALL = Some (number_digits a 16 0x20)"
  by (simp add: number_defs number_digits_def)

lemma number_sign_shift:
  "number_sign type num w = (case number_sign type num 0 of (s, n, z) \<Rightarrow> (s, n, z + w))"
  by (simp add: number_sign_def)

lemma number_sign_bytes:
  "number_sign type num w = (s, n, z) \<Longrightarrow> int (length (if s \<noteq> 0 then [s] else [])) = w - z"
  by (auto simp: number_sign_def split: if_splits)

lemma number_special_bytes:
  "int (length (number_special type base locase)) = z - number_special_size type base z"
  by (simp add: number_special_def number_special_size_def)

lemma number_special_size_shift:
  "number_special_size type base (z + w) = number_special_size type base z + w"
  by (simp add: number_special_size_def)

lemma has_ZEROPAD_LEFT: "has t (ZEROPAD + LEFT) \<longleftrightarrow> has t ZEROPAD \<or> has t LEFT"
proof -
  have "t AND 17 = (t AND 1) OR (t AND 16)"
    by (simp flip: bit.conj_disj_distrib)
  then show ?thesis by (auto simp: has_def flag_defs or_eq_0_iff)
qed

text \<open>
  The output is exactly as wide as the field, or as the number itself (its sign, its
  prefix and its digits, of which there are at least \<open>precision\<close>) where that is wider.
\<close>

definition number_core :: "u32 \<Rightarrow> u8 \<Rightarrow> u32 \<Rightarrow> u32 \<Rightarrow> int \<Rightarrow> int" where
  "number_core type locase num base precision0 =
     (let (sign, num, size1) = number_sign type num 0
      in max precision0 (int (length (number_digits num base locase)))
         - number_special_size type base size1)"

lemma number_stores_length:
  "int (length (number_stores t loc num base width precision)) =
     max width (number_core t loc num base precision)"
proof -
  obtain s n z where sg: "number_sign t num width = (s, n, z)" by (metis prod_cases3)
  then have sg0: "number_sign t num 0 = (s, n, z - width)"
    using number_sign_shift [of t num width] by (auto split: prod.splits)
  define k where "k = int (length (number_digits n base loc))"
  define p where "p = max precision k"
  have core: "number_core t loc num base precision = p - (number_special_size t base z - width)"
    using number_special_size_shift [of t base z "- width"]
    by (simp add: number_core_def sg0 p_def k_def)
  have sb: "int (length (if s \<noteq> 0 then [s] else [])) = width - z"
    by (rule number_sign_bytes [OF sg])
  have pb: "int (length (number_special t base loc)) = z - number_special_size t base z"
    by (rule number_special_bytes)
  have k: "int (length (if n = 0 then [48] else num_digits n base loc)) = k"
    by (simp add: k_def number_digits_def)
  have pk: "(if k > precision then k else precision) = p" and "0 \<le> p - k"
    by (auto simp: p_def)
  show ?thesis
    unfolding number_stores_def core sg Let_def prod.case k pk has_ZEROPAD_LEFT after_countdown_def
    using sb pb k \<open>0 \<le> p - k\<close> by (auto simp: max_def split: if_splits)
qed

lemma number_length:
  "number num base width precision type = Some bs \<Longrightarrow>
     int (length bs) = max width
       (number_core (if has type LEFT then type AND NOT ZEROPAD else type)
          (ucast (type AND SMALL)) num base precision)"
  by (auto simp: number_def Let_def number_stores_length split: if_splits)

section \<open>Formats\<close>

lemmas directive_defs = directive_def convert_def convert_int_def isdigit_def int_arg_def emit_def

text \<open>Text without a percent sign is copied.\<close>

lemma vsprintf_text:
  "CHR ''%'' \<notin> set s \<Longrightarrow> vsprintf_loop m buf str (s @ fmt) args =
     vsprintf_loop (mem_write m str (bytes_of s)) buf (str + of_nat (length s)) fmt args"
  by (induction s arbitrary: m str) (auto simp: algebra_simps)

lemma vsprintf_d:
  "vsprintf_loop m buf str (CHR ''%'' # CHR ''d'' # fmt) (a # args) =
     vsprintf_loop (mem_write m str (decimal a)) buf (str + of_nat (length (decimal a))) fmt args"
  using number_signed [of a] by (simp add: directive_defs SIGN_def)

lemma vsprintf_u:
  "vsprintf_loop m buf str (CHR ''%'' # CHR ''u'' # fmt) (a # args) =
     vsprintf_loop (mem_write m str (number_digits a 10 0)) buf
       (str + of_nat (length (number_digits a 10 0))) fmt args"
  using number_unsigned [of a] by (simp add: directive_defs)

text \<open>The string argument is copied forwards, byte by byte, from where it is.\<close>

lemma c_strnlen_loop_cstr:
  "cstr m s t \<Longrightarrow> 0 \<le> i \<Longrightarrow> c_strnlen_loop m s (-1) i = Some (i + int (length t))"
  by (induction t arbitrary: s i) (subst c_strnlen_loop.simps; simp)+

lemma c_strnlen_cstr: "cstr m s t \<Longrightarrow> s \<noteq> 0 \<Longrightarrow> c_strnlen m s (-1) = Some (int (length t))"
  by (simp add: c_strnlen_def c_strnlen_loop_cstr)

lemma c_strnlen_loop_max:
  "cstr m s t \<Longrightarrow> 0 \<le> i \<Longrightarrow> i \<le> k \<Longrightarrow>
     c_strnlen_loop m s k i = Some (min k (i + int (length t)))"
  by (induction t arbitrary: s i) (subst c_strnlen_loop.simps; auto)+

lemma vsprintf_s:
  assumes "cstr m s t" and "s \<noteq> 0"
  shows "vsprintf_loop m buf str (CHR ''%'' # CHR ''s'' # fmt) (s # args) =
     vsprintf_loop (memcpy_loop m str s (length t)) buf (str + of_nat (length t)) fmt args"
  using c_strnlen_cstr [OF assms]
  by (simp add: directive_defs convert_s_def has_def Let_def)

text \<open>Copying a run onto itself changes nothing: \<^verbatim>\<open>sprintf(s, "%s...", s, ...)\<close> appends.\<close>

lemma memcpy_loop_self: "memcpy_loop m a a n = m"
  by (induction n) (simp_all add: memcpy_loop_Suc)

lemma sprintf_console:
  "sprintf m s ''console=ttyS0,%d'' [baud] =
     Some (mem_write m s (bytes_of ''console=ttyS0,'' @ decimal baud @ [0]),
           14 + of_nat (length (decimal baud)))"
proof -
  have fmt: "''console=ttyS0,%d'' = ''console=ttyS0,'' @ CHR ''%'' # CHR ''d'' # []" by simp
  have plain: "CHR ''%'' \<notin> set ''console=ttyS0,''" by simp
  have "vsprintf_loop m s s ''console=ttyS0,%d'' [baud] =
      Some (mem_write m s (bytes_of ''console=ttyS0,'' @ decimal baud), s + 14 + of_nat (length (decimal baud)))"
    unfolding fmt vsprintf_text [OF plain] vsprintf_d vsprintf_loop.simps(1) mem_write_append
      length_bytes_of by (simp add: add.assoc)
  then show ?thesis
    by (simp add: sprintf_def vsprintf_def mem_write_append algebra_simps)
qed

lemma sprintf_append:
  assumes "cstr m s t" and "s \<noteq> 0"
  shows "sprintf m s ''%s console=ttyS0,%d'' [s, baud] =
     Some (mem_write m (s + of_nat (length t))
             (bytes_of '' console=ttyS0,'' @ decimal baud @ [0]),
           of_nat (length t) + 15 + of_nat (length (decimal baud)))"
proof -
  have fmt: "'' console=ttyS0,%d'' = '' console=ttyS0,'' @ CHR ''%'' # CHR ''d'' # []" by simp
  have plain: "CHR ''%'' \<notin> set '' console=ttyS0,''" by simp
  have "vsprintf_loop m s s ''%s console=ttyS0,%d'' [s, baud] =
      vsprintf_loop m s (s + of_nat (length t))
        ('' console=ttyS0,'' @ CHR ''%'' # CHR ''d'' # []) [baud]"
    unfolding fmt [symmetric] using vsprintf_s [OF assms] by (simp add: memcpy_loop_self)
  also have "\<dots> = Some (mem_write m (s + of_nat (length t)) (bytes_of '' console=ttyS0,'' @ decimal baud),
      s + of_nat (length t) + 15 + of_nat (length (decimal baud)))"
    unfolding vsprintf_text [OF plain] vsprintf_d vsprintf_loop.simps(1) mem_write_append
      length_bytes_of by (simp add: add.assoc)
  finally show ?thesis
    by (simp add: sprintf_def vsprintf_def mem_write_append algebra_simps)
qed

lemma digit_char_nonzero:
  assumes "k < 16"
  shows "digit_chars ! k OR locase \<noteq> 0"
proof -
  have "digit_chars ! k \<noteq> 0"
    using digit_value_char [OF assms, of 0] assms
    by (cases "k = 0") (auto simp: digit_value_def digit_chars_def)
  then show ?thesis by (simp add: or_eq_0_iff)
qed

lemma num_digits_nonzero: "base \<le> 16 \<Longrightarrow> 0 \<notin> set (num_digits num base locase)"
proof (induction num base locase rule: num_digits.induct)
  case (1 num base locase)
  show ?case
  proof (cases "num = 0 \<or> base < 2")
    case False
    then have "unat (num mod base) < 16" using "1.prems" by (intro unat_mod_small) auto
    then show ?thesis
      using False "1.IH" "1.prems" digit_char_nonzero
      by (subst num_digits.simps) (auto simp: eq_commute [of 0])
  qed (simp add: num_digits.simps)
qed

lemma number_digits_nonzero: "base \<le> 16 \<Longrightarrow> 0 \<notin> set (number_digits num base locase)"
  by (simp add: number_digits_def num_digits_nonzero)

lemma decimal_nonzero: "0 \<notin> set (decimal a)"
  by (simp add: decimal_def number_digits_nonzero)

lemma length_decimal: "length (decimal a) \<le> 33"
  using length_number_digits(2) [of 10 a 0] length_number_digits(2) [of 10 "- a" 0]
  by (simp add: decimal_def)

lemma cstr_write:
  assumes "0 \<notin> set t" and "length t < 2 ^ 32"
  shows "cstr (mem_write m a (t @ [0])) a t"
  using assms mem_read_write_same [of "t @ [0]" m a] by (simp add: cstr_mem_read)

lemma cstr_write_append:
  assumes "cstr m s t" and "0 \<notin> set u" and "length t + length u < 2 ^ 32"
  shows "cstr (mem_write m (s + of_nat (length t)) (u @ [0])) s (t @ u)"
proof -
  have "mem_read m s (length t) = t" "0 \<notin> set t"
    using assms(1) by (auto simp: cstr_mem_read mem_read_snoc)
  moreover have "mem_write m s t = m"
    using mem_write_read_id [of "length t" m s] calculation(1) assms(3) by simp
  ultimately have "mem_write m (s + of_nat (length t)) (u @ [0]) = mem_write m s ((t @ u) @ [0])"
    by (simp add: mem_write_append)
  with assms(2,3) \<open>0 \<notin> set t\<close> cstr_write [of "t @ u" m s] show ?thesis by simp
qed

lemma sprintf_append_cstr:
  assumes "cstr m s t" and "s \<noteq> 0" and "length t + 64 < 2 ^ 32"
    and "sprintf m s ''%s console=ttyS0,%d'' [s, baud] = Some (m', n)"
  shows "cstr m' s (t @ bytes_of '' console=ttyS0,'' @ decimal baud)"
proof -
  let ?u = "bytes_of '' console=ttyS0,'' @ decimal baud"
  have "m' = mem_write m (s + of_nat (length t)) (?u @ [0])"
    using assms(4) sprintf_append [OF assms(1,2)] by simp
  moreover have "0 \<notin> set ?u" by (simp add: decimal_nonzero)
  moreover have "length t + length ?u < 2 ^ 32" using length_decimal [of baud] assms(3) by simp
  ultimately show ?thesis using cstr_write_append [OF assms(1), of ?u] by simp
qed

section \<open>Numbers in a field\<close>

lemma num_or_zero_digits: "2 \<le> base \<Longrightarrow> length (number_digits num base locase) \<le> 32"
  by (rule length_number_digits(2))

text \<open>A number never takes more than 35 bytes unless a wider field or precision asks for it,
  and none of the bytes is a NUL.\<close>

lemma number_core_bound:
  assumes "2 \<le> base" and "precision \<le> 32"
  shows "number_core t loc num base precision \<le> 35"
proof -
  obtain s n z where sg: "number_sign t num 0 = (s, n, z)" by (metis prod_cases3)
  then have "- 1 \<le> z" by (auto simp: number_sign_def split: if_splits)
  moreover have "z - 2 \<le> number_special_size t base z" by (simp add: number_special_size_def)
  moreover have "int (length (number_digits n base loc)) \<le> 32"
    using num_or_zero_digits [OF assms(1), of n loc] by simp
  ultimately show ?thesis using assms(2) by (simp add: number_core_def sg)
qed

lemma number_stores_bound:
  assumes "2 \<le> base" and "precision \<le> 32" and "width \<le> 35"
  shows "length (number_stores t loc num base width precision) \<le> 35"
proof -
  have "int (length (number_stores t loc num base width precision)) \<le> 35"
    unfolding number_stores_length using number_core_bound [OF assms(1,2)] assms(3) by simp
  then show ?thesis by simp
qed

lemma number_stores_nonzero:
  assumes "base \<le> 16"
  shows "0 \<notin> set (number_stores t loc num base width precision)"
proof -
  have "0 \<notin> set (number_special t base loc)"
    by (auto simp: number_special_def eq_commute [of 0] or_eq_0_iff)
  then show ?thesis
    using num_digits_nonzero [OF assms]
    by (auto simp: number_stores_def Let_def number_sign_def)
qed

definition hex_field :: "u32 \<Rightarrow> u32 \<Rightarrow> u8 list" where
  "hex_field type a = number_stores type 0x20 a 16 2 (-1)"

lemma hex_field_bytes: "length (hex_field t a) \<le> 35" "0 \<notin> set (hex_field t a)"
  by (simp_all add: hex_field_def number_stores_bound number_stores_nonzero)

lemma vsprintf_hash2x:
  "vsprintf_loop m buf str (CHR ''%'' # CHR ''#'' # CHR ''2'' # CHR ''x'' # fmt) (a # args) =
     vsprintf_loop (mem_write m str (hex_field 96 a)) buf (str + of_nat (length (hex_field 96 a))) fmt args"
  by (simp add: directive_defs number_def hex_field_def flag_defs has_def)

lemma vsprintf_2x:
  "vsprintf_loop m buf str (CHR ''%'' # CHR ''2'' # CHR ''x'' # fmt) (a # args) =
     vsprintf_loop (mem_write m str (hex_field 32 a)) buf (str + of_nat (length (hex_field 32 a))) fmt args"
  by (simp add: directive_defs number_def hex_field_def flag_defs has_def)

definition hex_address :: "u32 \<Rightarrow> u8 list" where
  "hex_address a = number_stores 33 0x20 a 16 16 (-1)"

lemma hex_address_bytes: "length (hex_address a) \<le> 35" "0 \<notin> set (hex_address a)"
  by (simp_all add: hex_address_def number_stores_bound number_stores_nonzero)

lemma vsprintf_016x:
  "vsprintf_loop m buf str (CHR ''%'' # CHR ''0'' # CHR ''1'' # CHR ''6'' # CHR ''x'' # fmt) (a # args) =
     vsprintf_loop (mem_write m str (hex_address a)) buf (str + of_nat (length (hex_address a))) fmt args"
  by (simp add: directive_defs number_def hex_address_def flag_defs has_def)

section \<open>Properties\<close>

text \<open>C39: \<open>number\<close> in a base up to 16 prints digits whose value is the number (unsigned
  conversions without width or flags), and at most 32 of them.\<close>

theorem number_prints_value:
  assumes "2 \<le> base" and "base \<le> 16" and "type = 0 \<or> type = SMALL"
  shows "\<exists>bs. number num base (-1) (-1) type = Some bs \<and> digits_value (unat base) bs = unat num \<and>
    0 < length bs \<and> length bs \<le> 32 \<and> 0 \<notin> set bs"
proof -
  have loc: "ucast (type AND SMALL) = (0 :: u8) \<or> ucast (type AND SMALL) = (0x20 :: u8)"
    using assms(3) by (auto simp: SMALL_def)
  have "\<not> base < 2" "\<not> base > 36" "\<not> base > 16" using assms(1,2) by (auto simp: not_less not_le word_le_nat_alt word_less_nat_alt)
  then have "number num base (-1) (-1) type = Some (number_digits num base (ucast (type AND SMALL)))"
    using assms(1,3) by (elim disjE) (simp_all add: number_defs number_digits_def)
  then show ?thesis
    using number_digits_value [OF assms(1,2) loc] length_number_digits [OF assms(1)] number_digits_nonzero [OF assms(2)]
    by auto
qed

lemma number_prints_value_witness:
  "\<exists>bs. number 0xBEEF 16 (-1) (-1) SMALL = Some bs \<and> digits_value 16 bs = 0xBEEF"
proof -
  obtain bs where "number 0xBEEF 16 (-1) (-1) SMALL = Some bs" "digits_value (unat (16 :: u32)) bs = unat (0xBEEF :: u32)"
    using number_prints_value [where base = 16 and type = SMALL and num = "0xBEEF"] by auto
  then show ?thesis by simp
qed

text \<open>The output of \<open>number\<close> is exactly as long as the field asks for, or as the number itself
  with its sign, its prefix and its digits where that is longer.\<close>

theorem number_width:
  assumes "number num base width precision type = Some bs"
  shows "int (length bs) = max width
    (number_core (if has type LEFT then type AND NOT ZEROPAD else type)
       (ucast (type AND SMALL)) num base precision)"
  using assms by (rule number_length)

lemma number_width_witness: "\<exists>bs. number 5 10 8 (-1) ZEROPAD = Some bs \<and> length bs = 8"
proof -
  have "number 5 10 8 (-1) ZEROPAD = Some [48, 48, 48, 48, 48, 48, 48, 53]" by code_simp
  moreover from number_width [OF this] have "int (length [48, 48, 48, 48, 48, 48, 48, 53 :: u8]) =
      max 8 (number_core ZEROPAD 0 5 10 (-1))"
    by (simp add: has_def flag_defs)
  ultimately show ?thesis by simp
qed

text \<open>C38: \<^verbatim>\<open>sprintf(s, "%s console=ttyS0,%d", s, baud)\<close>, whose argument is its own output buffer,
  appends the console setting to the string at \<open>s\<close> and changes nothing before it.\<close>

theorem sprintf_appends_in_place:
  assumes "cstr m s t" and "s \<noteq> 0" and "length t + 64 < 2 ^ 32"
  shows "\<exists>m' n. sprintf m s ''%s console=ttyS0,%d'' [s, baud] = Some (m', n) \<and>
    cstr m' s (t @ bytes_of '' console=ttyS0,'' @ decimal baud)"
  using sprintf_append [OF assms(1,2)] sprintf_append_cstr [OF assms] by blast

lemma sprintf_appends_in_place_witness:
  "\<exists>m' n. sprintf (mem_write (\<lambda>_. 0) 0x100 [114, 111]) 0x100 ''%s console=ttyS0,%d'' [0x100, 9600] = Some (m', n) \<and>
     cstr m' 0x100 ([114, 111] @ bytes_of '' console=ttyS0,'' @ decimal 9600)"
  by (rule sprintf_appends_in_place) simp_all

end
