(* ===== verification/Promlib.thy ===== *)
theory Promlib
  imports Printf
begin

text \<open>
  The platform layer \<^verbatim>\<open>mach/*/promlib.c\<close>: the console, the system calls into the ROM
  monitor, and the parameters that distinguish the three platforms. The machine the boot
  loader runs on is its memory, the characters still to be typed at the console, and the
  characters written to it.
\<close>

section \<open>Platforms and the machine\<close>

datatype platform = C1700 | C3600 | C7200

text \<open>There are three of them, so that a statement about all boards can be evaluated.\<close>

instantiation platform :: enum
begin

definition "enum_platform = [C1700, C3600, C7200]"

definition "enum_all_platform P \<longleftrightarrow> P C1700 \<and> P C3600 \<and> P C7200"

definition "enum_ex_platform P \<longleftrightarrow> P C1700 \<or> P C3600 \<or> P C7200"

instance
proof
  show UNIV: "(UNIV :: platform set) = set enum_class.enum"
    by (auto simp: enum_platform_def intro: platform.exhaust)
  show "distinct (enum_class.enum :: platform list)" by (simp add: enum_platform_def)
  have all: "p = C1700 \<or> p = C3600 \<or> p = C7200" for p by (cases p) simp_all
  show "enum_class.enum_all P \<longleftrightarrow> Ball (UNIV :: platform set) P" for P unfolding enum_all_platform_def using all by (metis UNIV_I)
  show "enum_class.enum_ex P \<longleftrightarrow> Bex (UNIV :: platform set) P" for P unfolding enum_ex_platform_def using all by (metis UNIV_I)
qed

end

record machine =
  mem :: "addr \<Rightarrow> u8"
  con_in :: "u8 list"
  con_out :: "u8 list"

text \<open>\<open>MEMORY_BASE\<close> is where the command line is built; it is the same on the three platforms.\<close>

definition MEMORY_BASE :: addr where "MEMORY_BASE = 0x80000000"

section \<open>Console output\<close>

text \<open>The ROM monitor's PUTC call (and the UART's transmit register) output one character.\<close>

definition c_putc :: "machine \<Rightarrow> u8 \<Rightarrow> machine" where
  "c_putc s c = s\<lparr>con_out := con_out s @ [c]\<rparr>"

partial_function (option) c_puts_mips :: "machine \<Rightarrow> addr \<Rightarrow> machine option" where
  "c_puts_mips st s =
     (if mem st s \<noteq> 0 then c_puts_mips (c_putc st (mem st s)) (s + 1) else Some st)"

text \<open>On the C1700 a carriage return precedes every newline but one at the very start.\<close>

partial_function (option) c_puts_c1700 :: "machine \<Rightarrow> addr \<Rightarrow> machine option" where
  "c_puts_c1700 st s =
     (if mem st s \<noteq> 0 then
        let st1 = c_putc st (mem st s);
            st2 = (if mem st1 (s + 1) = 10 then c_putc st1 13 else st1)
        in c_puts_c1700 st2 (s + 1)
      else Some st)"

declare c_puts_mips.simps [code] c_puts_c1700.simps [code]

definition c3600_puts :: "machine \<Rightarrow> addr \<Rightarrow> machine option" where
  "c3600_puts = c_puts_mips"

definition c7200_puts :: "machine \<Rightarrow> addr \<Rightarrow> machine option" where
  "c7200_puts = c_puts_mips"

fun c_puts :: "platform \<Rightarrow> machine \<Rightarrow> addr \<Rightarrow> machine option" where
  "c_puts C1700 st s = c_puts_c1700 st s"
| "c_puts C3600 st s = c3600_puts st s"
| "c_puts C7200 st s = c7200_puts st s"

text \<open>\<open>c_putsn\<close>: at most \<open>n\<close> characters (\<open>i != n\<close>, so a negative \<open>n\<close> is no bound).\<close>

partial_function (option) c_putsn_loop :: "machine \<Rightarrow> addr \<Rightarrow> int \<Rightarrow> int \<Rightarrow> machine option" where
  "c_putsn_loop st s n i =
     (if mem st s \<noteq> 0 \<and> i \<noteq> n then c_putsn_loop (c_putc st (mem st s)) (s + 1) n (i + 1)
      else Some st)"

declare c_putsn_loop.simps [code]

definition c_putsn :: "machine \<Rightarrow> addr \<Rightarrow> int \<Rightarrow> machine option" where
  "c_putsn st s n = c_putsn_loop st s n 0"

section \<open>Console input\<close>

text \<open>\<open>c_getc\<close> waits for a character: with nothing more to come it never returns.\<close>

definition c_getc :: "machine \<Rightarrow> (u8 \<times> machine) option" where
  "c_getc st = (case con_in st of [] \<Rightarrow> None | c # cs \<Rightarrow> Some (c, st\<lparr>con_in := cs\<rparr>))"

text \<open>
  The line editor. \<open>i\<close> is the C variable: the index of the next character, which a
  backspace moves back (by two after the increment on the C1700 and C3600, by one on the
  C7200, where delete (0x7f) is an ordinary character). Nothing stops it at 0. The loop
  ends with a newline or carriage return, or when \<open>i\<close> reaches \<open>n\<close>; then \<open>b[i - 1]\<close> is
  overwritten by the NUL.
\<close>

definition gets_back :: "platform \<Rightarrow> u8 \<Rightarrow> int \<Rightarrow> int" where
  "gets_back p c i =
     (if p = C7200 then if c = 0x8 then i - 1 else i
      else if c = 0x8 \<or> c = 0x7f then i - 2 else i)"

definition store_at :: "machine \<Rightarrow> addr \<Rightarrow> u8 \<Rightarrow> machine" where
  "store_at st a c = st\<lparr>mem := (mem st)(a := c)\<rparr>"

function c_gets_loop :: "platform \<Rightarrow> machine \<Rightarrow> addr \<Rightarrow> int \<Rightarrow> int \<Rightarrow> (int \<times> machine) option" where
  "c_gets_loop p st b n i =
     (case c_getc st of None \<Rightarrow> None
      | Some (c, st1) \<Rightarrow>
          let st2 = c_putc (store_at st1 (b + of_int i) c) c;
              i1 = i + 1
          in if c = 10 \<or> c = 13 then Some (i1, store_at st2 (b + of_int (i1 - 1)) 0)
             else let i2 = gets_back p c i1
                  in if i2 < n then c_gets_loop p st2 b n i2
                     else Some (i2, store_at st2 (b + of_int (i2 - 1)) 0))"
  by pat_completeness auto
termination
  by (relation "measure (\<lambda>(p, st, b, n, i). length (con_in st))")
    (auto simp: c_getc_def c_putc_def store_at_def split: list.splits)

declare c_gets_loop.simps [simp del]

definition c_gets :: "platform \<Rightarrow> machine \<Rightarrow> addr \<Rightarrow> int \<Rightarrow> (int \<times> machine) option" where
  "c_gets p st b n = c_gets_loop p st b n 0"

section \<open>System calls\<close>

text \<open>
  The registers the inline assembly uses. \<open>syscall\<close> (MIPS) and \<open>sc\<close> (PowerPC) enter the
  ROM monitor, which is not part of the program: it is the parameter \<open>rom\<close>, a function
  of the registers.
\<close>

record regs =
  a0 :: "32 word"
  v0 :: "32 word"
  r3 :: "32 word"

definition MEMSIZE :: u32 where "MEMSIZE = 4"
definition VERSION :: u32 where "VERSION = 10"
definition TIMER :: u32 where "TIMER = 0"
definition GETBAUD :: u32 where "GETBAUD = 62"

definition mips_memsz :: "(regs \<Rightarrow> regs) \<Rightarrow> regs \<Rightarrow> u32" where
  "mips_memsz rom r = v0 (rom (r\<lparr>a0 := MEMSIZE\<rparr>))"

definition mips_verstr :: "(regs \<Rightarrow> regs) \<Rightarrow> regs \<Rightarrow> addr" where
  "mips_verstr rom r = v0 (rom (r\<lparr>a0 := VERSION\<rparr>))"

text \<open>These two read \<open>$a0\<close> after the call, the register that held the call number.\<close>

definition mips_timer :: "(regs \<Rightarrow> regs) \<Rightarrow> regs \<Rightarrow> u32" where
  "mips_timer rom r = a0 (rom (r\<lparr>a0 := TIMER\<rparr>))"

definition c7200_baud :: "(regs \<Rightarrow> regs) \<Rightarrow> regs \<Rightarrow> u32" where
  "c7200_baud rom r = a0 (rom (r\<lparr>a0 := GETBAUD\<rparr>))"

text \<open>The C3600 version has no return statement: the caller finds what is left in \<open>$v0\<close>.\<close>

definition c3600_baud :: "(regs \<Rightarrow> regs) \<Rightarrow> regs \<Rightarrow> u32" where
  "c3600_baud rom r = v0 (rom (r\<lparr>a0 := GETBAUD\<rparr>))"

definition c1700_memsz :: "(regs \<Rightarrow> regs) \<Rightarrow> regs \<Rightarrow> u32" where
  "c1700_memsz rom r = r3 (rom (r\<lparr>r3 := 4\<rparr>))"

definition c1700_baud :: "(regs \<Rightarrow> regs) \<Rightarrow> regs \<Rightarrow> u32" where
  "c1700_baud rom r = r3 (rom (r\<lparr>r3 := 62\<rparr>))"

definition c1700_timer :: u32 where "c1700_timer = 0"

definition c1700_verstr :: string where
  "c1700_verstr = ''Cisco 1700 Series Router''"

fun c_memsz :: "platform \<Rightarrow> (regs \<Rightarrow> regs) \<Rightarrow> regs \<Rightarrow> u32" where
  "c_memsz C1700 = c1700_memsz"
| "c_memsz C3600 = mips_memsz"
| "c_memsz C7200 = mips_memsz"

fun c_baud :: "platform \<Rightarrow> (regs \<Rightarrow> regs) \<Rightarrow> regs \<Rightarrow> u32" where
  "c_baud C1700 = c1700_baud"
| "c_baud C3600 = c3600_baud"
| "c_baud C7200 = c7200_baud"

section \<open>printf\<close>

text \<open>
  \<open>printf\<close> formats into its local array \<open>printf_buf\<close> of 1024 bytes, here at the stack
  address \<open>sp\<close>, and sends it to the console. The array is dead when it returns, so the
  memory is the one before the call; text that does not fit has no defined result.
\<close>

definition printf :: "platform \<Rightarrow> addr \<Rightarrow> machine \<Rightarrow> string \<Rightarrow> u32 list \<Rightarrow> machine option" where
  "printf p sp st fmt args =
     (case vsprintf (mem st) sp fmt args of None \<Rightarrow> None
      | Some (m, printed) \<Rightarrow>
          if 1024 \<le> printed then None
          else (case c_puts p (st\<lparr>mem := m(sp + printed := 0)\<rparr>) sp of None \<Rightarrow> None
                | Some st' \<Rightarrow> Some (st'\<lparr>mem := mem st\<rparr>)))"

section \<open>What the console routines do\<close>

lemma c_putc_simps [simp]:
  "mem (c_putc s c) = mem s" "con_in (c_putc s c) = con_in s"
  "con_out (c_putc s c) = con_out s @ [c]"
  by (simp_all add: c_putc_def)

lemma store_at_simps [simp]:
  "mem (store_at s a c) = (mem s)(a := c)" "con_in (store_at s a c) = con_in s"
  "con_out (store_at s a c) = con_out s"
  by (simp_all add: store_at_def)

lemma c_puts_mips_cstr:
  "cstr (mem st) s t \<Longrightarrow> c_puts_mips st s = Some (st\<lparr>con_out := con_out st @ t\<rparr>)"
proof (induction t arbitrary: st s)
  case Nil
  then show ?case by (subst c_puts_mips.simps) simp
next
  case (Cons c t)
  then have "c_puts_mips (c_putc st c) (s + 1) = Some (st\<lparr>con_out := con_out st @ c # t\<rparr>)"
    using Cons.IH [of "c_putc st c" "s + 1"] by (simp add: c_putc_def)
  with Cons.prems show ?case by (subst c_puts_mips.simps) simp
qed

text \<open>What the C1700 sends for a string: every newline after the first character gets a
  carriage return in front.\<close>

fun crlf :: "u8 list \<Rightarrow> u8 list" where
  "crlf [] = []"
| "crlf [c] = [c]"
| "crlf (c # d # cs) = (if d = 10 then c # 13 # crlf (d # cs) else c # crlf (d # cs))"

lemma c_puts_c1700_cstr:
  "cstr (mem st) s t \<Longrightarrow> c_puts_c1700 st s = Some (st\<lparr>con_out := con_out st @ crlf t\<rparr>)"
proof (induction t arbitrary: st s rule: crlf.induct)
  case 1
  then show ?case by (subst c_puts_c1700.simps) simp
next
  case (2 c)
  then show ?case
    by (subst c_puts_c1700.simps, simp add: Let_def, subst c_puts_c1700.simps)
      (simp add: c_putc_def)
next
  case (3 c d cs)
  let ?st = "if d = 10 then c_putc (c_putc st c) 13 else c_putc st c"
  have "c_puts_c1700 ?st (s + 1) = Some (?st\<lparr>con_out := con_out ?st @ crlf (d # cs)\<rparr>)"
    using "3.IH"(1) [of ?st "s + 1"] "3.IH"(2) [of ?st "s + 1"] "3.prems" by (cases "d = 10") auto
  with "3.prems" show ?case
    by (subst c_puts_c1700.simps) (auto simp: Let_def c_putc_def)
qed

text \<open>The output of \<open>c_puts\<close>, per platform.\<close>

fun console_text :: "platform \<Rightarrow> u8 list \<Rightarrow> u8 list" where
  "console_text C1700 t = crlf t"
| "console_text C3600 t = t"
| "console_text C7200 t = t"

lemma c_puts_cstr:
  "cstr (mem st) s t \<Longrightarrow> c_puts p st s = Some (st\<lparr>con_out := con_out st @ console_text p t\<rparr>)"
  by (cases p) (simp_all add: c_puts_c1700_cstr c_puts_mips_cstr c3600_puts_def c7200_puts_def)

text \<open>\<open>prints m sp fmt args out\<close>: the format and arguments produce the text \<open>out\<close>.\<close>

definition prints :: "(addr \<Rightarrow> u8) \<Rightarrow> addr \<Rightarrow> string \<Rightarrow> u32 list \<Rightarrow> u8 list \<Rightarrow> bool" where
  "prints m sp fmt args out \<longleftrightarrow>
     vsprintf m sp fmt args = Some (mem_write m sp (out @ [0]), of_nat (length out))
     \<and> 0 \<notin> set out \<and> length out < 1024"

lemma printf_prints:
  assumes "prints (mem st) sp fmt args out"
  shows "printf p sp st fmt args = Some (st\<lparr>con_out := con_out st @ console_text p out\<rparr>)"
proof -
  let ?m = "mem_write (mem st) sp (out @ [0])"
  have v: "vsprintf (mem st) sp fmt args = Some (?m, of_nat (length out))"
    and nz: "0 \<notin> set out" and len: "length out < 1024"
    using assms by (auto simp: prints_def)
  have str: "cstr ?m sp out" using nz len by (intro cstr_write) auto
  have "?m(sp + of_nat (length out) := 0) = ?m"
    using cstr_end [OF str] by (rule fun_upd_idem)
  moreover have "\<not> (1024 :: u32) \<le> of_nat (length out)"
    using len by (simp add: word_le_nat_alt)
  moreover have "c_puts p (st\<lparr>mem := ?m\<rparr>) sp
      = Some (st\<lparr>mem := ?m, con_out := con_out st @ console_text p out\<rparr>)"
    using c_puts_cstr [of "st\<lparr>mem := ?m\<rparr>" sp out p] str by simp
  ultimately show ?thesis by (simp add: printf_def v)
qed

text \<open>A format is \<open>prints\<close> piece by piece: text, then a conversion, then the rest.\<close>

definition prints_from :: "(addr \<Rightarrow> u8) \<Rightarrow> addr \<Rightarrow> addr \<Rightarrow> string \<Rightarrow> u32 list \<Rightarrow> u8 list \<Rightarrow> bool" where
  "prints_from m buf str fmt args out \<longleftrightarrow>
     vsprintf_loop m buf str fmt args = Some (mem_write m str out, str + of_nat (length out))"

lemma prints_from_Nil: "prints_from m buf str [] args []"
  by (simp add: prints_from_def)

lemma prints_from_text:
  assumes "CHR ''%'' \<notin> set s"
    and "prints_from (mem_write m str (bytes_of s)) buf (str + of_nat (length s)) fmt args out"
  shows "prints_from m buf str (s @ fmt) args (bytes_of s @ out)"
  using assms by (simp add: prints_from_def vsprintf_text mem_write_append add.assoc)

lemma prints_from_d:
  assumes "prints_from (mem_write m str (decimal a)) buf (str + of_nat (length (decimal a))) fmt args out"
  shows "prints_from m buf str (CHR ''%'' # CHR ''d'' # fmt) (a # args) (decimal a @ out)"
  using assms unfolding prints_from_def vsprintf_d by (simp add: mem_write_append add.assoc)

lemma prints_from_u:
  assumes "prints_from (mem_write m str (number_digits a 10 0)) buf
    (str + of_nat (length (number_digits a 10 0))) fmt args out"
  shows "prints_from m buf str (CHR ''%'' # CHR ''u'' # fmt) (a # args) (number_digits a 10 0 @ out)"
  using assms unfolding prints_from_def vsprintf_u by (simp add: mem_write_append add.assoc)

lemma prints_from_s:
  assumes "cstr m s t" and "s \<noteq> 0" and "apart str (length t) s (length t)" and "length t < 2 ^ 32"
    and "prints_from (mem_write m str t) buf (str + of_nat (length t)) fmt args out"
  shows "prints_from m buf str (CHR ''%'' # CHR ''s'' # fmt) (s # args) (t @ out)"
proof -
  have "mem_read m s (length t) = t"
    using assms(1) by (simp add: cstr_mem_read mem_read_snoc)
  then have "memcpy_loop m str s (length t) = mem_write m str t"
    using memcpy_loop_eq [OF assms(3), of "length t" m] assms(4) by simp
  then show ?thesis
    using assms(5) vsprintf_s [OF assms(1,2)]
    by (simp add: prints_from_def mem_write_append add.assoc)
qed

lemma prints_from_hash2x:
  assumes "prints_from (mem_write m str (hex_field 96 a)) buf (str + of_nat (length (hex_field 96 a))) fmt args out"
  shows "prints_from m buf str (CHR ''%'' # CHR ''#'' # CHR ''2'' # CHR ''x'' # fmt) (a # args)
    (hex_field 96 a @ out)"
  using assms unfolding prints_from_def vsprintf_hash2x by (simp add: mem_write_append add.assoc)

lemma prints_from_2x:
  assumes "prints_from (mem_write m str (hex_field 32 a)) buf (str + of_nat (length (hex_field 32 a))) fmt args out"
  shows "prints_from m buf str (CHR ''%'' # CHR ''2'' # CHR ''x'' # fmt) (a # args)
    (hex_field 32 a @ out)"
  using assms unfolding prints_from_def vsprintf_2x by (simp add: mem_write_append add.assoc)

lemma prints_from_016x:
  assumes "prints_from (mem_write m str (hex_address a)) buf (str + of_nat (length (hex_address a))) fmt args out"
  shows "prints_from m buf str (CHR ''%'' # CHR ''0'' # CHR ''1'' # CHR ''6'' # CHR ''x'' # fmt) (a # args)
    (hex_address a @ out)"
  using assms unfolding prints_from_def vsprintf_016x by (simp add: mem_write_append add.assoc)

lemma prints_fromD:
  assumes "prints_from m sp sp fmt args out" and "0 \<notin> set out" and "length out < 1024"
  shows "prints m sp fmt args out"
  using assms by (simp add: prints_def prints_from_def vsprintf_def mem_write_append)

text \<open>Formats without conversions.\<close>

lemma printf_text:
  assumes "CHR ''%'' \<notin> set s" and "0 \<notin> set (bytes_of s)" and "length s < 1024"
  shows "printf p sp st s [] = Some (st\<lparr>con_out := con_out st @ console_text p (bytes_of s)\<rparr>)"
proof -
  have "prints_from (mem st) sp sp (s @ []) [] (bytes_of s @ [])"
    using assms(1) prints_from_Nil by (rule prints_from_text)
  then have "prints (mem st) sp s [] (bytes_of s)"
    using assms(2,3) by (intro prints_fromD) auto
  then show ?thesis by (rule printf_prints)
qed

text \<open>Formats with one number between two texts.\<close>

definition plain_text :: "string \<Rightarrow> bool" where
  "plain_text s \<longleftrightarrow> CHR ''%'' \<notin> set s \<and> 0 \<notin> set (bytes_of s)"

lemma printf_text_d:
  assumes "plain_text s" and "plain_text t" and "length s + length t < 900"
  shows "printf p sp st (s @ CHR ''%'' # CHR ''d'' # t) [a] =
    Some (st\<lparr>con_out := con_out st @ console_text p (bytes_of s @ decimal a @ bytes_of t)\<rparr>)"
proof (rule printf_prints, rule prints_fromD)
  show "prints_from (mem st) sp sp (s @ CHR ''%'' # CHR ''d'' # t) [a]
      (bytes_of s @ decimal a @ bytes_of t)"
    using assms prints_from_text [of t _ _ sp "[]", OF _ prints_from_Nil]
    by (intro prints_from_text prints_from_d) (auto simp: plain_text_def)
  show "0 \<notin> set (bytes_of s @ decimal a @ bytes_of t)"
    using assms decimal_nonzero by (auto simp: plain_text_def)
  show "length (bytes_of s @ decimal a @ bytes_of t) < 1024"
    using assms(3) length_decimal [of a] by simp
qed

lemma printf_text_s:
  assumes a: "cstr (mem st) a t" "a \<noteq> 0" "apart sp 1024 a (Suc (length t))"
    and pre: "plain_text s" and post: "plain_text u" and len: "length s + length t + length u < 1024"
  shows "printf p sp st (s @ CHR ''%'' # CHR ''s'' # u) [a] =
    Some (st\<lparr>con_out := con_out st @ console_text p (bytes_of s @ t @ bytes_of u)\<rparr>)"
proof (rule printf_prints, rule prints_fromD)
  have "apart a (Suc (length t)) sp (length (bytes_of s))"
    using a(3) len apart_sym apart_mono by fastforce
  then have str: "cstr (mem_write (mem st) sp (bytes_of s)) a t"
    using a(1) len by (intro cstr_write_apart) simp_all
  have "apart (sp + of_nat (length s)) (length t) a (Suc (length t))" if "t \<noteq> []"
    using apart_part [OF a(3), of "length s" "length t"] len that by simp
  then have ap: "apart (sp + of_nat (length s)) (length t) a (length t)"
    using apart_mono by (cases "t = []") (fastforce simp: apart_def)+
  show "prints_from (mem st) sp sp (s @ CHR ''%'' # CHR ''s'' # u) [a] (bytes_of s @ t @ bytes_of u)"
    using pre post str a(2) ap len prints_from_text [of u _ _ sp "[]", OF _ prints_from_Nil]
    by (intro prints_from_text prints_from_s) (auto simp: plain_text_def)
  show "0 \<notin> set (bytes_of s @ t @ bytes_of u)"
    using pre post cstr_nonzero [OF a(1)] by (auto simp: plain_text_def)
  show "length (bytes_of s @ t @ bytes_of u) < 1024" using len by simp
qed

lemma printf_mem [frame_simps]: "printf p sp st fmt args = Some st' \<Longrightarrow> mem st' = mem st"
  by (auto simp: printf_def split: option.splits prod.splits if_splits)

section \<open>The line editor\<close>

text \<open>
  The effect of one typed character on the line so far. On the C1700 and C3600 backspace
  and delete remove the last character, and on an empty line have no defined effect
  (\<open>None\<close>: the code steps in front of the buffer). On the C7200 a backspace only undoes
  its own store.
\<close>

definition erases :: "u8 \<Rightarrow> bool" where
  "erases c \<longleftrightarrow> c = 0x8 \<or> c = 0x7f"

definition typed :: "platform \<Rightarrow> u8 list \<Rightarrow> u8 \<Rightarrow> u8 list option" where
  "typed p line c =
     (if p = C7200 then Some (if c = 0x8 then line else line @ [c])
      else if erases c then (if line = [] then None else Some (butlast line))
      else Some (line @ [c]))"

fun typed_line :: "platform \<Rightarrow> u8 list \<Rightarrow> u8 list \<Rightarrow> u8 list option" where
  "typed_line p line [] = Some line"
| "typed_line p line (c # cs) =
     (case typed p line c of None \<Rightarrow> None | Some line' \<Rightarrow> typed_line p line' cs)"

definition ends_line :: "u8 \<Rightarrow> bool" where
  "ends_line c \<longleftrightarrow> c = 10 \<or> c = 13"

lemma mem_read_upd_beyond:
  assumes "n \<le> k" and "k < 2 ^ 32"
  shows "mem_read (m(b + of_nat k := c)) b n = mem_read m b n"
proof (rule mem_read_cong)
  fix i assume "i < n"
  have "(of_nat i :: u32) \<noteq> of_nat k"
  proof
    assume "(of_nat i :: u32) = of_nat k"
    then have "unat (of_nat i :: u32) = unat (of_nat k :: u32)" by simp
    then show False using \<open>i < n\<close> assms by simp
  qed
  then show "(m(b + of_nat k := c)) (b + of_nat i) = m (b + of_nat i)" by simp
qed

text \<open>One ordinary character: the index follows the length of the line.\<close>

lemma typed_back:
  "typed p line c = Some line' \<Longrightarrow> gets_back p c (int (length line) + 1) = int (length line')"
  by (cases line rule: rev_cases) (auto simp: typed_def gets_back_def erases_def split: if_splits)

lemma typed_length: "typed p line c = Some line' \<Longrightarrow> length line' \<le> Suc (length line)"
  by (auto simp: typed_def split: if_splits)

lemma typed_stored:
  assumes "typed p line c = Some line'" and "mem_read m b (length line) = line"
    and "length line < 2 ^ 32"
  shows "mem_read (m(b + of_nat (length line) := c)) b (length line') = line'"
proof -
  have same: "mem_read (m(b + of_nat (length line) := c)) b (length line) = line"
    using assms(2,3) by (simp add: mem_read_upd_beyond)
  have app: "mem_read (m(b + of_nat (length line) := c)) b (Suc (length line)) = line @ [c]"
    using same by (simp add: mem_read_snoc)
  have del: "mem_read (m(b + of_nat (length line) := c)) b (length line - 1) = butlast line"
    using same take_mem_read [of "length line - 1" "length line"]
    by (metis butlast_conv_take diff_le_self length_butlast)
  show ?thesis using assms(1) same app del
    by (auto simp: typed_def split: if_splits)
qed

lemma c_gets_loop_line:
  assumes "ends_line e" and "N \<le> 2 ^ 31"
  shows "typed_line p line cs = Some res \<Longrightarrow> list_all (\<lambda>c. \<not> ends_line c) cs \<Longrightarrow>
     length line + length cs < N \<Longrightarrow> mem_read (mem st) b (length line) = line \<Longrightarrow>
     con_in st = cs @ e # rest \<Longrightarrow>
     \<exists>st'. c_gets_loop p st b (int N) (int (length line)) = Some (int (length res) + 1, st') \<and>
       mem_read (mem st') b (length res) = res \<and> mem st' (b + of_nat (length res)) = 0 \<and>
       con_in st' = rest \<and> con_out st' = con_out st @ cs @ [e] \<and>
       (\<forall>x. \<not> in_range b N x \<longrightarrow> mem st' x = mem st x)"
proof (induction cs arbitrary: line st)
  case Nil
  then have res: "res = line" and len: "length line < N" by auto
  have "in_range b N (b + of_nat (length line))"
    using len assms(2) by (intro in_range_offset) auto
  moreover have "mem_read ((mem st)(b + of_nat (length line) := e, b + of_nat (length line) := 0))
      b (length line) = line"
    using Nil.prems(4) len assms(2) by (simp add: mem_read_upd_beyond)
  ultimately show ?case
    using Nil.prems(5) assms(1) res
    by (subst c_gets_loop.simps) (auto simp: c_getc_def ends_line_def Let_def)
next
  case (Cons c cs)
  obtain line' where t: "typed p line c = Some line'" and tl: "typed_line p line' cs = Some res"
    using Cons.prems(1) by (auto split: option.splits)
  define st2 where "st2 = c_putc (store_at (st\<lparr>con_in := cs @ e # rest\<rparr>) (b + of_nat (length line)) c) c"
  have len: "length line < N" using Cons.prems(3) by simp
  have lt': "length line' + length cs < N" using typed_length [OF t] Cons.prems(3) by simp
  have "c_gets_loop p st b (int N) (int (length line)) =
      c_gets_loop p st2 b (int N) (int (length line'))"
    using Cons.prems(2,5) typed_back [OF t] lt'
    by (subst c_gets_loop.simps) (simp add: c_getc_def ends_line_def Let_def st2_def)
  moreover have "mem_read (mem st2) b (length line') = line'"
    using typed_stored [OF t Cons.prems(4)] len assms(2) by (simp add: st2_def)
  then obtain st' where "c_gets_loop p st2 b (int N) (int (length line')) = Some (int (length res) + 1, st')"
    and r: "mem_read (mem st') b (length res) = res" "mem st' (b + of_nat (length res)) = 0"
      "con_in st' = rest" "con_out st' = con_out st2 @ cs @ [e]"
    and fr: "\<forall>x. \<not> in_range b N x \<longrightarrow> mem st' x = mem st2 x"
    using Cons.IH [OF tl, of st2] Cons.prems(2) lt' by (auto simp: st2_def fun_upd_def)
  moreover have "mem st2 x = mem st x" if "\<not> in_range b N x" for x
  proof -
    have "in_range b N (b + of_nat (length line))"
      using len assms(2) by (intro in_range_offset) auto
    then show ?thesis using that by (auto simp: st2_def)
  qed
  ultimately show ?case by (auto simp: st2_def)
qed

section \<open>Properties\<close>

text \<open>\<open>c_puts\<close> sends a string to the console unchanged on the C3600 and C7200; on the C1700 it
  puts a carriage return in front of every newline but a leading one.\<close>

theorem c_puts_sends:
  assumes "cstr (mem st) s t"
  shows "c_puts p st s = Some (st\<lparr>con_out := con_out st @ console_text p t\<rparr>)"
  using assms by (rule c_puts_cstr)

lemma c_puts_sends_witness:
  "c_puts C1700 \<lparr>mem = mem_write (\<lambda>_. 0) 0x100 [10, 65, 10], con_in = [], con_out = []\<rparr> 0x100 =
     Some \<lparr>mem = mem_write (\<lambda>_. 0) 0x100 [10, 65, 10], con_in = [], con_out = [10, 65, 13, 10]\<rparr>"
  using c_puts_sends [where p = C1700 and s = "0x100" and t = "[10, 65, 10]"
      and st = "\<lparr>mem = mem_write (\<lambda>_. 0) 0x100 [10, 65, 10], con_in = [], con_out = []\<rparr>"]
  by simp

text \<open>C40: \<open>c_gets\<close> with a typed line that never backspaces past its start: the buffer holds the
  edited line and a NUL, everything typed is echoed, the rest of the input is left, and
  nothing outside the buffer changes.\<close>

theorem c_gets_edits_line:
  assumes "ends_line e" and "list_all (\<lambda>c. \<not> ends_line c) cs" and "typed_line p [] cs = Some line"
    and "length cs < N" and "N \<le> 2 ^ 31" and "con_in st = cs @ e # rest"
  shows "\<exists>st'. c_gets p st b (int N) = Some (int (length line) + 1, st') \<and>
    mem_read (mem st') b (Suc (length line)) = line @ [0] \<and> con_in st' = rest \<and>
    con_out st' = con_out st @ cs @ [e] \<and> (\<forall>x. \<not> in_range b N x \<longrightarrow> mem st' x = mem st x)"
  using c_gets_loop_line [OF assms(1,5,3,2) _ _ assms(6), of b] assms(4)
  by (fastforce simp: c_gets_def mem_read_snoc)

lemma c_gets_edits_line_witness:
  "\<exists>st'. c_gets C3600 \<lparr>mem = (\<lambda>_. 7), con_in = [97, 98, 8, 99, 13, 120], con_out = []\<rparr> 0x100 128 = Some (3, st') \<and>
     mem_read (mem st') 0x100 3 = [97, 99, 0] \<and> con_in st' = [120]"
proof -
  have "typed_line C3600 [] [97, 98, 8, 99] = Some [97, 99]"
    by (simp add: typed_def erases_def)
  then show ?thesis
    using c_gets_edits_line [where e = 13 and cs = "[97, 98, 8, 99]" and p = C3600 and line = "[97, 99]"
        and N = 128 and rest = "[120]" and b = "0x100"
        and st = "\<lparr>mem = (\<lambda>_. 7), con_in = [97, 98, 8, 99, 13, 120], con_out = []\<rparr>"]
    by (auto simp: ends_line_def numeral_3_eq_3)
qed

end
