(* ===== verification/Lzma.thy ===== *)
theory Lzma
  imports Promlib
begin

text \<open>
  The LZMA decoder \<^verbatim>\<open>LzmaDecode.c\<close> in the configuration of \<^verbatim>\<open>LzmaDecode.h\<close>: input through a
  callback (\<^verbatim>\<open>_LZMA_IN_CB\<close>), output straight into memory (no \<^verbatim>\<open>_LZMA_OUT_READ\<close>), 16-bit
  probabilities. The decoder's locals and the probability table form one record; the
  input buffer and the output are in the machine's memory. The callback is an argument, as
  in the C interface. A \<open>return\<close> from inside a macro is \<open>Inl\<close>; besides, an access outside
  the probability table or to output not yet written is the value \<open>OutOfBounds\<close>, and
  \<open>NoReturn\<close> stands for a callback that does not come back.
\<close>

section \<open>Constants\<close>

definition LZMA_RESULT_OK :: int where "LZMA_RESULT_OK = 0"
definition LZMA_RESULT_DATA_ERROR :: int where "LZMA_RESULT_DATA_ERROR = 1"
definition LZMA_PROPERTIES_SIZE :: int where "LZMA_PROPERTIES_SIZE = 5"
definition LZMA_BASE_SIZE :: nat where "LZMA_BASE_SIZE = 1846"
definition LZMA_LIT_SIZE :: nat where "LZMA_LIT_SIZE = 768"

definition kTopValue :: u32 where "kTopValue = push_bit 24 1"
definition kNumBitModelTotalBits :: nat where "kNumBitModelTotalBits = 11"
definition kBitModelTotal :: int where "kBitModelTotal = 2048"
definition kNumMoveBits :: nat where "kNumMoveBits = 5"

definition LenChoice :: nat where "LenChoice = 0"
definition LenChoice2 :: nat where "LenChoice2 = LenChoice + 1"
definition LenLow :: nat where "LenLow = LenChoice2 + 1"
definition LenMid :: nat where "LenMid = LenLow + 16 * 8"
definition LenHigh :: nat where "LenHigh = LenMid + 16 * 8"
definition kNumLenProbs :: nat where "kNumLenProbs = LenHigh + 256"

definition kNumStates :: nat where "kNumStates = 12"
definition kNumLitStates :: nat where "kNumLitStates = 7"

definition IsMatch :: nat where "IsMatch = 0"
definition IsRep :: nat where "IsRep = IsMatch + kNumStates * 16"
definition IsRepG0 :: nat where "IsRepG0 = IsRep + kNumStates"
definition IsRepG1 :: nat where "IsRepG1 = IsRepG0 + kNumStates"
definition IsRepG2 :: nat where "IsRepG2 = IsRepG1 + kNumStates"
definition IsRep0Long :: nat where "IsRep0Long = IsRepG2 + kNumStates"
definition PosSlot :: nat where "PosSlot = IsRep0Long + kNumStates * 16"
definition SpecPos :: nat where "SpecPos = PosSlot + 4 * 64"
definition Align :: nat where "Align = SpecPos + 128 - 14"
definition LenCoder :: nat where "LenCoder = Align + 16"
definition RepLenCoder :: nat where "RepLenCoder = LenCoder + kNumLenProbs"
definition Literal :: nat where "Literal = RepLenCoder + kNumLenProbs"

lemmas layout_consts = LenChoice_def LenChoice2_def LenLow_def LenMid_def LenHigh_def kNumLenProbs_def
  kNumStates_def kNumLitStates_def IsMatch_def IsRep_def IsRepG0_def IsRepG1_def IsRepG2_def
  IsRep0Long_def PosSlot_def SpecPos_def Align_def LenCoder_def RepLenCoder_def Literal_def

text \<open>The check \<^verbatim>\<open>#if Literal != LZMA_BASE_SIZE\<close> that stops the compilation.\<close>

lemma Literal_base: "Literal = LZMA_BASE_SIZE"
  by (simp add: layout_consts LZMA_BASE_SIZE_def)

section \<open>Properties\<close>

record lzma_props =
  lc :: nat
  lp :: nat
  pb :: nat

text \<open>The two counting loops of \<^verbatim>\<open>LzmaDecodeProperties\<close>, for \<open>k = 45\<close> and \<open>k = 9\<close>: take off \<open>k\<close> as
  long as it goes. (For a \<open>k\<close> that is 0 in a byte there would be no end.)\<close>

function take_off :: "nat \<Rightarrow> u8 \<Rightarrow> nat \<Rightarrow> nat \<times> u8" where
  "take_off k prop0 n =
     (if 0 < k \<and> k < 256 \<and> of_nat k \<le> prop0 then take_off k (prop0 - of_nat k) (n + 1) else (n, prop0))"
  by pat_completeness auto
termination
proof (relation "measure (\<lambda>(k, x, n). unat x)")
  fix k :: nat and x :: u8 and n :: nat
  assume a: "0 < k \<and> k < 256 \<and> of_nat k \<le> x"
  then have "unat (of_nat k :: u8) = k" by simp
  moreover have "unat (x - of_nat k) = unat x - unat (of_nat k :: u8)" using a by (simp add: unat_sub)
  moreover have "k \<le> unat x" using a calculation(1) by (simp add: word_le_nat_alt)
  ultimately show "((k, x - of_nat k, n + 1), (k, x, n)) \<in> measure (\<lambda>(k, x, n). unat x)"
    using a by simp
qed simp

declare take_off.simps [simp del]

definition LzmaDecodeProperties :: "u8 list \<Rightarrow> int \<Rightarrow> lzma_props \<Rightarrow> int \<times> lzma_props" where
  "LzmaDecodeProperties propsData sz propsRes =
     (if sz < LZMA_PROPERTIES_SIZE then (LZMA_RESULT_DATA_ERROR, propsRes)
      else if propsData ! 0 \<ge> 9 * 5 * 5 then (LZMA_RESULT_DATA_ERROR, propsRes)
      else
        let (n_pb, prop1) = take_off (9 * 5) (propsData ! 0) 0;
            (n_lp, prop2) = take_off 9 prop1 0
        in (LZMA_RESULT_OK, \<lparr>lc = unat prop2, lp = n_lp, pb = n_pb\<rparr>))"

definition LzmaGetNumProbs :: "lzma_props \<Rightarrow> nat" where
  "LzmaGetNumProbs pr = LZMA_BASE_SIZE + LZMA_LIT_SIZE * 2 ^ (lc pr + lp pr)"

section \<open>The state of the decoder\<close>

datatype stop = Result int | OutOfBounds | NoReturn

record 'p lzma =
  mach :: machine
  pvt :: 'p
  probs :: "u16 list"
  buffer :: addr
  buffer_lim :: addr
  rc_range :: u32
  rc_code :: u32
  now_pos :: u32
  prev_byte :: u8
  lz_state :: nat
  rep0 :: u32
  rep1 :: u32
  rep2 :: u32
  rep3 :: u32

text \<open>The constant arguments of one call: the properties and the output region.\<close>

record job =
  props :: lzma_props
  out_stream :: addr
  out_size :: u32

type_synonym 'p callback = "machine \<Rightarrow> 'p \<Rightarrow> (int \<times> addr \<times> u32 \<times> machine \<times> 'p) option"
type_synonym ('p, 'a) run = "(stop \<times> machine \<times> 'p) + 'a"

definition fail :: "stop \<Rightarrow> 'p lzma \<Rightarrow> ('p, 'a) run" where
  "fail e d = Inl (e, mach d, pvt d)"

section \<open>The range decoder\<close>

definition rc_test :: "'p callback \<Rightarrow> 'p lzma \<Rightarrow> ('p, 'p lzma) run" where
  "rc_test cb d =
     (if buffer d = buffer_lim d then
        (case cb (mach d) (pvt d) of
           None \<Rightarrow> fail NoReturn d
         | Some (result, buf, n, m, p) \<Rightarrow>
             let d1 = d\<lparr>mach := m, pvt := p\<rparr> in
             if result \<noteq> LZMA_RESULT_OK then fail (Result result) d1
             else let d2 = d1\<lparr>buffer := buf, buffer_lim := buf + n\<rparr>
                  in if n = 0 then fail (Result LZMA_RESULT_DATA_ERROR) d2 else Inr d2)
      else Inr d)"

definition rc_read_byte :: "'p lzma \<Rightarrow> u8 \<times> 'p lzma" where
  "rc_read_byte d = (mem (mach d) (buffer d), d\<lparr>buffer := buffer d + 1\<rparr>)"

definition rc_shift_in :: "'p callback \<Rightarrow> 'p lzma \<Rightarrow> ('p, 'p lzma) run" where
  "rc_shift_in cb d =
     bindE (rc_test cb d) (\<lambda>d1. case rc_read_byte d1 of
       (c, d2) \<Rightarrow> Inr (d2\<lparr>rc_code := push_bit 8 (rc_code d2) OR ucast c\<rparr>))"

text \<open>\<^verbatim>\<open>RC_INIT\<close>: five bytes of \<open>Code\<close>.\<close>

primrec rc_init_loop :: "'p callback \<Rightarrow> nat \<Rightarrow> 'p lzma \<Rightarrow> ('p, 'p lzma) run" where
  "rc_init_loop cb 0 d = Inr d"
| "rc_init_loop cb (Suc n) d = bindE (rc_shift_in cb d) (rc_init_loop cb n)"

definition rc_init :: "'p callback \<Rightarrow> 'p lzma \<Rightarrow> ('p, 'p lzma) run" where
  "rc_init cb d =
     rc_init_loop cb 5 (d\<lparr>buffer := 0, buffer_lim := 0, rc_code := 0, rc_range := 0xFFFFFFFF\<rparr>)"

text \<open>\<^verbatim>\<open>RC_NORMALIZE\<close>: the range is shifted between the test for input and the read.\<close>

definition rc_normalize :: "'p callback \<Rightarrow> 'p lzma \<Rightarrow> ('p, 'p lzma) run" where
  "rc_normalize cb d =
     (if rc_range d < kTopValue then
        bindE (rc_shift_in cb d) (\<lambda>d1. Inr (d1\<lparr>rc_range := push_bit 8 (rc_range d1)\<rparr>))
      else Inr d)"

text \<open>\<^verbatim>\<open>IfBit0\<close>, \<^verbatim>\<open>UpdateBit0\<close>, \<^verbatim>\<open>UpdateBit1\<close>: one bit under the probability at index \<open>i\<close>. The
  new probability is computed in \<open>int\<close> and stored in 16 bits.\<close>

definition prob_up :: "u16 \<Rightarrow> u16" where
  "prob_up p = p + of_int (drop_bit kNumMoveBits (kBitModelTotal - uint p))"

definition prob_down :: "u16 \<Rightarrow> u16" where
  "prob_down p = p - drop_bit kNumMoveBits p"

definition decode_bit :: "'p callback \<Rightarrow> nat \<Rightarrow> 'p lzma \<Rightarrow> ('p, bool \<times> 'p lzma) run" where
  "decode_bit cb i d =
     bindE (rc_normalize cb d) (\<lambda>d.
       if i \<ge> length (probs d) then fail OutOfBounds d
       else
         let p = probs d ! i;
             bound = drop_bit kNumBitModelTotalBits (rc_range d) * ucast p
         in if rc_code d < bound then
              Inr (False, d\<lparr>rc_range := bound, probs := (probs d)[i := prob_up p]\<rparr>)
            else
              Inr (True, d\<lparr>rc_range := rc_range d - bound, rc_code := rc_code d - bound,
                           probs := (probs d)[i := prob_down p]\<rparr>))"

text \<open>\<^verbatim>\<open>RangeDecoderBitTreeDecode\<close>: \<open>n\<close> bits, the first one the most significant.\<close>

primrec bit_tree_loop :: "'p callback \<Rightarrow> nat \<Rightarrow> nat \<Rightarrow> nat \<Rightarrow> 'p lzma \<Rightarrow> ('p, nat \<times> 'p lzma) run" where
  "bit_tree_loop cb base 0 res d = Inr (res, d)"
| "bit_tree_loop cb base (Suc n) res d =
     bindE (decode_bit cb (base + res) d) (\<lambda>(b, d). bit_tree_loop cb base n (2 * res + of_bool b) d)"

definition bit_tree :: "'p callback \<Rightarrow> nat \<Rightarrow> nat \<Rightarrow> 'p lzma \<Rightarrow> ('p, nat \<times> 'p lzma) run" where
  "bit_tree cb base n d = bindE (bit_tree_loop cb base n 1 d) (\<lambda>(res, d). Inr (res - 2 ^ n, d))"

section \<open>Literals\<close>

text \<open>The byte \<open>rep0\<close> positions back in the output.\<close>

definition out_byte :: "job \<Rightarrow> 'p lzma \<Rightarrow> ('p, u8) run" where
  "out_byte J d =
     (let i = now_pos d - rep0 d
      in if i < now_pos d then Inr (mem (mach d) (out_stream J + i)) else fail OutOfBounds d)"

definition put_byte :: "job \<Rightarrow> u8 \<Rightarrow> 'p lzma \<Rightarrow> 'p lzma" where
  "put_byte J c d =
     d\<lparr>mach := store_at (mach d) (out_stream J + now_pos d) c, now_pos := now_pos d + 1, prev_byte := c\<rparr>"

text \<open>\<open>symbol\<close> starts at 1 and doubles in every round until it has its ninth bit: \<open>n\<close> bounds the
  rounds that are left, eight from the start.\<close>

primrec lit_loop :: "'p callback \<Rightarrow> nat \<Rightarrow> nat \<Rightarrow> nat \<Rightarrow> 'p lzma \<Rightarrow> ('p, nat \<times> 'p lzma) run" where
  "lit_loop cb base 0 symbol d = Inr (symbol, d)"
| "lit_loop cb base (Suc n) symbol d =
     (if symbol < 0x100 then
        bindE (decode_bit cb (base + symbol) d)
          (\<lambda>(b, d). lit_loop cb base n (2 * symbol + of_bool b) d)
      else Inr (symbol, d))"

text \<open>After a match the bits of the byte at distance \<open>rep0\<close> select the probabilities, up to
  the first bit that differs.\<close>

primrec matched_loop ::
    "'p callback \<Rightarrow> nat \<Rightarrow> nat \<Rightarrow> nat \<Rightarrow> nat \<Rightarrow> 'p lzma \<Rightarrow> ('p, nat \<times> 'p lzma) run" where
  "matched_loop cb base 0 match_byte symbol d = Inr (symbol, d)"
| "matched_loop cb base (Suc n) match_byte symbol d =
     (let match_byte = 2 * match_byte;
          bit = match_byte AND 0x100
      in bindE (decode_bit cb (base + 0x100 + bit + symbol) d) (\<lambda>(b, d).
           let symbol = 2 * symbol + of_bool b
           in if (\<not> b \<and> bit \<noteq> 0) \<or> (b \<and> bit = 0) then Inr (symbol, d)
              else if symbol < 0x100 then matched_loop cb base n match_byte symbol d
              else Inr (symbol, d)))"

definition lit_base :: "job \<Rightarrow> 'p lzma \<Rightarrow> nat" where
  "lit_base J d =
     (let literalPosMask = push_bit (lp (props J)) 1 - 1
      in Literal + LZMA_LIT_SIZE *
           (unat (now_pos d AND literalPosMask) * 2 ^ lc (props J)
            + unat (prev_byte d) div 2 ^ (8 - lc (props J))))"

definition decode_literal :: "'p callback \<Rightarrow> job \<Rightarrow> 'p lzma \<Rightarrow> ('p, 'p lzma) run" where
  "decode_literal cb J d =
     (let base = lit_base J d in
      bindE
        (if lz_state d \<ge> kNumLitStates then
           bindE (out_byte J d) (\<lambda>mb. matched_loop cb base 8 (unat mb) 1 d)
         else Inr (1, d))
        (\<lambda>(symbol, d). bindE (lit_loop cb base 8 symbol d) (\<lambda>(symbol, d).
           let d = put_byte J (of_nat symbol) d;
               s = lz_state d
           in Inr (d\<lparr>lz_state := if s < 4 then 0 else if s < 10 then s - 3 else s - 6\<rparr>))))"

section \<open>Matches\<close>

text \<open>What is decoded after the match bit: a one-byte repeat, done at once, or a match whose
  length is to be read with the coder at the given index.\<close>

datatype 'p match_kind = ShortRep "'p lzma" | WithLength nat "'p lzma"

definition state_after :: "nat \<Rightarrow> nat \<Rightarrow> nat \<Rightarrow> nat" where
  "state_after lit mat s = (if s < kNumLitStates then lit else mat)"

definition short_rep :: "job \<Rightarrow> 'p lzma \<Rightarrow> ('p, 'p match_kind) run" where
  "short_rep J d =
     (if now_pos d = 0 then fail (Result LZMA_RESULT_DATA_ERROR) d
      else let d = d\<lparr>lz_state := state_after 9 11 (lz_state d)\<rparr>
           in bindE (out_byte J d) (\<lambda>c. Inr (ShortRep (put_byte J c d))))"

definition rep_match :: "'p lzma \<Rightarrow> 'p match_kind" where
  "rep_match d = WithLength RepLenCoder (d\<lparr>lz_state := state_after 8 11 (lz_state d)\<rparr>)"

text \<open>\<open>distance\<close> moves to the front of the four recent distances.\<close>

definition decode_old_distance :: "'p callback \<Rightarrow> 'p lzma \<Rightarrow> ('p, 'p lzma) run" where
  "decode_old_distance cb d =
     bindE (decode_bit cb (IsRepG1 + lz_state d) d) (\<lambda>(b1, d).
       if \<not> b1 then Inr (d\<lparr>rep0 := rep1 d, rep1 := rep0 d\<rparr>)
       else bindE (decode_bit cb (IsRepG2 + lz_state d) d) (\<lambda>(b2, d).
         if \<not> b2 then Inr (d\<lparr>rep0 := rep2 d, rep1 := rep0 d, rep2 := rep1 d\<rparr>)
         else Inr (d\<lparr>rep0 := rep3 d, rep1 := rep0 d, rep2 := rep1 d, rep3 := rep2 d\<rparr>)))"

definition decode_match_kind :: "'p callback \<Rightarrow> job \<Rightarrow> nat \<Rightarrow> 'p lzma \<Rightarrow> ('p, 'p match_kind) run" where
  "decode_match_kind cb J posState d =
     bindE (decode_bit cb (IsRep + lz_state d) d) (\<lambda>(b, d).
       if \<not> b then
         Inr (WithLength LenCoder
           (d\<lparr>rep3 := rep2 d, rep2 := rep1 d, rep1 := rep0 d, lz_state := state_after 0 3 (lz_state d)\<rparr>))
       else bindE (decode_bit cb (IsRepG0 + lz_state d) d) (\<lambda>(b, d).
         if \<not> b then
           bindE (decode_bit cb (IsRep0Long + lz_state d * 16 + posState) d) (\<lambda>(b, d).
             if \<not> b then short_rep J d else Inr (rep_match d))
         else bindE (decode_old_distance cb d) (\<lambda>d. Inr (rep_match d))))"

definition decode_len :: "'p callback \<Rightarrow> nat \<Rightarrow> nat \<Rightarrow> 'p lzma \<Rightarrow> ('p, nat \<times> 'p lzma) run" where
  "decode_len cb base posState d =
     bindE (decode_bit cb (base + LenChoice) d) (\<lambda>(b, d).
       if \<not> b then bit_tree cb (base + LenLow + posState * 8) 3 d
       else bindE (decode_bit cb (base + LenChoice2) d) (\<lambda>(b, d).
         if \<not> b then
           bindE (bit_tree cb (base + LenMid + posState * 8) 3 d) (\<lambda>(n, d). Inr (n + 8, d))
         else
           bindE (bit_tree cb (base + LenHigh) 8 d) (\<lambda>(n, d). Inr (n + 16, d))))"

text \<open>Bits without a probability, the most significant first.\<close>

primrec direct_bits :: "'p callback \<Rightarrow> nat \<Rightarrow> u32 \<Rightarrow> 'p lzma \<Rightarrow> ('p, u32 \<times> 'p lzma) run" where
  "direct_bits cb 0 r d = Inr (r, d)"
| "direct_bits cb (Suc n) r d =
     bindE (rc_normalize cb d) (\<lambda>d.
       let half = drop_bit 1 (rc_range d); r = push_bit 1 r
       in if rc_code d \<ge> half
          then direct_bits cb n (r OR 1) (d\<lparr>rc_range := half, rc_code := rc_code d - half\<rparr>)
          else direct_bits cb n r (d\<lparr>rc_range := half\<rparr>))"

text \<open>A bit tree read with the least significant bit first, ored into \<open>r\<close>.\<close>

primrec reverse_tree ::
    "'p callback \<Rightarrow> nat \<Rightarrow> nat \<Rightarrow> nat \<Rightarrow> u32 \<Rightarrow> u32 \<Rightarrow> 'p lzma \<Rightarrow> ('p, u32 \<times> 'p lzma) run" where
  "reverse_tree cb base 0 mi i r d = Inr (r, d)"
| "reverse_tree cb base (Suc n) mi i r d =
     bindE (decode_bit cb (base + mi) d) (\<lambda>(b, d).
       reverse_tree cb base n (2 * mi + of_bool b) (push_bit 1 i) (if b then r OR i else r) d)"

text \<open>The distance of a new match, still without the final increment.\<close>

definition distance_bits :: "'p callback \<Rightarrow> nat \<Rightarrow> 'p lzma \<Rightarrow> ('p, u32 \<times> 'p lzma) run" where
  "distance_bits cb posSlot d =
     (if posSlot \<ge> 4 then
        let numDirectBits = posSlot div 2 - 1;
            r = 2 OR (of_nat posSlot AND 1) :: u32
        in if posSlot < 14 then
             let r = push_bit numDirectBits r
             in reverse_tree cb (SpecPos + unat r - posSlot - 1) numDirectBits 1 1 r d
           else
             bindE (direct_bits cb (numDirectBits - 4) r d) (\<lambda>(r, d).
               reverse_tree cb Align 4 1 1 (push_bit 4 r) d)
      else Inr (of_nat posSlot, d))"

definition decode_distance :: "'p callback \<Rightarrow> nat \<Rightarrow> 'p lzma \<Rightarrow> ('p, u32 \<times> 'p lzma) run" where
  "decode_distance cb len d =
     bindE (bit_tree cb (PosSlot + (if len < 4 then len else 3) * 64) 6 d)
       (\<lambda>(posSlot, d). distance_bits cb posSlot d)"

text \<open>The copy of \<open>len\<close> bytes from \<open>rep0\<close> back; it stops at the end of the output.\<close>

fun copy_match :: "job \<Rightarrow> nat \<Rightarrow> 'p lzma \<Rightarrow> ('p, 'p lzma) run" where
  "copy_match J len d =
     bindE (out_byte J d) (\<lambda>c.
       let d1 = put_byte J c d
       in if len - 1 \<noteq> 0 \<and> now_pos d1 < out_size J then copy_match J (len - 1) d1 else Inr d1)"

declare copy_match.simps [simp del]

text \<open>One round of the main loop; \<open>Stop\<close> is the \<open>break\<close> at the end-of-stream mark.\<close>

datatype 'p round = Next "'p lzma" | Stop "'p lzma"

definition decode_match :: "'p callback \<Rightarrow> job \<Rightarrow> nat \<Rightarrow> nat \<Rightarrow> 'p lzma \<Rightarrow> ('p, 'p round) run" where
  "decode_match cb J base posState d =
     bindE (decode_len cb base posState d) (\<lambda>(len, d).
       bindE
         (if lz_state d < 4 then
            bindE (decode_distance cb len (d\<lparr>lz_state := lz_state d + kNumLitStates\<rparr>))
              (\<lambda>(r, d). Inr (d\<lparr>rep0 := r + 1\<rparr>, r + 1 = 0))
          else Inr (d, False))
         (\<lambda>(d, finished).
            if finished then Inr (Stop d)
            else if rep0 d > now_pos d then fail (Result LZMA_RESULT_DATA_ERROR) d
            else bindE (copy_match J (len + 2) d) (\<lambda>d. Inr (Next d))))"

definition decode_round :: "'p callback \<Rightarrow> job \<Rightarrow> 'p lzma \<Rightarrow> ('p, 'p round) run" where
  "decode_round cb J d =
     (let posState = unat (now_pos d AND (push_bit (pb (props J)) 1 - 1)) in
      bindE (decode_bit cb (IsMatch + lz_state d * 16 + posState) d) (\<lambda>(b, d).
        if \<not> b then bindE (decode_literal cb J d) (\<lambda>d. Inr (Next d))
        else bindE (decode_match_kind cb J posState d) (\<lambda>k. case k of
               ShortRep d \<Rightarrow> Inr (Next d)
             | WithLength base d \<Rightarrow> decode_match cb J base posState d)))"

section \<open>The decoder\<close>

text \<open>
  The main loop. Every round but the last stores at least one byte, so \<open>out_size\<close> rounds are
  enough; \<open>n\<close> counts them down, and running out of them would show as \<open>NoReturn\<close>.
\<close>

primrec decode_loop :: "'p callback \<Rightarrow> job \<Rightarrow> nat \<Rightarrow> 'p lzma \<Rightarrow> ('p, 'p lzma) run" where
  "decode_loop cb J 0 d = (if now_pos d < out_size J then fail NoReturn d else Inr d)"
| "decode_loop cb J (Suc n) d =
     (if now_pos d < out_size J then
        bindE (decode_round cb J d) (\<lambda>r. case r of Stop d \<Rightarrow> Inr d | Next d \<Rightarrow> decode_loop cb J n d)
      else Inr d)"

text \<open>\<open>vs->Probs\<close> holds \<open>LzmaGetNumProbs\<close> entries, all set to one half at the start.\<close>

definition lzma_start :: "job \<Rightarrow> machine \<Rightarrow> 'p \<Rightarrow> 'p lzma" where
  "lzma_start J m p =
     \<lparr>mach = m, pvt = p,
      probs = replicate (Literal + LZMA_LIT_SIZE * 2 ^ (lc (props J) + lp (props J)))
                (of_int (drop_bit 1 kBitModelTotal)),
      buffer = 0, buffer_lim = 0, rc_range = 0, rc_code = 0, now_pos = 0, prev_byte = 0,
      lz_state = 0, rep0 = 1, rep1 = 1, rep2 = 1, rep3 = 1\<rparr>"

text \<open>The call: the C result, \<open>*outSizeProcessed\<close>, and the state left behind.\<close>

definition LzmaDecode ::
    "'p callback \<Rightarrow> job \<Rightarrow> machine \<Rightarrow> 'p \<Rightarrow> (stop \<times> u32 \<times> machine \<times> 'p)" where
  "LzmaDecode cb J m p =
     (case bindE (rc_init cb (lzma_start J m p)) (\<lambda>d.
             bindE (decode_loop cb J (unat (out_size J)) d) (rc_normalize cb)) of
        Inl (e, m, p) \<Rightarrow> (e, 0, m, p)
      | Inr d \<Rightarrow> (Result LZMA_RESULT_OK, now_pos d, mach d, pvt d))"

section \<open>Running safely\<close>

text \<open>\<open>ok E P r\<close>: a run that stops early satisfies \<open>E\<close>, one that gets through satisfies \<open>P\<close>.\<close>

definition ok :: "(stop \<Rightarrow> machine \<Rightarrow> 'p \<Rightarrow> bool) \<Rightarrow> ('a \<Rightarrow> bool) \<Rightarrow> ('p, 'a) run \<Rightarrow> bool" where
  "ok E P r \<longleftrightarrow> (case r of Inl (e, m, p) \<Rightarrow> E e m p | Inr x \<Rightarrow> P x)"

lemma ok_bind: "ok E Q r \<Longrightarrow> (\<And>x. Q x \<Longrightarrow> ok E P (f x)) \<Longrightarrow> ok E P (bindE r f)"
  by (cases r) (auto simp: ok_def)

lemma ok_Inr [simp]: "ok E P (Inr x) \<longleftrightarrow> P x"
  by (simp add: ok_def)

lemma ok_fail [simp]: "ok E P (fail e d) \<longleftrightarrow> E e (mach d) (pvt d)"
  by (simp add: ok_def fail_def)

lemma ok_weaken: "ok E P r \<Longrightarrow> (\<And>x. P x \<Longrightarrow> Q x) \<Longrightarrow> ok E Q r"
  by (auto simp: ok_def split: sum.splits prod.splits)

text \<open>Sequencing after a step that yields a value and a state.\<close>

lemma ok_bind2:
  "ok E (\<lambda>(x, d). Q x d) r \<Longrightarrow> (\<And>x d. Q x d \<Longrightarrow> ok E P (f x d)) \<Longrightarrow>
     ok E P (bindE r (\<lambda>(x, d). f x d))"
  by (cases r) (auto simp: ok_def)

text \<open>Probabilities stay between 31 and 2017 of 2048: no bit ever becomes certain.\<close>

definition prob_ok :: "u16 \<Rightarrow> bool" where
  "prob_ok p \<longleftrightarrow> 31 \<le> p \<and> p \<le> 2017"

lemma sub_thirtysecond:
  fixes y :: int
  assumes "31 \<le> y"
  shows "31 \<le> y - y div 32"
proof (cases "y < 32")
  case True
  then have "y div 32 = 0" using assms by simp
  then show ?thesis using assms by simp
next
  case False
  then have "1 \<le> y div 32" by simp
  moreover have "y = 32 * (y div 32) + y mod 32" "0 \<le> y mod 32" by simp_all
  ultimately show ?thesis by linarith
qed

lemma prob_up_ok:
  assumes "prob_ok p"
  shows "prob_ok (prob_up p)"
proof -
  have p: "31 \<le> uint p" "uint p \<le> 2017"
    using assms by (auto simp: prob_ok_def word_le_def)
  define k where "k = (2048 - uint p) div 32"
  have "0 \<le> k" using p by (simp add: k_def)
  moreover have "uint p + k \<le> 2017"
    using sub_thirtysecond [of "2048 - uint p"] p by (simp add: k_def)
  ultimately have k: "0 \<le> k" "uint p + k \<le> 2017" .
  have "uint (prob_up p) = (uint p + k) mod 2 ^ 16"
    by (simp add: prob_up_def k_def kNumMoveBits_def kBitModelTotal_def drop_bit_eq_div uint_word_ariths
        uint_word_of_int mod_add_right_eq)
  also have "\<dots> = uint p + k" using p k by (intro mod_pos_pos_trivial) auto
  finally show ?thesis using p k by (simp add: prob_ok_def word_le_def)
qed

lemma prob_down_ok:
  assumes "prob_ok p"
  shows "prob_ok (prob_down p)"
proof -
  have p: "31 \<le> unat p" "unat p \<le> 2017"
    using assms by (auto simp: prob_ok_def word_le_nat_alt)
  have dr: "unat (drop_bit kNumMoveBits p) = unat p div 32"
    by (simp only: kNumMoveBits_def drop_bit_eq_div unat_div) simp
  then have "unat (prob_down p) = unat p - unat p div 32"
    unfolding prob_down_def by (subst unat_sub) (simp_all add: word_le_nat_alt)
  moreover have "31 \<le> unat p - unat p div 32"
    using sub_thirtysecond [of "int (unat p)"] p(1) by linarith
  ultimately show ?thesis using p by (simp add: prob_ok_def word_le_nat_alt)
qed

text \<open>
  The interface to the input: \<open>inv\<close> is what the provider of the callback keeps of the machine
  and of its own state, \<open>touch\<close> says which bytes of memory it may store to, \<open>dest\<close> which bytes
  the decoder may store to without upsetting it. Given such a callback the decoder is safe.
\<close>

definition same :: "'p lzma \<Rightarrow> 'p lzma \<Rightarrow> bool" where
  "same d d' \<longleftrightarrow> now_pos d' = now_pos d \<and> prev_byte d' = prev_byte d \<and> lz_state d' = lz_state d \<and>
     rep0 d' = rep0 d \<and> rep1 d' = rep1 d \<and> rep2 d' = rep2 d \<and> rep3 d' = rep3 d"

lemma same_refl [simp]: "same d d"
  by (simp add: same_def)

lemma same_coder [simp]:
  "same d (e\<lparr>rc_range := x\<rparr>) \<longleftrightarrow> same d e" "same d (e\<lparr>rc_range := x, rc_code := y\<rparr>) \<longleftrightarrow> same d e"
  by (simp_all add: same_def)

lemma same_trans: "same a b \<Longrightarrow> same b c \<Longrightarrow> same a c"
  by (simp add: same_def)

text \<open>The distances refer to output already written (or are still the initial 1), and the
  states reached by a match occur only after one.\<close>

definition rep_ok :: "u32 \<Rightarrow> u32 \<Rightarrow> bool" where
  "rep_ok pos r \<longleftrightarrow> 0 < r \<and> unat r \<le> max 1 (unat pos)"

definition sane :: "job \<Rightarrow> 'p lzma \<Rightarrow> bool" where
  "sane J d \<longleftrightarrow> lz_state d < kNumStates \<and> now_pos d \<le> out_size J \<and>
     rep_ok (now_pos d) (rep0 d) \<and> rep_ok (now_pos d) (rep1 d) \<and>
     rep_ok (now_pos d) (rep2 d) \<and> rep_ok (now_pos d) (rep3 d)"

definition good :: "job \<Rightarrow> 'p lzma \<Rightarrow> bool" where
  "good J d \<longleftrightarrow> sane J d \<and> (kNumLitStates \<le> lz_state d \<longrightarrow> now_pos d \<noteq> 0)"

definition advanced :: "job \<Rightarrow> 'p lzma \<Rightarrow> 'p lzma \<Rightarrow> bool" where
  "advanced J d d' \<longleftrightarrow> unat (now_pos d) < unat (now_pos d') \<and> now_pos d' \<le> out_size J"

definition job_ok :: "job \<Rightarrow> bool" where
  "job_ok J \<longleftrightarrow> lc (props J) \<le> 8 \<and> lp (props J) \<le> 4 \<and> pb (props J) \<le> 4"

lemma rep_ok_mono: "rep_ok pos r \<Longrightarrow> unat pos \<le> unat pos' \<Longrightarrow> rep_ok pos' r"
  by (auto simp: rep_ok_def)

text \<open>Reading back at a good distance.\<close>

lemma out_byte_ok:
  assumes "0 < rep0 d" and "rep0 d \<le> now_pos d"
  shows "\<exists>c. out_byte J d = Inr c"
proof -
  have "unat (now_pos d - rep0 d) = unat (now_pos d) - unat (rep0 d)"
    using assms(2) by (rule unat_sub)
  moreover have "0 < unat (rep0 d)" using assms(1) by (simp add: unat_gt_0)
  moreover have "unat (rep0 d) \<le> unat (now_pos d)" using assms(2) by (simp add: word_le_nat_alt)
  ultimately have "now_pos d - rep0 d < now_pos d" by (simp add: word_less_nat_alt)
  then show ?thesis by (simp add: out_byte_def Let_def)
qed

lemma rep_ok_le: "rep_ok pos r \<Longrightarrow> pos \<noteq> 0 \<Longrightarrow> r \<le> pos"
proof -
  assume a: "rep_ok pos r" "pos \<noteq> 0"
  then have "1 \<le> unat pos" by (simp add: Suc_le_eq unat_gt_0)
  with a show "r \<le> pos" by (simp add: rep_ok_def word_le_nat_alt max_def split: if_splits)
qed

lemma put_byte_pos:
  "now_pos d < out_size J \<Longrightarrow> unat (now_pos (put_byte J c d)) = Suc (unat (now_pos d))"
  by (simp add: put_byte_def word_less_nat_alt unat_Suc_word [OF _ unsigned_less])

lemma put_byte_advanced: "now_pos d < out_size J \<Longrightarrow> advanced J d (put_byte J c d)"
  using put_byte_pos [of d J c] by (simp add: advanced_def word_le_nat_alt word_less_nat_alt)

lemma put_byte_fields [simp]:
  "lz_state (put_byte J c d) = lz_state d" "rep0 (put_byte J c d) = rep0 d"
  "rep1 (put_byte J c d) = rep1 d" "rep2 (put_byte J c d) = rep2 d" "rep3 (put_byte J c d) = rep3 d"
  by (simp_all add: put_byte_def)

lemma put_byte_sane: "sane J d \<Longrightarrow> now_pos d < out_size J \<Longrightarrow> sane J (put_byte J c d)"
  using put_byte_pos [of d J c]
  by (auto simp: sane_def word_le_nat_alt word_less_nat_alt elim!: rep_ok_mono)

lemma good_after:
  assumes "sane J d'" and "advanced J d d'" and "s < kNumStates"
  shows "good J (d'\<lparr>lz_state := s\<rparr>)"
  using assms by (auto simp: good_def sane_def advanced_def)

lemma advanced_trans: "advanced J a b \<Longrightarrow> advanced J b c \<Longrightarrow> advanced J a c"
  by (simp add: advanced_def)

lemma same_good: "same d e \<Longrightarrow> good J d \<Longrightarrow> good J e"
  by (simp add: same_def good_def sane_def)

lemma same_advanced: "same d e \<Longrightarrow> advanced J e f \<Longrightarrow> advanced J d f"
  by (simp add: same_def advanced_def)

text \<open>A literal's probabilities lie within the table.\<close>

lemma unat_and_mask: "unat (x AND (push_bit n 1 - 1) :: u32) < 2 ^ n"
proof -
  have "push_bit n 1 - 1 = (mask n :: u32)" by (simp add: mask_eq_exp_minus_1 push_bit_eq_mult)
  then have "unat (x AND (push_bit n 1 - 1)) = take_bit n (unat x)"
    by (simp add: take_bit_eq_mask [symmetric] unsigned_take_bit_eq)
  then show ?thesis by simp
qed

lemma lit_offset_bound:
  assumes "a < 2 ^ p" and "c \<le> 8"
  shows "768 * (a * 2 ^ c + unat (x :: u8) div 2 ^ (8 - c)) + 768 \<le> 768 * 2 ^ (c + p)"
proof -
  have "unat x < 2 ^ LENGTH(8)" by (rule unsigned_less)
  also have "\<dots> = 2 ^ c * 2 ^ (8 - c)" using assms(2) by (simp flip: power_add)
  finally have b: "unat x div 2 ^ (8 - c) < 2 ^ c" by (rule less_mult_imp_div_less)
  have "(a + 1) * 2 ^ c \<le> 2 ^ p * 2 ^ c" using assms(1) by (intro mult_le_mono1) simp
  then show ?thesis using b by (simp add: power_add algebra_simps)
qed

lemma lit_base_bound:
  assumes "lc (props J) \<le> 8"
  shows "lit_base J d + 0x300 \<le> LzmaGetNumProbs (props J)"
  using lit_offset_bound [OF unat_and_mask assms, of "now_pos d" "lp (props J)" "prev_byte d"]
  by (simp only: lit_base_def Let_def LzmaGetNumProbs_def LZMA_LIT_SIZE_def Literal_base)

locale lzma_input =
  fixes cb :: "machine \<Rightarrow> 'p \<Rightarrow> (int \<times> addr \<times> u32 \<times> machine \<times> 'p) option"
    and inv :: "machine \<Rightarrow> 'p \<Rightarrow> bool"
    and touch :: "addr \<Rightarrow> bool"
    and dest :: "addr \<Rightarrow> bool"
  assumes cb_returns: "inv m p \<Longrightarrow> \<exists>r b n m' p'. cb m p = Some (r, b, n, m', p') \<and> inv m' p' \<and>
      (\<forall>x. \<not> touch x \<longrightarrow> mem m' x = mem m x)"
    and inv_store: "inv m p \<Longrightarrow> dest x \<Longrightarrow> inv (store_at m x c) p"
begin

definition framed :: "machine \<Rightarrow> machine \<Rightarrow> bool" where
  "framed m0 m \<longleftrightarrow> (\<forall>x. \<not> touch x \<longrightarrow> \<not> dest x \<longrightarrow> mem m x = mem m0 x)"

definition calm :: "machine \<Rightarrow> nat \<Rightarrow> 'p lzma \<Rightarrow> bool" where
  "calm m0 L d \<longleftrightarrow> inv (mach d) (pvt d) \<and> framed m0 (mach d) \<and>
     length (probs d) = L \<and> (\<forall>p\<in>set (probs d). prob_ok p)"

definition returned :: "machine \<Rightarrow> stop \<Rightarrow> machine \<Rightarrow> 'p \<Rightarrow> bool" where
  "returned m0 e m p \<longleftrightarrow> (\<exists>n. e = Result n) \<and> inv m p \<and> framed m0 m"

text \<open>The coder's registers and the decoder's state do not matter here.\<close>

lemma calm_upd [simp]:
  "calm m0 L (d\<lparr>rc_range := x\<rparr>) \<longleftrightarrow> calm m0 L d"
  "calm m0 L (d\<lparr>rc_range := x, rc_code := y\<rparr>) \<longleftrightarrow> calm m0 L d"
  "calm m0 L (d\<lparr>lz_state := s\<rparr>) \<longleftrightarrow> calm m0 L d"
  "calm m0 L (d\<lparr>rep0 := x0\<rparr>) \<longleftrightarrow> calm m0 L d"
  "calm m0 L (d\<lparr>rep0 := x0, rep1 := x1\<rparr>) \<longleftrightarrow> calm m0 L d"
  "calm m0 L (d\<lparr>rep0 := x0, rep1 := x1, rep2 := x2\<rparr>) \<longleftrightarrow> calm m0 L d"
  "calm m0 L (d\<lparr>rep0 := x0, rep1 := x1, rep2 := x2, rep3 := x3\<rparr>) \<longleftrightarrow> calm m0 L d"
  "calm m0 L (d\<lparr>lz_state := s, rep1 := x1, rep2 := x2, rep3 := x3\<rparr>) \<longleftrightarrow> calm m0 L d"
  by (simp_all add: calm_def)

text \<open>Reading bits.\<close>

lemma rc_test_ok:
  assumes "calm m0 L d"
  shows "ok (returned m0) (\<lambda>d'. calm m0 L d' \<and> same d d') (rc_test cb d)"
proof -
  obtain r b n m' p' where cb: "cb (mach d) (pvt d) = Some (r, b, n, m', p')"
    and m': "inv m' p'" "\<forall>x. \<not> touch x \<longrightarrow> mem m' x = mem (mach d) x"
    using cb_returns assms by (auto simp: calm_def) metis
  then have "framed m0 m'" using assms by (auto simp: calm_def framed_def)
  with m' assms show ?thesis
    by (auto simp: rc_test_def cb Let_def returned_def calm_def same_def)
qed

lemma rc_shift_in_ok:
  assumes "calm m0 L d"
  shows "ok (returned m0) (\<lambda>d'. calm m0 L d' \<and> same d d') (rc_shift_in cb d)"
  unfolding rc_shift_in_def
  by (rule ok_bind [OF rc_test_ok [OF assms]]) (auto simp: rc_read_byte_def calm_def same_def)

lemma rc_normalize_ok:
  assumes "calm m0 L d"
  shows "ok (returned m0) (\<lambda>d'. calm m0 L d' \<and> same d d') (rc_normalize cb d)"
proof -
  have "ok (returned m0) (\<lambda>d'. calm m0 L d' \<and> same d d')
      (bindE (rc_shift_in cb d) (\<lambda>d1. Inr (d1\<lparr>rc_range := push_bit 8 (rc_range d1)\<rparr>)))"
    by (rule ok_bind [OF rc_shift_in_ok [OF assms]]) (auto simp: calm_def same_def)
  then show ?thesis using assms by (simp add: rc_normalize_def)
qed

lemma rc_init_loop_ok:
  "calm m0 L d \<Longrightarrow> ok (returned m0) (\<lambda>d'. calm m0 L d' \<and> same d d') (rc_init_loop cb n d)"
proof (induction n arbitrary: d)
  case (Suc n)
  show ?case unfolding rc_init_loop.simps
    by (rule ok_bind [OF rc_shift_in_ok [OF Suc.prems]], rule ok_weaken [OF Suc.IH])
      (auto intro: same_trans)
qed simp

lemma rc_init_ok:
  assumes "calm m0 L d"
  shows "ok (returned m0) (\<lambda>d'. calm m0 L d' \<and> same d d') (rc_init cb d)"
  unfolding rc_init_def using assms
  by (intro ok_weaken [OF rc_init_loop_ok [of m0 L]]) (auto simp: calm_def same_def)

lemma decode_bit_ok:
  assumes "calm m0 L d" and "i < L"
  shows "ok (returned m0) (\<lambda>(b, d'). calm m0 L d' \<and> same d d') (decode_bit cb i d)"
  unfolding decode_bit_def
proof (rule ok_bind [OF rc_normalize_ok [OF assms(1)]], elim conjE)
  fix e assume e: "calm m0 L e" "same d e"
  have "prob_ok (probs e ! i)" using e assms(2) by (auto simp: calm_def)
  then have "prob_ok (prob_up (probs e ! i))" "prob_ok (prob_down (probs e ! i))"
    by (rule prob_up_ok, rule prob_down_ok)
  then show "ok (returned m0) (\<lambda>(b, d'). calm m0 L d' \<and> same d d')
      (if length (probs e) \<le> i then fail OutOfBounds e
       else let p = probs e ! i; bound = drop_bit kNumBitModelTotalBits (rc_range e) * ucast p
            in if rc_code e < bound
               then Inr (False, e\<lparr>rc_range := bound, probs := (probs e)[i := prob_up p]\<rparr>)
               else Inr (True, e\<lparr>rc_range := rc_range e - bound, rc_code := rc_code e - bound,
                                 probs := (probs e)[i := prob_down p]\<rparr>))"
    using e assms(2) by (auto simp: calm_def same_def Let_def dest!: set_update_subset_insert [THEN subsetD])
qed

text \<open>One bit and then the rest, which may assume all that the bit left alone.\<close>

lemma bit_then:
  assumes "calm m0 L d" and "i < L"
    and "\<And>b e. calm m0 L e \<Longrightarrow> same d e \<Longrightarrow> ok (returned m0) P (f b e)"
  shows "ok (returned m0) P (bindE (decode_bit cb i d) (\<lambda>(b, d). f b d))"
  by (rule ok_bind2 [OF decode_bit_ok [OF assms(1,2)]]) (use assms(3) in blast)

lemma bit_tree_loop_ok:
  "calm m0 L d \<Longrightarrow> 2 ^ k \<le> res \<Longrightarrow> res < 2 * 2 ^ k \<Longrightarrow> base + 2 ^ (k + n) \<le> L \<Longrightarrow>
    ok (returned m0) (\<lambda>(r, d'). calm m0 L d' \<and> same d d' \<and> 2 ^ (k + n) \<le> r \<and> r < 2 * 2 ^ (k + n))
      (bit_tree_loop cb base n res d)"
proof (induction n arbitrary: k res d)
  case (Suc n)
  have "(2::nat) * 2 ^ k \<le> 2 ^ (k + Suc n)" by (simp add: power_add)
  with Suc.prems have lt: "base + res < L" by linarith
  show ?case unfolding bit_tree_loop.simps
  proof (rule bit_then [OF Suc.prems(1) lt])
    fix b e assume e: "calm m0 L e" "same d e"
    have "ok (returned m0)
        (\<lambda>(r, d'). calm m0 L d' \<and> same e d' \<and> 2 ^ (Suc k + n) \<le> r \<and> r < 2 * 2 ^ (Suc k + n))
        (bit_tree_loop cb base n (2 * res + of_bool b) e)"
      using Suc.prems e by (intro Suc.IH) auto
    then show "ok (returned m0)
        (\<lambda>(r, d'). calm m0 L d' \<and> same d d' \<and> 2 ^ (k + Suc n) \<le> r \<and> r < 2 * 2 ^ (k + Suc n))
        (bit_tree_loop cb base n (2 * res + of_bool b) e)"
      using same_trans [OF e(2)] by (elim ok_weaken) auto
  qed
qed simp

lemma bit_tree_ok:
  assumes "calm m0 L d" and "base + 2 ^ n \<le> L"
  shows "ok (returned m0) (\<lambda>(r, d'). calm m0 L d' \<and> same d d' \<and> r < 2 ^ n) (bit_tree cb base n d)"
  unfolding bit_tree_def
proof (rule ok_bind2)
  show "ok (returned m0)
      (\<lambda>(r, d'). calm m0 L d' \<and> same d d' \<and> 2 ^ (0 + n) \<le> r \<and> r < 2 * 2 ^ (0 + n))
      (bit_tree_loop cb base n 1 d)"
    using assms by (intro bit_tree_loop_ok) auto
qed auto

text \<open>As \<open>bit_then\<close>, for a whole tree.\<close>

lemma tree_then:
  assumes "calm m0 L d" and "base + 2 ^ n \<le> L"
    and "\<And>r e. calm m0 L e \<Longrightarrow> same d e \<Longrightarrow> r < 2 ^ n \<Longrightarrow> ok (returned m0) P (f r e)"
  shows "ok (returned m0) P (bindE (bit_tree cb base n d) (\<lambda>(r, d). f r d))"
  by (rule ok_bind2 [OF bit_tree_ok [OF assms(1,2)]]) (use assms(3) in blast)

lemma reverse_tree_ok:
  "calm m0 L d \<Longrightarrow> 2 ^ k \<le> mi \<Longrightarrow> mi < 2 * 2 ^ k \<Longrightarrow> base + 2 ^ (k + n) \<le> L \<Longrightarrow>
    ok (returned m0) (\<lambda>(r, d'). calm m0 L d' \<and> same d d') (reverse_tree cb base n mi i r d)"
proof (induction n arbitrary: k mi i r d)
  case (Suc n)
  have "(2::nat) * 2 ^ k \<le> 2 ^ (k + Suc n)" by (simp add: power_add)
  with Suc.prems have lt: "base + mi < L" by linarith
  show ?case unfolding reverse_tree.simps
  proof (rule bit_then [OF Suc.prems(1) lt])
    fix b e assume e: "calm m0 L e" "same d e"
    have "ok (returned m0) (\<lambda>(r, d'). calm m0 L d' \<and> same e d')
        (reverse_tree cb base n (2 * mi + of_bool b) (push_bit 1 i) (if b then r OR i else r) e)"
      using Suc.prems e by (intro Suc.IH [where k = "Suc k"]) auto
    then show "ok (returned m0) (\<lambda>(r, d'). calm m0 L d' \<and> same d d')
        (reverse_tree cb base n (2 * mi + of_bool b) (push_bit 1 i) (if b then r OR i else r) e)"
      using same_trans [OF e(2)] by (elim ok_weaken) auto
  qed
qed simp

lemma direct_bits_ok:
  "calm m0 L d \<Longrightarrow>
    ok (returned m0) (\<lambda>(r, d'). calm m0 L d' \<and> same d d') (direct_bits cb n r d)"
proof (induction n arbitrary: r d)
  case (Suc n)
  have step: "ok (returned m0) (\<lambda>(r, d'). calm m0 L d' \<and> same d d') (direct_bits cb n r' e')"
    if "calm m0 L e'" "same d e'" for r' e'
    using same_trans [OF that(2)] by (intro ok_weaken [OF Suc.IH [OF that(1)]]) auto
  show ?case unfolding direct_bits.simps
    by (rule ok_bind [OF rc_normalize_ok [OF Suc.prems]])
      (auto simp: Let_def intro!: step)
qed simp

text \<open>Literals: 768 probabilities from \<open>base\<close> on.\<close>

lemma lit_loop_ok:
  "calm m0 L d \<Longrightarrow> base + 0x300 \<le> L \<Longrightarrow> 0x100 \<le> s * 2 ^ n \<Longrightarrow>
    ok (returned m0) (\<lambda>(r, d'). calm m0 L d' \<and> same d d' \<and> 0x100 \<le> r) (lit_loop cb base n s d)"
proof (induction n arbitrary: s d)
  case (Suc n)
  show ?case
  proof (cases "s < 0x100")
    case True
    then have lt: "base + s < L" using Suc.prems(2) by simp
    have fuel: "0x100 \<le> (2 * s + of_bool b) * 2 ^ n" for b
      using Suc.prems(3) by (cases b) (simp_all add: algebra_simps)
    show ?thesis using True unfolding lit_loop.simps
      by (simp only: if_True, intro bit_then [OF Suc.prems(1) lt])
        (rule ok_weaken [OF Suc.IH [OF _ Suc.prems(2) fuel]], auto intro: same_trans)
  qed (use Suc.prems in simp)
qed simp

lemma matched_loop_ok:
  "calm m0 L d \<Longrightarrow> base + 0x300 \<le> L \<Longrightarrow> s < 0x100 \<Longrightarrow> 0 < s \<Longrightarrow>
    ok (returned m0) (\<lambda>(r, d'). calm m0 L d' \<and> same d d' \<and> 0 < r) (matched_loop cb base n mb s d)"
proof (induction n arbitrary: mb s d)
  case (Suc n)
  let ?bit = "2 * mb AND 0x100"
  have "int ?bit = int (2 * mb) AND 0x100" by (simp add: of_nat_and_eq)
  also have "\<dots> \<le> 0x100" by (rule AND_upper2) simp
  finally have "?bit \<le> 0x100" by simp
  then have lt: "base + 0x100 + ?bit + s < L" using Suc.prems(2,3) by simp
  have next_ok: "ok (returned m0) (\<lambda>(r, d'). calm m0 L d' \<and> same d d' \<and> 0 < r)
      (matched_loop cb base n mb' s' e)" if "calm m0 L e" "same d e" "s' < 0x100" "0 < s'" for mb' s' e
    using same_trans [OF that(2)] by (intro ok_weaken [OF Suc.IH [OF that(1) Suc.prems(2) that(3,4)]]) auto
  show ?case unfolding matched_loop.simps Let_def
    by (rule bit_then [OF Suc.prems(1) lt]) (use Suc.prems(4) in \<open>auto intro!: next_ok\<close>)
qed simp

end

text \<open>The probabilities for the middle slots of a distance.\<close>

lemma spec_pos_bound:
  assumes "4 \<le> slot" and "slot < 14"
  defines "r \<equiv> push_bit (slot div 2 - 1) (2 OR (of_nat slot AND 1)) :: u32"
  shows "SpecPos + unat r - slot - 1 + 2 ^ (slot div 2 - 1) \<le> 1846"
proof -
  have "slot = 4 \<or> slot = 5 \<or> slot = 6 \<or> slot = 7 \<or> slot = 8 \<or> slot = 9 \<or> slot = 10 \<or>
      slot = 11 \<or> slot = 12 \<or> slot = 13"
    using assms(1,2) by presburger
  then show ?thesis unfolding r_def by (elim disjE) (simp_all add: layout_consts)
qed

text \<open>One call of the decoder on such an input, with the whole output region at its disposal.\<close>

locale lzma_run = lzma_input cb inv touch dest
  for cb :: "machine \<Rightarrow> 'p \<Rightarrow> (int \<times> addr \<times> u32 \<times> machine \<times> 'p) option"
    and inv :: "machine \<Rightarrow> 'p \<Rightarrow> bool"
    and touch :: "addr \<Rightarrow> bool" and dest :: "addr \<Rightarrow> bool" +
  fixes J :: job and m0 :: machine
  assumes job: "job_ok J"
    and room: "in_range (out_stream J) (unat (out_size J)) x \<Longrightarrow> dest x"
begin

definition nprobs :: nat where
  "nprobs = LzmaGetNumProbs (props J)"

lemma base_size: "1846 \<le> nprobs"
  by (simp add: nprobs_def LzmaGetNumProbs_def LZMA_BASE_SIZE_def)

lemma put_byte_calm:
  assumes "calm m0 L d" and "now_pos d < out_size J"
  shows "calm m0 L (put_byte J c d)"
proof -
  have "in_range (out_stream J) (unat (out_size J)) (out_stream J + now_pos d)"
    using assms(2) by (simp add: in_range_def word_less_nat_alt)
  then have "dest (out_stream J + now_pos d)" by (rule room)
  with assms(1) inv_store show ?thesis by (auto simp: calm_def put_byte_def framed_def)
qed

lemma decode_literal_ok:
  assumes d: "calm m0 nprobs d" "good J d" and lt: "now_pos d < out_size J"
  shows "ok (returned m0) (\<lambda>d'. calm m0 nprobs d' \<and> good J d' \<and> advanced J d d') (decode_literal cb J d)"
proof -
  have base: "lit_base J d + 0x300 \<le> nprobs"
    using job unfolding nprobs_def job_ok_def by (intro lit_base_bound) simp
  have before: "\<exists>mb. out_byte J d = Inr mb" if "kNumLitStates \<le> lz_state d"
    using that d(2) rep_ok_le [of "now_pos d" "rep0 d"]
    by (intro out_byte_ok) (auto simp: good_def sane_def rep_ok_def)
  have first: "ok (returned m0) (\<lambda>(r, d'). calm m0 nprobs d' \<and> same d d' \<and> 0 < r)
      (if lz_state d \<ge> kNumLitStates then
         bindE (out_byte J d) (\<lambda>mb. matched_loop cb (lit_base J d) 8 (unat mb) 1 d)
       else Inr (1, d))"
    using before d(1) base by (auto intro!: matched_loop_ok)
  have tail: "calm m0 nprobs (put_byte J c e\<lparr>lz_state := s\<rparr>) \<and> good J (put_byte J c e\<lparr>lz_state := s\<rparr>) \<and>
      advanced J d (put_byte J c e\<lparr>lz_state := s\<rparr>)"
    if e: "calm m0 nprobs e" "same d e" and s: "s < kNumStates" for c e s
  proof -
    have lt': "now_pos e < out_size J" using e(2) lt by (simp add: same_def)
    have g: "sane J e" using same_good [OF e(2) d(2)] by (simp add: good_def)
    have adv: "advanced J e (put_byte J c e)" using lt' by (rule put_byte_advanced)
    show ?thesis
      using put_byte_calm [OF e(1) lt', of c] good_after [OF put_byte_sane [OF g lt'] adv s]
        same_advanced [OF e(2) adv] by (simp add: advanced_def)
  qed
  show ?thesis
    unfolding decode_literal_def Let_def
  proof (rule ok_bind2 [OF first], elim conjE)
    fix r :: nat and e assume e: "calm m0 nprobs e" "same d e" "0 < r"
    then have "0x100 \<le> r * 2 ^ 8" by simp
    from lit_loop_ok [OF e(1) base this]
    show "ok (returned m0) (\<lambda>d'. calm m0 nprobs d' \<and> good J d' \<and> advanced J d d')
        (bindE (lit_loop cb (lit_base J d) 8 r e) (\<lambda>(symbol, d).
           Inr ((put_byte J (of_nat symbol) d)
             \<lparr>lz_state := if lz_state (put_byte J (of_nat symbol) d) < 4 then 0
                          else if lz_state (put_byte J (of_nat symbol) d) < 10
                          then lz_state (put_byte J (of_nat symbol) d) - 3
                          else lz_state (put_byte J (of_nat symbol) d) - 6\<rparr>)))"
    proof (rule ok_bind2, elim conjE)
      fix r' f assume f: "calm m0 nprobs f" "same e f"
      have "lz_state f < kNumStates"
        using f(2) e(2) d(2) by (simp add: same_def good_def sane_def)
      then show "ok (returned m0) (\<lambda>d'. calm m0 nprobs d' \<and> good J d' \<and> advanced J d d')
          (Inr ((put_byte J (of_nat r') f)
             \<lparr>lz_state := if lz_state (put_byte J (of_nat r') f) < 4 then 0
                          else if lz_state (put_byte J (of_nat r') f) < 10
                          then lz_state (put_byte J (of_nat r') f) - 3
                          else lz_state (put_byte J (of_nat r') f) - 6\<rparr>))"
        unfolding ok_Inr using same_trans [OF e(2) f(2)] f(1) by (intro tail) (auto simp: kNumStates_def)
    qed
  qed
qed

lemma copy_match_ok:
  "calm m0 L d \<Longrightarrow> sane J d \<Longrightarrow> rep0 d \<le> now_pos d \<Longrightarrow> now_pos d < out_size J \<Longrightarrow>
    ok (returned m0) (\<lambda>d'. calm m0 L d' \<and> sane J d' \<and> lz_state d' = lz_state d \<and> advanced J d d')
      (copy_match J len d)"
proof (induction len arbitrary: d)
  case (Suc n)
  note lt = Suc.prems(4)
  obtain c where c: "out_byte J d = Inr c"
    using out_byte_ok [of d J] Suc.prems(2,3) by (auto simp: sane_def rep_ok_def)
  let ?d = "put_byte J c d"
  have d: "calm m0 L ?d" "sane J ?d" "advanced J d ?d"
    using Suc.prems(1,2) lt by (simp_all add: put_byte_calm put_byte_sane put_byte_advanced)
  show ?case
  proof (cases "n \<noteq> 0 \<and> now_pos ?d < out_size J")
    case False
    then show ?thesis using d by (subst copy_match.simps) (auto simp: c Let_def)
  next
    case True
    have "rep0 ?d \<le> now_pos ?d"
      using Suc.prems(3) d(3) by (simp add: advanced_def word_le_nat_alt)
    then have "ok (returned m0) (\<lambda>d'. calm m0 L d' \<and> sane J d' \<and> lz_state d' = lz_state ?d \<and> advanced J ?d d')
        (copy_match J n ?d)"
      using Suc.IH [OF d(1,2)] True by simp
    then have "ok (returned m0) (\<lambda>d'. calm m0 L d' \<and> sane J d' \<and> lz_state d' = lz_state d \<and> advanced J d d')
        (copy_match J n ?d)"
      by (rule ok_weaken) (auto intro: advanced_trans [OF d(3)])
    then show ?thesis using True by (subst copy_match.simps) (simp add: c Let_def)
  qed
next
  case 0
  obtain c where c: "out_byte J d = Inr c"
    using out_byte_ok [of d J] 0 by (auto simp: sane_def rep_ok_def)
  then show ?case using 0
    by (subst copy_match.simps) (simp add: Let_def put_byte_calm put_byte_sane put_byte_advanced)
qed

text \<open>The kind of a match: what is known of the state before its length is read.\<close>

definition kind_ok :: "'p lzma \<Rightarrow> 'p match_kind \<Rightarrow> bool" where
  "kind_ok d k \<longleftrightarrow> (case k of
     ShortRep d' \<Rightarrow> calm m0 nprobs d' \<and> good J d' \<and> advanced J d d'
   | WithLength base d' \<Rightarrow> base + kNumLenProbs \<le> nprobs \<and> calm m0 nprobs d' \<and> sane J d' \<and>
       now_pos d' = now_pos d)"

lemma coder_index: "i < 1846 \<Longrightarrow> i < nprobs"
  using base_size by simp

lemma short_rep_ok:
  assumes "calm m0 nprobs d" and "sane J d" and lt: "now_pos d < out_size J"
  shows "ok (returned m0) (kind_ok d) (short_rep J d)"
proof (cases "now_pos d = 0")
  case True
  then show ?thesis using assms by (simp add: short_rep_def calm_def returned_def)
next
  case False
  let ?s = "state_after 9 11 (lz_state d)"
  let ?d = "d\<lparr>lz_state := ?s\<rparr>"
  have s: "?s < kNumStates" by (simp add: state_after_def kNumStates_def)
  have d: "sane J ?d" using assms(2) s by (simp add: sane_def)
  obtain c where c: "out_byte J ?d = Inr c"
    using out_byte_ok [of ?d J] rep_ok_le [of "now_pos d" "rep0 d"] assms(2) False
    by (auto simp: sane_def rep_ok_def)
  have lt': "now_pos ?d < out_size J" using lt by simp
  have adv: "advanced J d (put_byte J c ?d)"
    using put_byte_advanced [OF lt', of c] by (simp add: advanced_def)
  have "good J (put_byte J c ?d)"
    using put_byte_sane [OF d lt', of c] adv by (auto simp: good_def advanced_def)
  moreover have "calm m0 nprobs (put_byte J c ?d)" using assms(1) lt' by (simp add: put_byte_calm)
  ultimately show ?thesis using False adv by (simp add: short_rep_def c kind_ok_def)
qed

lemma rep_match_ok:
  "calm m0 nprobs d \<Longrightarrow> sane J d \<Longrightarrow> kind_ok d (rep_match d)"
  using base_size by (simp add: kind_ok_def rep_match_def sane_def state_after_def layout_consts)

lemma same_sane: "same d e \<Longrightarrow> sane J d \<Longrightarrow> sane J e"
  by (simp add: same_def sane_def)

lemma decode_old_distance_ok:
  assumes d: "calm m0 nprobs d" "sane J d"
  shows "ok (returned m0) (\<lambda>d'. calm m0 nprobs d' \<and> sane J d' \<and> now_pos d' = now_pos d)
      (decode_old_distance cb d)"
proof -
  have i: "IsRepG1 + lz_state d < nprobs"
    using d(2) by (intro coder_index) (simp add: sane_def layout_consts)
  show ?thesis unfolding decode_old_distance_def
  proof (rule bit_then [OF d(1) i])
    fix b e assume e: "calm m0 nprobs e" "same d e"
    have s: "sane J e" using e(2) d(2) by (rule same_sane)
    have j: "IsRepG2 + lz_state e < nprobs"
      using s by (intro coder_index) (simp add: sane_def layout_consts)
    have rest: "ok (returned m0) (\<lambda>d'. calm m0 nprobs d' \<and> sane J d' \<and> now_pos d' = now_pos d)
        (bindE (decode_bit cb (IsRepG2 + lz_state e) e) (\<lambda>(b2, d).
          if \<not> b2 then Inr (d\<lparr>rep0 := rep2 d, rep1 := rep0 d, rep2 := rep1 d\<rparr>)
          else Inr (d\<lparr>rep0 := rep3 d, rep1 := rep0 d, rep2 := rep1 d, rep3 := rep2 d\<rparr>)))"
      by (rule bit_then [OF e(1) j]) (use s e(2) in \<open>auto simp: sane_def same_def\<close>)
    show "ok (returned m0) (\<lambda>d'. calm m0 nprobs d' \<and> sane J d' \<and> now_pos d' = now_pos d)
        (if \<not> b then Inr (e\<lparr>rep0 := rep1 e, rep1 := rep0 e\<rparr>)
         else bindE (decode_bit cb (IsRepG2 + lz_state e) e) (\<lambda>(b2, d).
           if \<not> b2 then Inr (d\<lparr>rep0 := rep2 d, rep1 := rep0 d, rep2 := rep1 d\<rparr>)
           else Inr (d\<lparr>rep0 := rep3 d, rep1 := rep0 d, rep2 := rep1 d, rep3 := rep2 d\<rparr>)))"
      using rest s e by (auto simp: sane_def same_def)
  qed
qed

lemma decode_match_kind_ok:
  assumes d: "calm m0 nprobs d" "good J d" and lt: "now_pos d < out_size J" and ps: "posState < 16"
  shows "ok (returned m0) (kind_ok d) (decode_match_kind cb J posState d)"
proof -
  have sane: "sane J d" using d(2) by (simp add: good_def)
  have i: "i + lz_state e < nprobs" if "i \<le> IsRepG2" "sane J e" for i e
    using that by (intro coder_index) (simp add: sane_def layout_consts)
  have via: "kind_ok d k" if "kind_ok e k" "same d e" for e k
    using that by (auto simp: kind_ok_def same_def advanced_def split: match_kind.splits)
  have long: "ok (returned m0) (kind_ok d)
      (bindE (decode_bit cb (IsRep0Long + lz_state e * 16 + posState) e)
        (\<lambda>(b, d). if \<not> b then short_rep J d else Inr (rep_match d)))"
    if e: "calm m0 nprobs e" "same d e" for e
  proof (rule bit_then [OF e(1)])
    have "lz_state e < 12" using same_sane [OF e(2) sane] by (simp add: sane_def kNumStates_def)
    then show "IsRep0Long + lz_state e * 16 + posState < nprobs"
      using ps by (intro coder_index) (simp add: layout_consts)
    fix b f assume f: "calm m0 nprobs f" "same e f"
    have df: "same d f" using e(2) f(2) by (rule same_trans)
    have g: "sane J f" "now_pos f < out_size J"
      using same_sane [OF df sane] df lt by (simp_all add: same_def)
    have "ok (returned m0) (kind_ok d) (short_rep J f)"
      using ok_weaken [OF short_rep_ok [OF f(1) g]] via [OF _ df] by blast
    moreover have "kind_ok d (rep_match f)" using via [OF rep_match_ok [OF f(1) g(1)] df] .
    ultimately show "ok (returned m0) (kind_ok d) (if \<not> b then short_rep J f else Inr (rep_match f))"
      by simp
  qed
  have old: "ok (returned m0) (kind_ok d) (bindE (decode_old_distance cb e) (\<lambda>d. Inr (rep_match d)))"
    if e: "calm m0 nprobs e" "same d e" for e
    by (rule ok_bind [OF decode_old_distance_ok [OF e(1) same_sane [OF e(2) sane]]])
      (use e(2) rep_match_ok in \<open>auto simp: kind_ok_def rep_match_def same_def\<close>)
  have rep: "ok (returned m0) (kind_ok d)
      (bindE (decode_bit cb (IsRepG0 + lz_state e) e) (\<lambda>(b, d).
         if \<not> b then
           bindE (decode_bit cb (IsRep0Long + lz_state d * 16 + posState) d) (\<lambda>(b, d).
             if \<not> b then short_rep J d else Inr (rep_match d))
         else bindE (decode_old_distance cb d) (\<lambda>d. Inr (rep_match d))))"
    if e: "calm m0 nprobs e" "same d e" for e
    by (rule bit_then [OF e(1) i])
      (use same_sane [OF e(2) sane] same_trans [OF e(2)] long old in \<open>auto simp: layout_consts\<close>)
  have new: "kind_ok d (WithLength LenCoder
      (e\<lparr>rep3 := rep2 e, rep2 := rep1 e, rep1 := rep0 e, lz_state := state_after 0 3 (lz_state e)\<rparr>))"
    if e: "calm m0 nprobs e" "same d e" for e
    using e same_sane [OF e(2) sane] base_size
    by (auto simp: kind_ok_def calm_def sane_def same_def state_after_def layout_consts)
  show ?thesis unfolding decode_match_kind_def
    by (rule bit_then [OF d(1) i]) (use sane new rep in \<open>auto simp: layout_consts\<close>)
qed

lemma decode_len_ok:
  assumes d: "calm m0 nprobs d" and base: "base + kNumLenProbs \<le> nprobs" and ps: "posState < 16"
  shows "ok (returned m0) (\<lambda>(n, d'). calm m0 nprobs d' \<and> same d d') (decode_len cb base posState d)"
proof -
  have sz: "base + 514 \<le> nprobs" using base by (simp add: layout_consts)
  have low: "ok (returned m0) (\<lambda>(n, d'). calm m0 nprobs d' \<and> same d d')
      (bit_tree cb (base + LenLow + posState * 8) 3 e)" if e: "calm m0 nprobs e" "same d e" for e
    using ps sz same_trans [OF e(2)]
    by (intro ok_weaken [OF bit_tree_ok [OF e(1)]]) (auto simp: layout_consts)
  have mid: "ok (returned m0) (\<lambda>(n, d'). calm m0 nprobs d' \<and> same d d')
      (bindE (bit_tree cb (base + LenMid + posState * 8) 3 e) (\<lambda>(n, d). Inr (n + 8, d)))"
    if e: "calm m0 nprobs e" "same d e" for e
    by (rule tree_then [OF e(1)]) (use ps sz same_trans [OF e(2)] in \<open>auto simp: layout_consts\<close>)
  have high: "ok (returned m0) (\<lambda>(n, d'). calm m0 nprobs d' \<and> same d d')
      (bindE (bit_tree cb (base + LenHigh) 8 e) (\<lambda>(n, d). Inr (n + 16, d)))"
    if e: "calm m0 nprobs e" "same d e" for e
    by (rule tree_then [OF e(1)]) (use sz same_trans [OF e(2)] in \<open>auto simp: layout_consts\<close>)
  have choice2: "ok (returned m0) (\<lambda>(n, d'). calm m0 nprobs d' \<and> same d d')
      (bindE (decode_bit cb (base + LenChoice2) e) (\<lambda>(b, d).
         if \<not> b then
           bindE (bit_tree cb (base + LenMid + posState * 8) 3 d) (\<lambda>(n, d). Inr (n + 8, d))
         else
           bindE (bit_tree cb (base + LenHigh) 8 d) (\<lambda>(n, d). Inr (n + 16, d))))"
    if e: "calm m0 nprobs e" "same d e" for e
    by (rule bit_then [OF e(1)])
      (use sz mid high same_trans [OF e(2)] in \<open>auto simp: LenChoice2_def LenChoice_def\<close>)
  show ?thesis unfolding decode_len_def
    by (rule bit_then [OF d]) (use sz low choice2 in \<open>auto simp: LenChoice_def\<close>)
qed

lemma distance_bits_ok:
  assumes d: "calm m0 nprobs d"
  shows "ok (returned m0) (\<lambda>(r, d'). calm m0 nprobs d' \<and> same d d') (distance_bits cb slot d)"
proof -
  have spec: "ok (returned m0) (\<lambda>(r, d'). calm m0 nprobs d' \<and> same d d')
      (reverse_tree cb (SpecPos + unat r - slot - 1) (slot div 2 - 1) 1 1 r d)"
    if "4 \<le> slot" "slot < 14" "r = push_bit (slot div 2 - 1) (2 OR (of_nat slot AND 1))" for r :: u32
    using spec_pos_bound [OF that(1,2), folded that(3)] base_size
    by (intro reverse_tree_ok [OF d, where k = 0]) auto
  have align: "ok (returned m0) (\<lambda>(r, d'). calm m0 nprobs d' \<and> same d d')
      (bindE (direct_bits cb n r d) (\<lambda>(r, d). reverse_tree cb Align 4 1 1 (push_bit 4 r) d))"
    for n and r :: u32
  proof (rule ok_bind2 [OF direct_bits_ok [OF d]], elim conjE)
    fix r :: u32 and e assume e: "calm m0 nprobs e" "same d e"
    have "Align + 2 ^ (0 + 4) \<le> nprobs" using base_size by (simp add: layout_consts)
    from reverse_tree_ok [OF e(1) _ _ this, of 1]
    show "ok (returned m0) (\<lambda>(r, d'). calm m0 nprobs d' \<and> same d d')
        (reverse_tree cb Align 4 1 1 (push_bit 4 r) e)"
      by (rule ok_weaken) (use same_trans [OF e(2)] in auto)
  qed
  show ?thesis unfolding distance_bits_def Let_def using d spec align by (cases "slot < 14") auto
qed

lemma decode_distance_ok:
  assumes d: "calm m0 nprobs d"
  shows "ok (returned m0) (\<lambda>(r, d'). calm m0 nprobs d' \<and> same d d') (decode_distance cb len d)"
proof -
  have "PosSlot + (if len < 4 then len else 3) * 64 + 2 ^ 6 \<le> nprobs"
    using base_size by (simp add: layout_consts)
  then show ?thesis unfolding decode_distance_def
    by (rule tree_then [OF d])
      (rule ok_weaken [OF distance_bits_ok], auto intro: same_trans)
qed

definition round_ok :: "'p lzma \<Rightarrow> 'p round \<Rightarrow> bool" where
  "round_ok d r \<longleftrightarrow> (case r of
     Next d' \<Rightarrow> calm m0 nprobs d' \<and> good J d' \<and> advanced J d d'
   | Stop d' \<Rightarrow> calm m0 nprobs d' \<and> now_pos d' \<le> out_size J)"

lemma copy_round:
  assumes "calm m0 nprobs e" and "sane J e" and "now_pos e = now_pos d" and "now_pos d < out_size J"
  shows "ok (returned m0) (round_ok d)
    (if rep0 e > now_pos e then fail (Result LZMA_RESULT_DATA_ERROR) e
     else bindE (copy_match J n e) (\<lambda>d. Inr (Next d)))"
proof (cases "rep0 e > now_pos e")
  case True
  then show ?thesis using assms(1) by (simp add: returned_def calm_def)
next
  case False
  then have "rep0 e \<le> now_pos e" by simp
  then have "ok (returned m0) (round_ok d) (bindE (copy_match J n e) (\<lambda>d. Inr (Next d)))"
    using assms
    by (intro ok_bind [OF copy_match_ok [OF assms(1,2)]]) (auto simp: round_ok_def good_def advanced_def)
  then show ?thesis using False by simp
qed

lemma decode_match_ok:
  assumes d: "calm m0 nprobs d" "sane J d" and lt: "now_pos d < out_size J"
    and base: "base + kNumLenProbs \<le> nprobs" and ps: "posState < 16"
  shows "ok (returned m0) (round_ok d) (decode_match cb J base posState d)"
  unfolding decode_match_def
proof (rule ok_bind2 [OF decode_len_ok [OF d(1) base ps]], elim conjE)
  fix len e assume e: "calm m0 nprobs e" "same d e"
  have se: "sane J e" using e(2) d(2) by (rule same_sane)
  have pos: "now_pos e = now_pos d" using e(2) by (simp add: same_def)
  let ?rest = "\<lambda>(d :: 'p lzma, finished). if finished then Inr (Stop d)
    else if rep0 d > now_pos d then fail (Result LZMA_RESULT_DATA_ERROR) d
    else bindE (copy_match J (len + 2) d) (\<lambda>d. Inr (Next d))"
  let ?e = "e\<lparr>lz_state := lz_state e + kNumLitStates\<rparr>"
  have new: "ok (returned m0) (round_ok d) (bindE (decode_distance cb len ?e)
      (\<lambda>(r, d). ?rest (d\<lparr>rep0 := r + 1\<rparr>, r + 1 = 0)))" if "lz_state e < 4"
  proof (rule ok_bind2, rule decode_distance_ok)
    show "calm m0 nprobs ?e" using e(1) by simp
    fix r and f :: "'p lzma" assume f: "calm m0 nprobs f \<and> same ?e f"
    let ?f = "f\<lparr>rep0 := r + 1\<rparr>"
    show "ok (returned m0) (round_ok d) (?rest (?f, r + 1 = 0))"
    proof (cases "r + 1 = 0 \<or> r + 1 > now_pos f")
      case True
      then show ?thesis using f se that pos lt
        by (auto simp: round_ok_def same_def sane_def returned_def calm_def)
    next
      case False
      then have "unat (r + 1) \<le> unat (now_pos f)" "0 < r + 1"
        by (auto simp: word_le_nat_alt not_less word_neq_0_conv)
      then have "sane J ?f" using f se that
        by (auto simp: same_def sane_def rep_ok_def layout_consts)
      then show ?thesis using copy_round [of ?f d "len + 2"] False f pos lt by (simp add: same_def)
    qed
  qed
  have old: "ok (returned m0) (round_ok d) (?rest (e, False))"
    using copy_round [OF e(1) se pos lt] by simp
  show "ok (returned m0) (round_ok d)
      (bindE
        (if lz_state e < 4 then bindE (decode_distance cb len ?e)
           (\<lambda>(r, d). Inr (d\<lparr>rep0 := r + 1\<rparr>, r + 1 = 0))
         else Inr (e, False)) ?rest)"
  proof (cases "lz_state e < 4")
    case True
    have "bindE (bindE (decode_distance cb len ?e) (\<lambda>(r, d). Inr (d\<lparr>rep0 := r + 1\<rparr>, r + 1 = 0))) ?rest
        = bindE (decode_distance cb len ?e) (\<lambda>(r, d). ?rest (d\<lparr>rep0 := r + 1\<rparr>, r + 1 = 0))"
      by (cases "decode_distance cb len ?e") auto
    then show ?thesis using new [OF True] True by simp
  next
    case False
    then show ?thesis using old by simp
  qed
qed

lemma decode_round_ok:
  assumes d: "calm m0 nprobs d" "good J d" and lt: "now_pos d < out_size J"
  shows "ok (returned m0) (round_ok d) (decode_round cb J d)"
proof -
  let ?ps = "unat (now_pos d AND (push_bit (pb (props J)) 1 - 1))"
  have "?ps < 2 ^ pb (props J)" by (rule unat_and_mask)
  also have "\<dots> \<le> 2 ^ 4" using job by (intro power_increasing) (auto simp: job_ok_def)
  finally have ps: "?ps < 16" by simp
  have i: "IsMatch + lz_state d * 16 + ?ps < nprobs"
    using ps d(2) by (intro coder_index) (simp add: good_def sane_def layout_consts)
  have lit: "ok (returned m0) (round_ok d) (bindE (decode_literal cb J e) (\<lambda>d. Inr (Next d)))"
    if e: "calm m0 nprobs e" "same d e" for e
  proof (rule ok_bind [OF decode_literal_ok [OF e(1)]])
    show "good J e" using e(2) d(2) by (rule same_good)
    show "now_pos e < out_size J" using e(2) lt by (simp add: same_def)
  qed (use same_advanced [OF e(2)] in \<open>auto simp: round_ok_def\<close>)
  have mat: "ok (returned m0) (round_ok d) (bindE (decode_match_kind cb J ?ps e) (\<lambda>k. case k of
       ShortRep d \<Rightarrow> Inr (Next d) | WithLength base d \<Rightarrow> decode_match cb J base ?ps d))"
    if e: "calm m0 nprobs e" "same d e" for e
  proof (rule ok_bind [OF decode_match_kind_ok [OF e(1) _ _ ps]])
    show "good J e" using e(2) d(2) by (rule same_good)
    show lt': "now_pos e < out_size J" using e(2) lt by (simp add: same_def)
    fix k assume k: "kind_ok e k"
    show "ok (returned m0) (round_ok d)
        (case k of ShortRep d \<Rightarrow> Inr (Next d) | WithLength base d \<Rightarrow> decode_match cb J base ?ps d)"
    proof (cases k)
      case (ShortRep f)
      then show ?thesis using k same_advanced [OF e(2)] by (simp add: kind_ok_def round_ok_def)
    next
      case (WithLength base f)
      with k have f: "base + kNumLenProbs \<le> nprobs" "calm m0 nprobs f" "sane J f" "now_pos f = now_pos e"
        by (auto simp: kind_ok_def)
      have "ok (returned m0) (round_ok f) (decode_match cb J base ?ps f)"
        using f lt' by (intro decode_match_ok [OF f(2,3) _ f(1) ps]) simp
      moreover have "round_ok f r \<Longrightarrow> round_ok d r" for r
        using f(4) e(2) by (auto simp: round_ok_def advanced_def same_def split: round.splits)
      ultimately show ?thesis using WithLength by (auto elim: ok_weaken)
    qed
  qed
  show ?thesis unfolding decode_round_def Let_def
  proof (rule bit_then [OF d(1) i])
    fix b e assume e: "calm m0 nprobs e" "same d e"
    show "ok (returned m0) (round_ok d)
        (if \<not> b then bindE (decode_literal cb J e) (\<lambda>d. Inr (Next d))
         else bindE (decode_match_kind cb J ?ps e) (\<lambda>k. case k of
           ShortRep d \<Rightarrow> Inr (Next d) | WithLength base d \<Rightarrow> decode_match cb J base ?ps d))"
      using lit [OF e] mat [OF e] by (cases b) (simp_all only: simp_thms if_True if_False)
  qed
qed

lemma decode_loop_ok:
  "calm m0 nprobs d \<Longrightarrow> good J d \<Longrightarrow> unat (out_size J) - unat (now_pos d) \<le> n \<Longrightarrow>
    ok (returned m0) (\<lambda>d'. calm m0 nprobs d' \<and> now_pos d' \<le> out_size J) (decode_loop cb J n d)"
proof (induction n arbitrary: d)
  case 0
  then show ?case by (auto simp: good_def sane_def word_less_nat_alt)
next
  case (Suc n)
  show ?case
  proof (cases "now_pos d < out_size J")
    case True
    have next_ok: "ok (returned m0) (\<lambda>d'. calm m0 nprobs d' \<and> now_pos d' \<le> out_size J)
        (case r of Stop d \<Rightarrow> Inr d | Next d \<Rightarrow> decode_loop cb J n d)" if "round_ok d r" for r
    proof (cases r)
      case (Next e)
      then have "unat (now_pos d) < unat (now_pos e)" "calm m0 nprobs e" "good J e"
        using that by (auto simp: round_ok_def advanced_def)
      then show ?thesis using Next Suc.IH Suc.prems(3) by simp
    qed (use that in \<open>simp add: round_ok_def\<close>)
    show ?thesis using True
      by (simp, intro ok_bind [OF decode_round_ok [OF Suc.prems(1,2) True]] next_ok)
  next
    case False
    then show ?thesis using Suc.prems(1,2) by (simp add: good_def sane_def)
  qed
qed

text \<open>The whole call.\<close>

lemma LzmaDecode_safe:
  assumes "inv m0 p"
  shows "\<exists>r n m p'. LzmaDecode cb J m0 p = (Result r, n, m, p') \<and> n \<le> out_size J \<and>
     inv m p' \<and> (\<forall>x. \<not> touch x \<longrightarrow> \<not> dest x \<longrightarrow> mem m x = mem m0 x)"
proof -
  let ?d = "lzma_start J m0 p"
  have "prob_ok (of_int (drop_bit 1 kBitModelTotal))" by (simp add: prob_ok_def kBitModelTotal_def)
  then have calm: "calm m0 nprobs ?d"
    using assms by (auto simp: calm_def framed_def lzma_start_def nprobs_def LzmaGetNumProbs_def Literal_base)
  have good: "good J ?d"
    by (simp add: good_def sane_def lzma_start_def rep_ok_def layout_consts)
  have "ok (returned m0) (\<lambda>d'. calm m0 nprobs d' \<and> now_pos d' \<le> out_size J)
      (bindE (rc_init cb ?d) (\<lambda>d. bindE (decode_loop cb J (unat (out_size J)) d) (rc_normalize cb)))"
  proof (rule ok_bind [OF rc_init_ok [OF calm]], elim conjE, rule ok_bind [OF decode_loop_ok], assumption)
    show "good J d" if "same ?d d" for d using that good by (rule same_good)
    show "ok (returned m0) (\<lambda>d'. calm m0 nprobs d' \<and> now_pos d' \<le> out_size J) (rc_normalize cb d)"
      if d: "calm m0 nprobs d \<and> now_pos d \<le> out_size J" for d
      using d by (intro ok_weaken [OF rc_normalize_ok [of m0 nprobs]]) (auto simp: same_def)
  qed simp
  then show ?thesis
    by (auto simp: ok_def LzmaDecode_def returned_def calm_def framed_def
        split: sum.splits prod.splits)
qed

end

section \<open>The properties byte\<close>

lemma take_off_eq:
  "0 < k \<Longrightarrow> k < 256 \<Longrightarrow>
     take_off k x n = (n + unat x div k, of_nat (unat x mod k))"
proof (induction k x n rule: take_off.induct)
  case (1 k x n)
  have k: "unat (of_nat k :: u8) = k" using "1.prems" by simp
  show ?case
  proof (cases "of_nat k \<le> x")
    case True
    then have le: "k \<le> unat x" using k by (simp add: word_le_nat_alt)
    have sub: "unat (x - of_nat k) = unat x - k" using True k by (simp add: unat_sub)
    have "unat x div k = Suc ((unat x - k) div k)" "unat x mod k = (unat x - k) mod k"
      using le "1.prems" by (simp_all add: le_div_geq le_mod_geq)
    then show ?thesis using "1.IH" "1.prems" True sub by (subst take_off.simps) simp
  next
    case False
    then have "unat x < k" using k by (simp add: word_le_nat_alt)
    then show ?thesis using False by (subst take_off.simps) simp
  qed
qed

text \<open>The byte is \<open>lc + 9 * (lp + 5 * pb)\<close>; 225 and more are refused.\<close>

lemma LzmaDecodeProperties_ok:
  assumes "5 \<le> sz" and "bs ! 0 < 225"
  shows "\<exists>pr. LzmaDecodeProperties bs sz pr0 = (LZMA_RESULT_OK, pr) \<and>
    unat (bs ! 0) = lc pr + 9 * (lp pr + 5 * pb pr) \<and> lc pr < 9 \<and> lp pr < 5 \<and> pb pr < 5"
proof -
  let ?x = "unat (bs ! 0)"
  have x: "?x < 225" using assms(2) by (simp add: word_less_nat_alt)
  have r: "unat (of_nat (?x mod 45) :: u8) = ?x mod 45" "unat (of_nat (?x mod 45 mod 9) :: u8) = ?x mod 45 mod 9"
    by (simp_all add: less_trans [OF mod_less_divisor])
  have "?x = 45 * (?x div 45) + ?x mod 45" "?x mod 45 = 9 * (?x mod 45 div 9) + ?x mod 45 mod 9" by simp_all
  moreover have "?x div 45 < 5" "?x mod 45 div 9 < 5" "?x mod 45 mod 9 < 9"
    using x by (simp_all add: div_less_iff_less_mult)
  moreover have "\<not> 225 \<le> bs ! 0" using assms(2) by simp
  ultimately show ?thesis using assms(1) r
    by (simp add: LzmaDecodeProperties_def take_off_eq LZMA_PROPERTIES_SIZE_def Let_def)
qed

lemma LzmaDecodeProperties_bad:
  "sz < 5 \<or> 225 \<le> bs ! 0 \<Longrightarrow> LzmaDecodeProperties bs sz pr0 = (LZMA_RESULT_DATA_ERROR, pr0)"
  by (auto simp: LzmaDecodeProperties_def LZMA_PROPERTIES_SIZE_def)

end
