(* ===== verification/Platio.thy ===== *)
theory Platio
  imports Promlib
begin

text \<open>
  The flash file system of \<^verbatim>\<open>mach/*/platio.c\<close> and \<^verbatim>\<open>mach/*/platform.c\<close>, and the open files of
  \<^verbatim>\<open>ciloio.c\<close>. The flash is part of the address space: a chain of directory entries
  (\<open>struct fs_ent\<close>), each followed by the file's bytes. A structure is read from memory
  big-endian, field by field, at the offsets of its C layout.
\<close>

section \<open>Layout of a directory entry\<close>

fun FLASH_BASE :: "platform \<Rightarrow> addr" where
  "FLASH_BASE C1700 = 0x60000000"
| "FLASH_BASE C3600 = 0x30000000"
| "FLASH_BASE C7200 = 0xBA040000" \<comment> \<open>\<open>FLASHFS_BASE\<close> there\<close>

fun FS_FILE_MAGIC :: "platform \<Rightarrow> u32" where
  "FS_FILE_MAGIC C1700 = 0xbad00b1e"
| "FS_FILE_MAGIC C3600 = 0xbad00b1e"
| "FS_FILE_MAGIC C7200 = 0x07158805"

text \<open>\<open>sizeof(struct fs_ent)\<close>, the offsets of \<open>length\<close> and \<open>filename\<close>, and the width of
  \<open>filename\<close>.\<close>

fun fs_ent_size :: "platform \<Rightarrow> u32" where
  "fs_ent_size C1700 = 64"
| "fs_ent_size C3600 = 64"
| "fs_ent_size C7200 = 128"

fun fs_ent_length_off :: "platform \<Rightarrow> u32" where
  "fs_ent_length_off C1700 = 4"
| "fs_ent_length_off C3600 = 4"
| "fs_ent_length_off C7200 = 72"

fun fs_ent_filename_off :: "platform \<Rightarrow> u32" where
  "fs_ent_filename_off C1700 = 16"
| "fs_ent_filename_off C3600 = 16"
| "fs_ent_filename_off C7200 = 8"

fun filename_width :: "platform \<Rightarrow> u32" where
  "filename_width C1700 = 48"
| "filename_width C3600 = 48"
| "filename_width C7200 = 64"

definition fs_ent_magic :: "mem \<Rightarrow> addr \<Rightarrow> u32" where
  "fs_ent_magic m f = u32_of BE (mem_read m f 4)"

definition fs_ent_length :: "platform \<Rightarrow> mem \<Rightarrow> addr \<Rightarrow> u32" where
  "fs_ent_length p m f = u32_of BE (mem_read m (f + fs_ent_length_off p) 4)"

section \<open>Directory operations\<close>

text \<open>The initialization of the board, empty on all three.\<close>

definition platform_init :: "machine \<Rightarrow> machine" where
  "platform_init st = st"

definition check_flash :: "platform \<Rightarrow> mem \<Rightarrow> u32" where
  "check_flash p m = (if fs_ent_magic m (FLASH_BASE p) \<noteq> FS_FILE_MAGIC p then 0 else 1)"

text \<open>A chain whose offsets wrap around can send the loop round for ever.\<close>

partial_function (option) find_file_loop ::
    "platform \<Rightarrow> mem \<Rightarrow> addr \<Rightarrow> addr \<Rightarrow> u32 \<Rightarrow> addr option" where
  "find_file_loop p m fname base offset =
     (if fs_ent_magic m (base + offset) = FS_FILE_MAGIC p then
        if strncmp m (base + offset + fs_ent_filename_off p) fname (filename_width p) = 0
        then Some (base + offset)
        else find_file_loop p m fname base
               (offset + (fs_ent_size p + fs_ent_length p m (base + offset)))
      else Some 0)"

declare find_file_loop.simps [code]

definition find_file :: "platform \<Rightarrow> mem \<Rightarrow> addr \<Rightarrow> addr \<Rightarrow> addr option" where
  "find_file p m fname base = find_file_loop p m fname base 0"

definition c1700_find_file :: "mem \<Rightarrow> addr \<Rightarrow> addr \<Rightarrow> addr option" where
  "c1700_find_file = find_file C1700"

definition c3600_find_file :: "mem \<Rightarrow> addr \<Rightarrow> addr \<Rightarrow> addr option" where
  "c3600_find_file = find_file C3600"

definition c7200_find_file :: "mem \<Rightarrow> addr \<Rightarrow> addr \<Rightarrow> addr option" where
  "c7200_find_file = find_file C7200"

definition platio_find_file :: "platform \<Rightarrow> mem \<Rightarrow> addr \<Rightarrow> u8 option" where
  "platio_find_file p m fname =
     (case find_file p m fname (FLASH_BASE p) of None \<Rightarrow> None
      | Some ent \<Rightarrow> Some (if ent \<noteq> 0 then 1 else 0))"

text \<open>The directory listing: every name through \<open>printf\<close>, whose stack buffer is at \<open>sp\<close>.\<close>

partial_function (option) flash_directory_loop ::
    "platform \<Rightarrow> addr \<Rightarrow> machine \<Rightarrow> u32 \<Rightarrow> machine option" where
  "flash_directory_loop p sp st offset =
     (let f = FLASH_BASE p + offset
      in if fs_ent_magic (mem st) f = FS_FILE_MAGIC p then
           (case printf p sp st ''%s\<newline>'' [f + fs_ent_filename_off p] of None \<Rightarrow> None
            | Some st' \<Rightarrow> flash_directory_loop p sp st'
                (offset + (fs_ent_size p + fs_ent_length p (mem st') f)))
         else Some st)"

declare flash_directory_loop.simps [code]

definition flash_directory :: "platform \<Rightarrow> addr \<Rightarrow> machine \<Rightarrow> machine option" where
  "flash_directory p sp st = flash_directory_loop p sp st 0"

section \<open>Open files\<close>

record cfile =
  f_dev :: u8
  file_len :: u32
  file_pos :: u32
  f_name :: "u8 list" \<comment> \<open>128 bytes\<close>
  f_code :: u8 \<comment> \<open>\<open>int8_t\<close>: \<open>-1\<close> is 255\<close>
  f_private :: addr

text \<open>\<open>strncpy\<close> into the 128-byte name of the structure: the bytes it stores at the front.\<close>

definition platio_file_open :: "platform \<Rightarrow> mem \<Rightarrow> cfile \<Rightarrow> addr \<Rightarrow> cfile option" where
  "platio_file_open p m fp fname =
     (case find_file p m fname (FLASH_BASE p) of None \<Rightarrow> None
      | Some ent \<Rightarrow>
          if ent = 0 then Some (fp\<lparr>f_code := 0, f_private := 0\<rparr>)
          else
            let w = unat (filename_width p) in
            Some (fp\<lparr>f_dev := 1, f_private := ent, file_len := fs_ent_length p m ent, file_pos := 0,
              f_name := padded_field m (ent + fs_ent_filename_off p) w @ drop w (f_name fp),
              f_code := 1\<rparr>))"

definition platio_read ::
    "platform \<Rightarrow> mem \<Rightarrow> addr \<Rightarrow> u32 \<Rightarrow> u32 \<Rightarrow> cfile \<Rightarrow> mem \<times> cfile \<times> u32" where
  "platio_read p m pbuf sz nmemb fp =
     (let from = f_private fp + fs_ent_size p + file_pos fp;
          (m', _) = memcpy m pbuf from (sz * nmemb)
      in (m', fp\<lparr>file_pos := file_pos fp + sz * nmemb\<rparr>, nmemb * sz))"

text \<open>The local \<open>struct file fp\<close> of \<open>cilo_open\<close> is uninitialised: \<open>fp0\<close> is what it holds.\<close>

definition cilo_open :: "platform \<Rightarrow> mem \<Rightarrow> cfile \<Rightarrow> addr \<Rightarrow> cfile option" where
  "cilo_open p m fp0 fname =
     (case platio_find_file p m fname of None \<Rightarrow> None
      | Some found \<Rightarrow>
          if found = 0 then Some (fp0\<lparr>f_code := -1\<rparr>)
          else platio_file_open p m fp0 fname)"

definition cilo_read ::
    "platform \<Rightarrow> mem \<Rightarrow> addr \<Rightarrow> u32 \<Rightarrow> u32 \<Rightarrow> cfile \<Rightarrow> mem \<times> cfile \<times> u32" where
  "cilo_read p m pbuf sz nmemb fp = platio_read p m pbuf sz nmemb fp"

definition SEEK_SET :: u8 where "SEEK_SET = 9"
definition SEEK_CUR :: u8 where "SEEK_CUR = 1"
definition SEEK_END :: u8 where "SEEK_END = 2"

text \<open>\<open>cilo_seek\<close> returns 0 on every path; the position is clamped to the file length. The
  sum of \<open>SEEK_CUR\<close> wraps around.\<close>

definition cilo_seek :: "cfile \<Rightarrow> u32 \<Rightarrow> u8 \<Rightarrow> cfile" where
  "cilo_seek fp offset whence =
     (if whence = SEEK_SET then
        if offset > file_len fp then fp\<lparr>file_pos := file_len fp\<rparr>
        else fp\<lparr>file_pos := offset\<rparr>
      else if whence = SEEK_CUR then
        if offset + file_pos fp > file_len fp then fp\<lparr>file_pos := file_len fp\<rparr>
        else fp\<lparr>file_pos := file_pos fp + offset\<rparr>
      else if whence = SEEK_END then fp\<lparr>file_pos := file_len fp\<rparr>
      else fp)"

definition cilo_tell :: "cfile \<Rightarrow> u32" where
  "cilo_tell fp = file_pos fp"

section \<open>The directory as a list of files\<close>

text \<open>
  \<open>flash_dir p m f es\<close>: from address \<open>f\<close> the flash holds exactly the files \<open>es\<close> (name and
  bytes), ended by something that is not a directory entry. The name is what the fixed-width
  field holds up to a NUL.
\<close>

fun flash_dir :: "platform \<Rightarrow> mem \<Rightarrow> addr \<Rightarrow> (u8 list \<times> u8 list) list \<Rightarrow> bool" where
  "flash_dir p m f [] \<longleftrightarrow> fs_ent_magic m f \<noteq> FS_FILE_MAGIC p"
| "flash_dir p m f ((name, data) # es) \<longleftrightarrow>
     f \<noteq> 0 \<and> fs_ent_magic m f = FS_FILE_MAGIC p \<and>
     field_str m (f + fs_ent_filename_off p) (unat (filename_width p)) = name \<and>
     length data < 2 ^ 31 \<and> fs_ent_length p m f = of_nat (length data) \<and>
     mem_read m (f + fs_ent_size p) (length data) = data \<and>
     flash_dir p m (f + (fs_ent_size p + of_nat (length data))) es"

fun entry_addr :: "platform \<Rightarrow> addr \<Rightarrow> (u8 list \<times> u8 list) list \<Rightarrow> u8 list \<Rightarrow> addr" where
  "entry_addr p f [] name = 0"
| "entry_addr p f ((n, data) # es) name =
     (if n = name then f else entry_addr p (f + (fs_ent_size p + of_nat (length data))) es name)"

lemma find_file_loop_dir:
  "flash_dir p m (base + offset) es \<Longrightarrow>
     find_file_loop p m fname base offset =
       Some (entry_addr p (base + offset) es (field_str m fname (unat (filename_width p))))"
proof (induction es arbitrary: offset)
  case Nil
  then show ?case by (subst find_file_loop.simps) simp
next
  case (Cons e es)
  obtain name data where e: "e = (name, data)" by (cases e)
  have "find_file_loop p m fname base (offset + (fs_ent_size p + of_nat (length data))) =
      Some (entry_addr p (base + (offset + (fs_ent_size p + of_nat (length data)))) es
        (field_str m fname (unat (filename_width p))))"
    using Cons.prems e by (intro Cons.IH) (simp add: add.assoc)
  with Cons.prems e show ?case
    by (subst find_file_loop.simps) (auto simp: strncmp_eq add.assoc)
qed

lemma find_file_dir:
  "flash_dir p m base es \<Longrightarrow>
     find_file p m fname base = Some (entry_addr p base es (field_str m fname (unat (filename_width p))))"
  using find_file_loop_dir [of p m base 0] by (simp add: find_file_def)

text \<open>The entry found is the first of that name, with its length and bytes.\<close>

lemma entry_addr_None: "map_of es name = None \<Longrightarrow> entry_addr p f es name = 0"
  by (induction es arbitrary: f) (auto split: if_splits)

lemma entry_addr_Some:
  "flash_dir p m f es \<Longrightarrow> map_of es name = Some data \<Longrightarrow>
     entry_addr p f es name \<noteq> 0 \<and> length data < 2 ^ 31 \<and>
     fs_ent_length p m (entry_addr p f es name) = of_nat (length data) \<and>
     mem_read m (entry_addr p f es name + fs_ent_size p) (length data) = data \<and>
     field_str m (entry_addr p f es name + fs_ent_filename_off p) (unat (filename_width p)) = name"
  by (induction es arbitrary: f) (auto split: if_splits)

text \<open>The bytes the directory takes up, with the word that ends it.\<close>

fun dir_span :: "platform \<Rightarrow> (u8 list \<times> u8 list) list \<Rightarrow> nat" where
  "dir_span p [] = 4"
| "dir_span p ((name, data) # es) = unat (fs_ent_size p) + length data + dir_span p es"

lemma fs_ent_fits:
  "unat (fs_ent_length_off p) + 4 \<le> unat (fs_ent_size p)"
  "unat (fs_ent_filename_off p) + unat (filename_width p) \<le> unat (fs_ent_size p)"
  "4 \<le> unat (fs_ent_size p)"
  by (cases p; simp)+

lemma flash_dir_frame:
  "flash_dir p m f es \<Longrightarrow> (\<And>x. in_range f (dir_span p es) x \<Longrightarrow> m' x = m x) \<Longrightarrow>
     dir_span p es \<le> 2 ^ 32 \<Longrightarrow> flash_dir p m' f es"
proof (induction es arbitrary: f)
  case Nil
  then show ?case using mem_read_frame [of f 4 m' m 0 4] by (simp add: fs_ent_magic_def)
next
  case (Cons e es)
  obtain name data where e: "e = (name, data)" by (cases e)
  let ?N = "dir_span p (e # es)" and ?k = "unat (fs_ent_size p) + length data"
  have rd: "mem_read m' (f + of_nat k) n = mem_read m (f + of_nat k) n" if "k + n \<le> ?N" for k n
    using Cons.prems(2) that Cons.prems(3) by (rule mem_read_frame)
  have hd: "fs_ent_magic m' f = fs_ent_magic m f" "fs_ent_length p m' f = fs_ent_length p m f"
    "field_str m' (f + fs_ent_filename_off p) (unat (filename_width p)) =
     field_str m (f + fs_ent_filename_off p) (unat (filename_width p))"
    "mem_read m' (f + fs_ent_size p) (length data) = mem_read m (f + fs_ent_size p) (length data)"
    using rd [of 0 4] rd [of "unat (fs_ent_length_off p)" 4] rd [of "unat (fs_ent_size p)" "length data"]
      rd [of "unat (fs_ent_filename_off p)" "unat (filename_width p)"] fs_ent_fits [of p] e
    by (simp_all add: fs_ent_magic_def fs_ent_length_def field_str_def)
  have "flash_dir p m' (f + (fs_ent_size p + of_nat (length data))) es"
  proof (rule Cons.IH)
    show "flash_dir p m (f + (fs_ent_size p + of_nat (length data))) es"
      using Cons.prems(1) e by simp
    show "dir_span p es \<le> 2 ^ 32" using Cons.prems(3) e by simp
    fix x assume "in_range (f + (fs_ent_size p + of_nat (length data))) (dir_span p es) x"
    then have "in_range (f + of_nat ?k) (dir_span p es) x" by simp
    then have "in_range f (?k + dir_span p es) x"
      using Cons.prems(3) e by (intro in_range_shift) simp_all
    then show "m' x = m x" using Cons.prems(2) e by simp
  qed
  then show ?case using Cons.prems(1) e hd by simp
qed

text \<open>The file found lies within those bytes.\<close>

lemma entry_addr_within:
  "map_of es name = Some data \<Longrightarrow>
     \<exists>i. entry_addr p f es name + fs_ent_size p = f + of_nat i \<and> i + length data \<le> dir_span p es"
proof (induction es arbitrary: f)
  case (Cons e es)
  obtain n d where e: "e = (n, d)" by (cases e)
  show ?case
  proof (cases "n = name")
    case True
    then show ?thesis using Cons.prems e by (intro exI [of _ "unat (fs_ent_size p)"]) simp
  next
    case False
    with Cons e obtain i where
      "entry_addr p (f + (fs_ent_size p + of_nat (length d))) es name + fs_ent_size p
        = f + (fs_ent_size p + of_nat (length d)) + of_nat i" "i + length data \<le> dir_span p es"
      by fastforce
    then show ?thesis using False e
      by (intro exI [of _ "unat (fs_ent_size p) + length d + i"]) (simp add: algebra_simps)
  qed
qed simp

section \<open>Opening a file\<close>

text \<open>An open file is backed by \<open>data\<close> when its structure says where those bytes are.\<close>

definition file_base :: "platform \<Rightarrow> cfile \<Rightarrow> addr" where
  "file_base p fp = f_private fp + fs_ent_size p"

definition backed :: "platform \<Rightarrow> mem \<Rightarrow> cfile \<Rightarrow> u8 list \<Rightarrow> bool" where
  "backed p m fp data \<longleftrightarrow>
     file_len fp = of_nat (length data) \<and> image_at m (file_base p fp) data"

lemma platio_find_file_dir:
  assumes "flash_dir p m (FLASH_BASE p) es"
  shows "platio_find_file p m fname =
    Some (if map_of es (field_str m fname (unat (filename_width p))) = None then 0 else 1)"
  using find_file_dir [OF assms, of fname] entry_addr_None entry_addr_Some [OF assms]
  by (cases "map_of es (field_str m fname (unat (filename_width p)))")
    (simp_all add: platio_find_file_def)

lemma cilo_open_dir:
  assumes "flash_dir p m (FLASH_BASE p) es"
    and name_def: "name = field_str m fname (unat (filename_width p))"
  shows "\<exists>fp. cilo_open p m fp0 fname = Some fp \<and>
    (case map_of es name of
       None \<Rightarrow> f_code fp = -1
     | Some data \<Rightarrow> f_code fp = 1 \<and> file_pos fp = 0 \<and> backed p m fp data \<and>
         file_base p fp = entry_addr p (FLASH_BASE p) es name + fs_ent_size p)"
proof (cases "map_of es name")
  case None
  then show ?thesis using platio_find_file_dir [OF assms(1), of fname]
    by (simp add: cilo_open_def name_def)
next
  case (Some data)
  let ?ent = "entry_addr p (FLASH_BASE p) es name"
  have "find_file p m fname (FLASH_BASE p) = Some ?ent"
    using find_file_dir [OF assms(1)] by (simp add: name_def)
  then show ?thesis
    using Some platio_find_file_dir [OF assms(1), of fname] entry_addr_Some [OF assms(1) Some]
    by (simp add: cilo_open_def platio_file_open_def name_def backed_def file_base_def image_at_def Let_def)
qed

section \<open>Seeking and reading\<close>

text \<open>
  What the loaders rely on of an open file: an absolute seek, a sequential read that stores
  the bytes found at the position and advances it, and neither touching anything else.
\<close>

locale file_io =
  fixes seek :: "'f \<Rightarrow> u32 \<Rightarrow> 'f"
    and read :: "(addr \<Rightarrow> u8) \<Rightarrow> addr \<Rightarrow> u32 \<Rightarrow> 'f \<Rightarrow> (addr \<Rightarrow> u8) \<times> 'f"
    and pos :: "'f \<Rightarrow> u32"
    and len :: "'f \<Rightarrow> u32"
    and base :: "'f \<Rightarrow> addr"
  assumes seek_pos: "pos (seek f off) = min off (len f)"
    and seek_len: "len (seek f off) = len f"
    and seek_base: "base (seek f off) = base f"
    and read_pos: "pos (snd (read m a n f)) = pos f + n"
    and read_len: "len (snd (read m a n f)) = len f"
    and read_base: "base (snd (read m a n f)) = base f"
    and read_mem: "a \<noteq> 0 \<Longrightarrow> base f + pos f \<noteq> 0 \<Longrightarrow> unat n < 2 ^ 31 \<Longrightarrow>
      apart a (unat n) (base f + pos f) (unat n) \<Longrightarrow>
      fst (read m a n f) = mem_write m a (mem_read m (base f + pos f) (unat n))"
    and read_outside: "\<not> in_range a (nat (sint n)) x \<Longrightarrow> fst (read m a n f) x = m x"
begin

lemma seek_pos_within:
  "len f = of_nat n \<Longrightarrow> n < 2 ^ 31 \<Longrightarrow> k \<le> n \<Longrightarrow> pos (seek f (of_nat k)) = of_nat k"
  by (simp add: seek_pos min_def word_le_nat_alt)

lemma seek_bounded: "pos (seek f off) \<le> len f"
  by (simp add: seek_pos)

text \<open>Reading \<open>n\<close> bytes at offset \<open>k\<close> of the file stores exactly those bytes.\<close>

lemma read_at:
  assumes "image_at m (base f) data" and "pos f = of_nat k" and "k + n \<le> length data"
    and "a \<noteq> 0" and "apart (base f) (length data) a n" and "base f + of_nat k \<noteq> 0"
  shows "fst (read m a (of_nat n) f) = mem_write m a (take n (drop k data))"
    and "pos (snd (read m a (of_nat n) f)) = of_nat (k + n)"
proof -
  have n: "unat (of_nat n :: u32) = n" and lt: "n < 2 ^ 31"
    using assms(1,3) by (auto simp: image_at_def)
  have "apart a n (base f + of_nat k) n"
    using apart_part [OF assms(5,3)] by (cases "n = 0") (auto simp: apart_def)
  then have "fst (read m a (of_nat n) f) = mem_write m a (mem_read m (base f + of_nat k) n)"
    using read_mem [of a f "of_nat n" m] assms(2,4,6) n lt by simp
  then show "fst (read m a (of_nat n) f) = mem_write m a (take n (drop k data))"
    using image_at_part [OF assms(1,3)] by simp
  show "pos (snd (read m a (of_nat n) f)) = of_nat (k + n)"
    by (simp add: read_pos assms(2))
qed

text \<open>The same after a seek, with the file itself still intact.\<close>

lemma seek_read_at:
  assumes "image_at m (base f) data" and "len f = of_nat (length data)" and "k + n \<le> length data"
    and "a \<noteq> 0" and "apart (base f) (length data) a n" and "base f + of_nat k \<noteq> 0"
  shows "fst (read m a (of_nat n) (seek f (of_nat k))) = mem_write m a (take n (drop k data))"
    and "image_at (fst (read m a (of_nat n) (seek f (of_nat k)))) (base f) data"
proof -
  have "pos (seek f (of_nat k)) = of_nat k"
    using assms(1,2,3) by (intro seek_pos_within) (auto simp: image_at_def)
  then show eq: "fst (read m a (of_nat n) (seek f (of_nat k))) = mem_write m a (take n (drop k data))"
    using read_at(1) [of m "seek f (of_nat k)" data k n a] assms by (simp add: seek_base)
  show "image_at (fst (read m a (of_nat n) (seek f (of_nat k)))) (base f) data"
    unfolding eq using assms(1,3,5) by (intro image_at_write) auto
qed

end

text \<open>The operations of \<^verbatim>\<open>ciloio.c\<close> on each platform provide this interface.\<close>

definition seek_set :: "cfile \<Rightarrow> u32 \<Rightarrow> cfile" where
  "seek_set fp off = cilo_seek fp off SEEK_SET"

definition read_bytes :: "platform \<Rightarrow> (addr \<Rightarrow> u8) \<Rightarrow> addr \<Rightarrow> u32 \<Rightarrow> cfile \<Rightarrow> (addr \<Rightarrow> u8) \<times> cfile" where
  "read_bytes p m a n fp = (case cilo_read p m a n 1 fp of (m', fp', _) \<Rightarrow> (m', fp'))"

lemma read_bytes_eq:
  "read_bytes p m a n fp =
     (fst (memcpy m a (file_base p fp + file_pos fp) n), fp\<lparr>file_pos := file_pos fp + n\<rparr>)"
  by (simp add: read_bytes_def cilo_read_def platio_read_def file_base_def Let_def split: prod.splits)

interpretation cio: file_io seek_set "read_bytes p" file_pos file_len "file_base p"
proof unfold_locales
  show "file_pos (seek_set f off) = min off (file_len f)" for f off
    by (auto simp: seek_set_def cilo_seek_def min_def not_less)
  show "file_len (seek_set f off) = file_len f" for f off
    by (simp add: seek_set_def cilo_seek_def SEEK_SET_def SEEK_CUR_def SEEK_END_def)
  show "file_base p (seek_set f off) = file_base p f" for f off
    by (simp add: seek_set_def cilo_seek_def file_base_def SEEK_SET_def)
qed (simp_all add: read_bytes_eq file_base_def memcpy_eq memcpy_outside)

lemma file_base_pos [simp]: "file_base p (fp\<lparr>file_pos := x\<rparr>) = file_base p fp"
  by (simp add: file_base_def)

lemma cilo_read_io:
  "cilo_read p m a n 1 fp =
     (fst (read_bytes p m a n fp), fp\<lparr>file_pos := file_pos fp + n\<rparr>, n)"
  by (simp add: read_bytes_eq cilo_read_def platio_read_def file_base_def Let_def split: prod.splits)

text \<open>Reading a piece of a file into a local object, with the file left intact.\<close>

lemma local_read:
  assumes img: "image_at m (file_base p fp) data" and k: "file_pos fp = of_nat k" "k + n \<le> length data"
    and b: "file_base p fp \<noteq> 0" "unat (file_base p fp) + length data < 2 ^ 32"
    and a: "a \<noteq> 0" "apart (file_base p fp) (length data) a n"
  shows "cilo_read p m a (of_nat n) 1 fp =
      (mem_write m a (take n (drop k data)), fp\<lparr>file_pos := of_nat (k + n)\<rparr>, of_nat n)"
    and "image_at (mem_write m a (take n (drop k data))) (file_base p fp) data"
    and "mem_read (mem_write m a (take n (drop k data))) a n = take n (drop k data)"
proof -
  have len: "length (take n (drop k data)) = n" using k(2) by simp
  have nz: "file_base p fp + of_nat k \<noteq> 0"
    using b k(2) by (intro base_offset_nonzero) auto
  show "cilo_read p m a (of_nat n) 1 fp =
      (mem_write m a (take n (drop k data)), fp\<lparr>file_pos := of_nat (k + n)\<rparr>, of_nat n)"
    using cio.read_at(1) [OF img k a nz] by (simp add: cilo_read_io k(1))
  show "image_at (mem_write m a (take n (drop k data))) (file_base p fp) data"
    using img a(2) len by (intro image_at_write) simp_all
  show "mem_read (mem_write m a (take n (drop k data))) a n = take n (drop k data)"
    using mem_read_write_same [of "take n (drop k data)" m a] len k(2) img
    by (simp add: image_at_def)
qed

text \<open>Only the product of the two sizes matters.\<close>

lemma cilo_read_items: "cilo_read p m a 1 n fp = cilo_read p m a n 1 fp"
  by (simp add: cilo_read_def platio_read_def)

section \<open>Listing the directory\<close>

text \<open>Names that end within their field, none of them where \<open>printf\<close> has its buffer.\<close>

definition listable :: "platform \<Rightarrow> addr \<Rightarrow> addr \<Rightarrow> (u8 list \<times> u8 list) list \<Rightarrow> bool" where
  "listable p sp f es \<longleftrightarrow> apart sp 1024 f (dir_span p es) \<and> f \<noteq> 0 \<and> unat f + dir_span p es < 2 ^ 32 \<and>
     (\<forall>(name, data) \<in> set es. length name < unat (filename_width p))"

definition listing :: "platform \<Rightarrow> (u8 list \<times> u8 list) list \<Rightarrow> u8 list" where
  "listing p es = concat (map (\<lambda>(name, data). console_text p (name @ [10])) es)"

lemma printf_name:
  assumes "cstr (mem st) a name" and "a \<noteq> 0" and "apart sp 1024 a (Suc (length name))" and "length name < 1023"
  shows "printf p sp st ''%s\<newline>'' [a] = Some (st\<lparr>con_out := con_out st @ console_text p (name @ [10])\<rparr>)"
  using printf_text_s [OF assms(1-3), of "[]" "''\<newline>''"] assms(4) by (simp add: plain_text_def)

lemma flash_directory_loop_lists:
  "flash_dir p (mem st) (FLASH_BASE p + off) es \<Longrightarrow> listable p sp (FLASH_BASE p + off) es \<Longrightarrow>
     flash_directory_loop p sp st off = Some (st\<lparr>con_out := con_out st @ listing p es\<rparr>)"
proof (induction es arbitrary: st off)
  case Nil
  then show ?case by (subst flash_directory_loop.simps) (simp add: listing_def)
next
  case (Cons e es)
  obtain name data where e: "e = (name, data)" by (cases e)
  let ?f = "FLASH_BASE p + off" and ?k = "unat (fs_ent_size p) + length data"
  let ?st = "st\<lparr>con_out := con_out st @ console_text p (name @ [10])\<rparr>"
  have sp: "apart sp 1024 ?f (?k + dir_span p es)" "?f \<noteq> 0" "unat ?f + (?k + dir_span p es) < 2 ^ 32"
    and len: "length name < unat (filename_width p)"
    using Cons.prems(2) by (auto simp: listable_def e)
  have str: "cstr (mem st) (?f + fs_ent_filename_off p) name"
    using Cons.prems(1) len by (intro field_str_terminated) (auto simp: e)
  have w: "unat (filename_width p) \<le> 64" by (cases p) simp_all
  have fits: "unat (fs_ent_filename_off p) + Suc (length name) \<le> ?k + dir_span p es"
    using len fs_ent_fits(2) [of p] by linarith
  have "apart (?f + of_nat (unat (fs_ent_filename_off p))) (Suc (length name)) sp 1024"
    using sp(1) by (intro apart_part [OF _ fits]) (simp_all add: apart_sym)
  then have "printf p sp st ''%s\<newline>'' [?f + fs_ent_filename_off p] = Some ?st"
    using str len w fits base_offset_nonzero [OF sp(2,3), of "unat (fs_ent_filename_off p)"]
    by (intro printf_name) (simp_all add: apart_sym)
  moreover have "flash_directory_loop p sp ?st (off + (fs_ent_size p + of_nat (length data))) =
      Some (?st\<lparr>con_out := con_out ?st @ listing p es\<rparr>)"
  proof (rule Cons.IH)
    show "flash_dir p (mem ?st) (FLASH_BASE p + (off + (fs_ent_size p + of_nat (length data)))) es"
      using Cons.prems(1) by (simp add: e add.assoc)
    have at: "FLASH_BASE p + (off + (fs_ent_size p + of_nat (length data))) = ?f + of_nat ?k"
      by (simp add: add.assoc)
    have "0 < dir_span p es" using fs_ent_fits(3) [of p] by (cases es) auto
    then have "apart (?f + of_nat ?k) (dir_span p es) sp 1024"
      by (intro apart_part [OF sp(1) [unfolded apart_sym [of sp]]]) simp_all
    moreover have "unat (?f + of_nat ?k) = unat ?f + ?k"
      using sp(3) by (simp add: unat_word_ariths unat_of_nat)
    moreover have "?f + of_nat ?k \<noteq> 0"
      by (rule base_offset_nonzero [OF sp(2,3)]) simp
    ultimately show "listable p sp (FLASH_BASE p + (off + (fs_ent_size p + of_nat (length data)))) es"
      using Cons.prems(2) sp(3) unfolding listable_def at by (auto simp: apart_sym e)
  qed
  ultimately show ?case
    using Cons.prems(1) by (subst flash_directory_loop.simps) (simp add: e Let_def listing_def)
qed

lemma seek_codes [simp]: "SEEK_SET \<noteq> SEEK_CUR" "SEEK_SET \<noteq> SEEK_END" "SEEK_CUR \<noteq> SEEK_END"
    "SEEK_CUR \<noteq> SEEK_SET" "SEEK_END \<noteq> SEEK_SET" "SEEK_END \<noteq> SEEK_CUR"
  by code_simp+

section \<open>A small flash\<close>

text \<open>The flash of a C3600 with one file of three bytes, named \<open>k\<close>, for the examples.\<close>

definition small_flash :: mem where
  "small_flash = mem_write (\<lambda>_. 0) 0x30000000
     ([0xba, 0xd0, 0x0b, 0x1e, 0, 0, 0, 3, 0, 0, 0, 0, 0, 0, 0, 0, 107] @ replicate 47 0 @ [1, 2, 3, 0, 0, 0, 0])"

lemma small_flash_dir: "flash_dir C3600 small_flash (FLASH_BASE C3600) [([107], [1, 2, 3])]"
proof -
  let ?F = "[0xba, 0xd0, 0x0b, 0x1e, 0, 0, 0, 3, 0, 0, 0, 0, 0, 0, 0, 0, 107] @ replicate 47 0 @ [1, 2, 3, 0, 0, 0, 0] :: u8 list"
  have "mem_read small_flash 0x30000000 71 = ?F"
    using mem_read_write_same [of ?F "\<lambda>_. 0" "0x30000000"] by (simp add: small_flash_def del: mem_write.simps)
  then have rd: "mem_read small_flash (0x30000000 + of_nat k) n = take n (drop k ?F)" if "k + n \<le> 71" for k n
    using sub_mem_read [OF that, of small_flash "0x30000000"] by simp
  have "mem_read small_flash 0x30000040 (Suc (Suc (Suc 0))) = [1, 2, 3]"
    using rd [of 64 3] by (simp add: numeral_3_eq_3)
  then show ?thesis
    using rd [of 0 4] rd [of 4 4] rd [of 16 48] rd [of 67 4]
    by (simp add: fs_ent_magic_def fs_ent_length_def field_str_def be32_def)
qed

section \<open>Properties\<close>

text \<open>C25: opening a file by name is a lookup in the directory: the first entry of that name is
  opened at its start, with its length and its bytes behind it, and a name that is not there
  gives the error code \<open>-1\<close>. Names are compared up to the width of the entry's field.\<close>

theorem cilo_open_looks_up:
  assumes "flash_dir p m (FLASH_BASE p) es"
  shows "\<exists>fp. cilo_open p m fp0 fname = Some fp \<and>
    (case map_of es (field_str m fname (unat (filename_width p))) of
       None \<Rightarrow> f_code fp = -1
     | Some data \<Rightarrow> f_code fp = 1 \<and> file_pos fp = 0 \<and> backed p m fp data)"
  using cilo_open_dir [OF assms refl, of fp0 fname] by (fastforce split: option.splits)

lemma cilo_open_looks_up_witness:
  "\<forall>fp0. \<exists>fp. cilo_open C3600 (mem_write small_flash 0x100 [107, 0]) fp0 0x100 = Some fp \<and> f_code fp = 1 \<and> file_len fp = 3"
proof -
  let ?m = "mem_write small_flash 0x100 [107, 0]"
  have "flash_dir C3600 ?m (FLASH_BASE C3600) [([107], [1, 2, 3])]"
    by (rule flash_dir_frame [OF small_flash_dir]) (auto simp: in_range_def)
  moreover have "cstr ?m 0x100 [107]" by simp
  then have "field_str ?m 0x100 (unat (filename_width C3600)) = [107]"
    using field_str_cstr [of ?m "0x100" "[107]"] by (simp del: mem_write.simps)
  ultimately show ?thesis
    using cilo_open_looks_up [of C3600 ?m "[([107], [1, 2, 3])]" _ "0x100"] by (auto simp: backed_def)
qed

text \<open>C26: the directory listing prints the name of every file of the flash, one per line and in
  the order of the flash, and ends.\<close>

theorem flash_directory_lists:
  assumes "flash_dir p (mem st) (FLASH_BASE p) es" and "listable p sp (FLASH_BASE p) es"
  shows "flash_directory p sp st = Some (st\<lparr>con_out := con_out st @ listing p es\<rparr>)"
  using flash_directory_loop_lists [of p st 0 es sp] assms by (simp add: flash_directory_def)

lemma flash_directory_lists_witness:
  "flash_directory C3600 0x80020000 \<lparr>mem = small_flash, con_in = [], con_out = []\<rparr> =
     Some \<lparr>mem = small_flash, con_in = [], con_out = [107, 10]\<rparr>"
proof -
  have "listable C3600 0x80020000 (FLASH_BASE C3600) [([107], [1, 2, 3])]"
    by (simp add: listable_def apart_def)
  with flash_directory_lists [of C3600 "\<lparr>mem = small_flash, con_in = [], con_out = []\<rparr>" "[([107], [1, 2, 3])]" "0x80020000"]
  show ?thesis using small_flash_dir by (simp add: listing_def)
qed

text \<open>C27: every seek leaves the position within the file and changes nothing else; a relative
  seek adds modulo \<open>2\<^sup>3\<^sup>2\<close>, so that a large offset goes back instead of being refused.\<close>

theorem cilo_seek_stays_inside:
  assumes "whence \<in> {SEEK_SET, SEEK_CUR, SEEK_END}"
  shows "file_pos (cilo_seek fp off whence) \<le> file_len fp \<and>
    cilo_seek fp off whence = fp\<lparr>file_pos := file_pos (cilo_seek fp off whence)\<rparr> \<and>
    (file_pos fp + off \<le> file_len fp \<longrightarrow> file_pos (cilo_seek fp off SEEK_CUR) = file_pos fp + off)"
  using assms by (auto simp: cilo_seek_def add.commute not_less)

lemma cilo_seek_stays_inside_witness:
  "file_pos (cilo_seek \<lparr>f_dev = 1, file_len = 100, file_pos = 60, f_name = [], f_code = 1, f_private = 0\<rparr>
     0xFFFFFFF6 SEEK_CUR) = 50"
  using cilo_seek_stays_inside [of SEEK_CUR "\<lparr>f_dev = 1, file_len = 100, file_pos = 60, f_name = [], f_code = 1, f_private = 0\<rparr>"
      "0xFFFFFFF6"] by auto

text \<open>C28: a seek followed by a read of bytes within the file stores exactly the file's bytes at
  that offset, leaves the file's contents as they were, and touches no other memory.\<close>

theorem seek_then_read:
  assumes "backed p m fp data" and "k + n \<le> length data" and "a \<noteq> 0"
    and "apart (file_base p fp) (length data) a n" and "file_base p fp + of_nat k \<noteq> 0"
  shows "\<exists>fp'. cilo_read p m a (of_nat n) 1 (cilo_seek fp (of_nat k) SEEK_SET) =
      (mem_write m a (take n (drop k data)), fp', of_nat n) \<and> file_pos fp' = of_nat (k + n) \<and>
    backed p (mem_write m a (take n (drop k data))) fp' data"
proof -
  have img: "image_at m (file_base p fp) data" and len: "file_len fp = of_nat (length data)"
    using assms(1) by (simp_all add: backed_def)
  have pos: "file_pos (seek_set fp (of_nat k)) = of_nat k"
    using img len assms(2) by (intro cio.seek_pos_within) (auto simp: image_at_def)
  have seek: "cilo_seek fp (of_nat k) SEEK_SET = seek_set fp (of_nat k)" by (simp add: seek_set_def)
  note rd = cio.seek_read_at [OF img len assms(2-5)]
  show ?thesis
    unfolding seek cilo_read_io rd(1) using rd(2) pos len cio.seek_base [of p fp] cio.seek_len [of fp]
    by (simp add: rd(1) backed_def)
qed

lemma seek_then_read_witness:
  "\<exists>fp'. cilo_read C3600 small_flash 0x200 2 1
     (cilo_seek \<lparr>f_dev = 1, file_len = 3, file_pos = 0, f_name = [], f_code = 1, f_private = 0x30000000\<rparr> 1 SEEK_SET) =
     (mem_write small_flash 0x200 [2, 3], fp', 2) \<and> file_pos fp' = 3"
proof -
  let ?fp = "\<lparr>f_dev = 1, file_len = 3, file_pos = 0, f_name = [], f_code = 1, f_private = 0x30000000\<rparr>"
  have "backed C3600 small_flash ?fp [1, 2, 3]"
    using small_flash_dir by (simp add: backed_def file_base_def image_at_def)
  from seek_then_read [OF this, of 1 2 "0x200"] show ?thesis
    by (auto simp: file_base_def apart_def)
qed

end
