(* ===== verification/Elf.thy ===== *)
theory Elf
  imports Bytes
begin

text \<open>
  The ELF structures of \<^verbatim>\<open>include/elf.h\<close> (and its copy \<^verbatim>\<open>elf2mzip/elf.h\<close>), their C layouts in
  either byte order, the byte-swapping routines of \<^verbatim>\<open>elftool.c\<close> and \<^verbatim>\<open>elf2img.c\<close>, and the
  tables with which \<^verbatim>\<open>elftool\<close> names types and machines. The fields keep their names
  behind a prefix (\<open>eh_\<close>, \<open>ph_\<close>, \<open>sh_\<close>), because record fields share one name space here.

  On the boot loader's 32-bit targets \<^verbatim>\<open>uint64_t\<close> is \<open>unsigned long\<close>, which has 32 bits, so
  \<^verbatim>\<open>struct elf64_hdr\<close> has there the layout of the 32-bit header and \<^verbatim>\<open>struct elf64_phdr\<close>
  has 32 bytes.
\<close>

section \<open>Constants\<close>

definition ELF_MAGIC :: "u8 list" where "ELF_MAGIC = [0x7f, 0x45, 0x4c, 0x46]"
definition ELF_INDEX_CLASS :: nat where "ELF_INDEX_CLASS = 4"
definition ELF_INDEX_DATA :: nat where "ELF_INDEX_DATA = 5"
definition ELF_INDEX_VERSION :: nat where "ELF_INDEX_VERSION = 6"
definition ELF_CLASS_32 :: u8 where "ELF_CLASS_32 = 1"
definition ELF_CLASS_64 :: u8 where "ELF_CLASS_64 = 2"
definition ELF_DATA_MSB :: u8 where "ELF_DATA_MSB = 2"
definition ELF_PT_LOAD :: u32 where "ELF_PT_LOAD = 1"
definition ELF_SHT_NULL :: u32 where "ELF_SHT_NULL = 0"
definition ELF_SHT_STRTAB :: u32 where "ELF_SHT_STRTAB = 3"

definition ELF_SHF_WRITABLE :: "u32 \<Rightarrow> u32" where "ELF_SHF_WRITABLE x = x AND 0x1"
definition ELF_SHF_ALLOCD :: "u32 \<Rightarrow> u32" where "ELF_SHF_ALLOCD x = x AND 0x2"
definition ELF_SHF_EXECUTABLE :: "u32 \<Rightarrow> u32" where "ELF_SHF_EXECUTABLE x = x AND 0x4"

text \<open>Symbol and relocation information packed in one number.\<close>

definition ELF_ST_BIND :: "u8 \<Rightarrow> u8" where "ELF_ST_BIND i = drop_bit 4 i"
definition ELF_ST_TYPE :: "u8 \<Rightarrow> u8" where "ELF_ST_TYPE i = i AND 0xf"
definition ELF_ST_INFO :: "u8 \<Rightarrow> u8 \<Rightarrow> u8" where "ELF_ST_INFO b t = push_bit 4 b + (t AND 0xf)"
definition ELF_REL_SYM :: "u32 \<Rightarrow> u32" where "ELF_REL_SYM i = drop_bit 8 i"
definition ELF_REL_TYPE :: "u32 \<Rightarrow> u8" where "ELF_REL_TYPE i = ucast i"
definition ELF_REL_INFO :: "u32 \<Rightarrow> u8 \<Rightarrow> u32" where "ELF_REL_INFO s t = push_bit 8 s + ucast t"

section \<open>Structures\<close>

record elf32_header =
  eh_ident :: "u8 list"
  eh_type :: u16
  eh_machine :: u16
  eh_version :: u32
  eh_entry :: u32
  eh_phoff :: u32
  eh_shoff :: u32
  eh_flags :: u32
  eh_ehsize :: u16
  eh_phentsize :: u16
  eh_phnum :: u16
  eh_shentsize :: u16
  eh_shnum :: u16
  eh_shstrndx :: u16

record elf32_phdr =
  ph_type :: u32
  ph_offset :: u32
  ph_vaddr :: u32
  ph_paddr :: u32
  ph_filesz :: u32
  ph_memsz :: u32
  ph_flags :: u32
  ph_align :: u32

record elf32_section_header =
  sh_name :: u32
  sh_type :: u32
  sh_flags :: u32
  sh_addr :: u32
  sh_offset :: u32
  sh_size :: u32
  sh_link :: u32
  sh_info :: u32
  sh_addralign :: u32
  sh_entsize :: u32

record elf64_phdr =
  p_type :: u32
  p_flags :: u32
  p_offset :: u32
  p_vaddr :: u32
  p_paddr :: u32
  p_filesz :: u32
  p_memsz :: u32
  p_align :: u32

section \<open>Layouts\<close>

definition elf32_header_size :: nat where "elf32_header_size = 52"
definition elf32_phdr_size :: nat where "elf32_phdr_size = 32"
definition elf32_section_header_size :: nat where "elf32_section_header_size = 40"

definition elf32_header_of :: "endian \<Rightarrow> u8 list \<Rightarrow> elf32_header" where
  "elf32_header_of e bs =
     \<lparr>eh_ident = take 16 bs,
      eh_type = u16_of e (drop 16 bs),
      eh_machine = u16_of e (drop 18 bs),
      eh_version = u32_of e (drop 20 bs),
      eh_entry = u32_of e (drop 24 bs),
      eh_phoff = u32_of e (drop 28 bs),
      eh_shoff = u32_of e (drop 32 bs),
      eh_flags = u32_of e (drop 36 bs),
      eh_ehsize = u16_of e (drop 40 bs),
      eh_phentsize = u16_of e (drop 42 bs),
      eh_phnum = u16_of e (drop 44 bs),
      eh_shentsize = u16_of e (drop 46 bs),
      eh_shnum = u16_of e (drop 48 bs),
      eh_shstrndx = u16_of e (drop 50 bs)\<rparr>"

definition elf32_header_bytes :: "endian \<Rightarrow> elf32_header \<Rightarrow> u8 list" where
  "elf32_header_bytes e v =
     eh_ident v @
     u16_bytes e (eh_type v) @
     u16_bytes e (eh_machine v) @
     u32_bytes e (eh_version v) @
     u32_bytes e (eh_entry v) @
     u32_bytes e (eh_phoff v) @
     u32_bytes e (eh_shoff v) @
     u32_bytes e (eh_flags v) @
     u16_bytes e (eh_ehsize v) @
     u16_bytes e (eh_phentsize v) @
     u16_bytes e (eh_phnum v) @
     u16_bytes e (eh_shentsize v) @
     u16_bytes e (eh_shnum v) @
     u16_bytes e (eh_shstrndx v)"

definition elf32_phdr_of :: "endian \<Rightarrow> u8 list \<Rightarrow> elf32_phdr" where
  "elf32_phdr_of e bs =
     \<lparr>ph_type = u32_of e bs,
      ph_offset = u32_of e (drop 4 bs),
      ph_vaddr = u32_of e (drop 8 bs),
      ph_paddr = u32_of e (drop 12 bs),
      ph_filesz = u32_of e (drop 16 bs),
      ph_memsz = u32_of e (drop 20 bs),
      ph_flags = u32_of e (drop 24 bs),
      ph_align = u32_of e (drop 28 bs)\<rparr>"

definition elf32_phdr_bytes :: "endian \<Rightarrow> elf32_phdr \<Rightarrow> u8 list" where
  "elf32_phdr_bytes e v =
     u32_bytes e (ph_type v) @
     u32_bytes e (ph_offset v) @
     u32_bytes e (ph_vaddr v) @
     u32_bytes e (ph_paddr v) @
     u32_bytes e (ph_filesz v) @
     u32_bytes e (ph_memsz v) @
     u32_bytes e (ph_flags v) @
     u32_bytes e (ph_align v)"

definition elf32_section_header_of :: "endian \<Rightarrow> u8 list \<Rightarrow> elf32_section_header" where
  "elf32_section_header_of e bs =
     \<lparr>sh_name = u32_of e bs,
      sh_type = u32_of e (drop 4 bs),
      sh_flags = u32_of e (drop 8 bs),
      sh_addr = u32_of e (drop 12 bs),
      sh_offset = u32_of e (drop 16 bs),
      sh_size = u32_of e (drop 20 bs),
      sh_link = u32_of e (drop 24 bs),
      sh_info = u32_of e (drop 28 bs),
      sh_addralign = u32_of e (drop 32 bs),
      sh_entsize = u32_of e (drop 36 bs)\<rparr>"

definition elf32_section_header_bytes :: "endian \<Rightarrow> elf32_section_header \<Rightarrow> u8 list" where
  "elf32_section_header_bytes e v =
     u32_bytes e (sh_name v) @
     u32_bytes e (sh_type v) @
     u32_bytes e (sh_flags v) @
     u32_bytes e (sh_addr v) @
     u32_bytes e (sh_offset v) @
     u32_bytes e (sh_size v) @
     u32_bytes e (sh_link v) @
     u32_bytes e (sh_info v) @
     u32_bytes e (sh_addralign v) @
     u32_bytes e (sh_entsize v)"

definition elf64_phdr_of :: "endian \<Rightarrow> u8 list \<Rightarrow> elf64_phdr" where
  "elf64_phdr_of e bs =
     \<lparr>p_type = u32_of e bs,
      p_flags = u32_of e (drop 4 bs),
      p_offset = u32_of e (drop 8 bs),
      p_vaddr = u32_of e (drop 12 bs),
      p_paddr = u32_of e (drop 16 bs),
      p_filesz = u32_of e (drop 20 bs),
      p_memsz = u32_of e (drop 24 bs),
      p_align = u32_of e (drop 28 bs)\<rparr>"

section \<open>Swapping\<close>

definition swap_elf32_header :: "elf32_header \<Rightarrow> elf32_header" where
  "swap_elf32_header hdr =
     hdr\<lparr>eh_type := SWAP_16 (eh_type hdr),
      eh_machine := SWAP_16 (eh_machine hdr),
      eh_version := SWAP_32 (eh_version hdr),
      eh_entry := SWAP_32 (eh_entry hdr),
      eh_phoff := SWAP_32 (eh_phoff hdr),
      eh_shoff := SWAP_32 (eh_shoff hdr),
      eh_flags := SWAP_32 (eh_flags hdr),
      eh_ehsize := SWAP_16 (eh_ehsize hdr),
      eh_phentsize := SWAP_16 (eh_phentsize hdr),
      eh_phnum := SWAP_16 (eh_phnum hdr),
      eh_shentsize := SWAP_16 (eh_shentsize hdr),
      eh_shnum := SWAP_16 (eh_shnum hdr),
      eh_shstrndx := SWAP_16 (eh_shstrndx hdr)\<rparr>"

definition swap_elf32_section_header :: "elf32_section_header \<Rightarrow> elf32_section_header" where
  "swap_elf32_section_header shdr =
     shdr\<lparr>sh_name := SWAP_32 (sh_name shdr),
      sh_type := SWAP_32 (sh_type shdr),
      sh_flags := SWAP_32 (sh_flags shdr),
      sh_addr := SWAP_32 (sh_addr shdr),
      sh_offset := SWAP_32 (sh_offset shdr),
      sh_size := SWAP_32 (sh_size shdr),
      sh_link := SWAP_32 (sh_link shdr),
      sh_info := SWAP_32 (sh_info shdr),
      sh_addralign := SWAP_32 (sh_addralign shdr),
      sh_entsize := SWAP_32 (sh_entsize shdr)\<rparr>"

definition swap_elf32_program_header :: "elf32_phdr \<Rightarrow> elf32_phdr" where
  "swap_elf32_program_header phdr =
     phdr\<lparr>ph_type := SWAP_32 (ph_type phdr),
      ph_offset := SWAP_32 (ph_offset phdr),
      ph_vaddr := SWAP_32 (ph_vaddr phdr),
      ph_paddr := SWAP_32 (ph_paddr phdr),
      ph_filesz := SWAP_32 (ph_filesz phdr),
      ph_memsz := SWAP_32 (ph_memsz phdr),
      ph_flags := SWAP_32 (ph_flags phdr),
      ph_align := SWAP_32 (ph_align phdr)\<rparr>"

section \<open>Names\<close>

definition e_types :: "string list" where
  "e_types =
   [''No specified file type'',
    ''Relocatable File'',
    ''Executable File'',
    ''Dynamic Shared Object File'',
    ''Core File'']"

definition file_type_to_string :: "u16 \<Rightarrow> string" where
  "file_type_to_string e_type =
     (if e_type \<le> 4 then e_types ! unat e_type else ''Unknown or custom file type'')"

text \<open>\<open>None\<close> is a null pointer: an element the initialiser does not name.\<close>

definition e_machines :: "string option list" where
  "e_machines =
   [
    Some ''Unknown/No Machine Type'',
    Some ''AT&T WE 32100'',
    Some ''Sun SPARC'',
    Some ''Intel i386 (80386)'',
    Some ''Motorola 68000'',
    Some ''Motorola 88000'',
    None,
    Some ''Intel i860 (80860)'',
    Some ''MIPS R3000 Big-Endian'',
    Some ''IBM S/370'',
    Some ''MIPS R4000 Big-Endian (Deprecated)'',
    Some ''IBM RS/6000'',
    Some ''Unknown'',
    Some ''Unknown'',
    Some ''Unknown'',
    Some ''HP PA-RISC'',
    Some ''Unknown'',
    Some ''Fujitsu VPP500'',
    Some ''Sun SPARC V.8+'',
    Some ''Intel i960 (80960)'',
    Some ''Cisco 4500 or IBM PowerPC'',
    Some ''IBM PowerPC (64-bit)'',
    Some ''IBM S/390'',
    Some ''Unknown'',
    Some ''Unknown'',
    Some ''Cisco 7200 Series Router'',
    Some ''Unknown'',
    Some ''Unknown'',
    Some ''Unknown'',
    Some ''Unknown'',
    Some ''Cisco 3620/3640 Router (MIPS, IDT R4700)'',
    Some ''Unknown'',
    Some ''Unknown'',
    Some ''Unknown'',
    Some ''Unknown'',
    Some ''Unknown'',
    Some ''Cisco 12000 Router or NEC V800'',
    Some ''Fujitsu FR20'',
    Some ''TRW RH-32'',
    Some ''Motorola RCE'',
    Some ''ARM'',
    Some ''Digital Equipment Corporation Alpha'',
    Some ''Hitachi SuperH (SH)'',
    Some ''Cisco 2600 Series Router (PowerPC, MPC860) or SPARC V.9 64-bit'',
    Some ''Siemens Tricore Embedded Processor'',
    Some ''Argonaut RISC Core'',
    Some ''Hitachi H8/300'',
    Some ''Hitachi H8/300H'',
    Some ''Hitachi H8S'',
    Some ''Hitachi H8/500'',
    Some ''Intel Itanium (Merced)'',
    Some ''Cisco 1700 Series Router (PowerPC, MPC860) or Stanford MIPS-X'',
    Some ''Cisco 3660 Series Router (MIPS, R5000) or Motorola Coldfire'',
    Some ''Motorola M68HC12'',
    Some ''Fujitsu MMA Multimedia Accelerator'',
    Some ''Siemens PCP'',
    Some ''Sony nCPU Embedded RISC'',
    Some ''Denso NDR1 Microprocessor'',
    Some ''Motorola Star*Core Digital Signal Processor'',
    Some ''Toyota ME16 Microprocessor'',
    Some ''STMicroelectronics ST100 Microprocessor'',
    Some ''Advanced Logic Corp. TinyJ Embedded Family Microprocessor'',
    Some ''AMD x86-64/Intel EM64-T'',
    Some ''Sony DSP Processor'',
    Some ''Unknown'',
    Some ''Unknown'',
    Some ''Siemens FX66 Microcontroller'',
    Some ''STMicroelectronics ST9+ 8/16-bit Microcontroller'',
    Some ''STMicroelectronics ST7 8-bit Microcontroller'',
    Some ''Motorola MC68HC16 Microcontroller'',
    Some ''Motorola MC68HC11 Microcontroller'',
    Some ''Motorola MC68HC08 Microcontroller'',
    Some ''Motorola MC68HC05 Microcontroller'',
    Some ''Silicon Graphics SVx'',
    Some ''STMicroelectronics ST19 8-bit Microcontroller'',
    Some ''Digital Equipment Corporation VAX'',
    Some ''AXIS Communications 32-bit CRIS Processor'',
    Some ''Infineon Tech. 32-bit Embedded Javelin Processor'',
    Some ''Element 14 64-bit DSP'',
    Some ''LSI Logic 16-bit DSP'',
    Some ''MMIX - Knuth's Educational 64-bit CPU'',
    Some ''Harvard University Machine-Independent Object File'',
    Some ''SiTera Prism'',
    Some ''Atmel AVR 8-bit Microcontroller'',
    Some ''Fujitsu FR30'',
    Some ''Mitsubishi D10V'',
    Some ''Mitsubishi D30V'',
    Some ''NEC V850 CPU'',
    Some ''Mitsubishi M32R'',
    Some ''Matsushita MN10300'',
    Some ''Matsushita MN10200'',
    Some ''picoJava'',
    Some ''OpenRISC 32-bit Embedded Processor'',
    Some ''ARC Cores Tangent-A5'',
    Some ''Tensilica Xtensa Architecture'',
    Some ''Unknown'',
    Some ''Unknown'',
    Some ''Cisco 3725 Router (MIPS, RM7000)'',
    Some ''Unknown'',
    Some ''Unknown'',
    Some ''Unknown'',
    Some ''Unknown'',
    Some ''Cisco 2691 Router (MIPS, R52xx)'',
    Some ''Unknown'',
    Some ''Unknown'',
    Some ''Cisco 3745 Router (MIPS)'']"

definition machine_id_to_string :: "u16 \<Rightarrow> string option" where
  "machine_id_to_string machine =
     (if machine \<le> 0x69 then e_machines ! unat machine else Some ''Unknown'')"

definition sh_type_to_string :: "u32 \<Rightarrow> string" where
  "sh_type_to_string ty =
     (if ty = 0 then ''SHT_NULL'' else
      if ty = 1 then ''SHT_PROGBITS'' else
      if ty = 2 then ''SHT_SYMTAB'' else
      if ty = 3 then ''SHT_STRTAB'' else
      if ty = 4 then ''SHT_RELA'' else
      if ty = 5 then ''SHT_HASH'' else
      if ty = 6 then ''SHT_DYNAMIC'' else
      if ty = 7 then ''SHT_NOTE'' else
      if ty = 8 then ''SHT_NOBITS'' else
      if ty = 9 then ''SHT_REL'' else
      if ty = 10 then ''SHT_SHLIB'' else
      if ty = 11 then ''SHT_DYNSYM'' else
      if ty = 0x70000000 then ''SHT_MIPS_LIBLIST'' else
      if ty = 0x70000002 then ''SHT_MIPS_CONFLICT'' else
      if ty = 0x70000003 then ''SHT_MIPS_GPTAB'' else
      if ty = 0x70000004 then ''SHT_MIPS_UCODE'' else
      if ty = 0x70000005 then ''SHT_MIPS_DEBUG'' else
      if ty = 0x70000006 then ''SHT_MIPS_REGINFO'' else
      ''SHT_CUSTOM'')"

definition segment_type_to_string :: "u32 \<Rightarrow> string" where
  "segment_type_to_string ty =
     (if ty = 0 then ''PT_NULL'' else
      if ty = 1 then ''PT_LOAD'' else
      if ty = 2 then ''PT_DYNAMIC'' else
      if ty = 3 then ''PT_INTERP'' else
      if ty = 4 then ''PT_NOTE'' else
      if ty = 5 then ''PT_SHLIB'' else
      if ty = 6 then ''PT_PHDR'' else
      if ty = 0x70000000 then ''PT_MIPS_REGINFO'' else
      ''PT_CUSTOM'')"

section \<open>Layout and swapping agree\<close>

lemma length_word_bytes [simp]: "length (u16_bytes e w) = 2" "length (u32_bytes e x) = 4"
  by (cases e; simp)+

lemmas layout_defs =
  elf32_header_of_def elf32_header_bytes_def elf32_phdr_of_def elf32_phdr_bytes_def
  elf32_section_header_of_def elf32_section_header_bytes_def elf64_phdr_of_def

text \<open>Swapping a structure read in one byte order gives the structure read in the other.\<close>

lemma swap_elf32_header_of [byte_simps]:
  "swap_elf32_header (elf32_header_of e bs) = elf32_header_of (other e) bs"
  by (simp add: swap_elf32_header_def layout_defs SWAP_32_load SWAP_16_load)

lemma swap_elf32_program_header_of [byte_simps]:
  "swap_elf32_program_header (elf32_phdr_of e bs) = elf32_phdr_of (other e) bs"
  by (simp add: swap_elf32_program_header_def layout_defs SWAP_32_load)

lemma swap_elf32_section_header_of [byte_simps]:
  "swap_elf32_section_header (elf32_section_header_of e bs) = elf32_section_header_of (other e) bs"
  by (simp add: swap_elf32_section_header_def layout_defs SWAP_32_load)

lemma swap_elf32_header_twice: "swap_elf32_header (swap_elf32_header h) = h"
  by (simp add: swap_elf32_header_def byte_simps)

text \<open>Round trips: what is laid out is read back.\<close>

lemma elf32_header_roundtrip:
  assumes "length (eh_ident h) = 16"
  shows "elf32_header_of e (elf32_header_bytes e h @ rest) = h"
    and "length (elf32_header_bytes e h) = 52"
  using assms by (cases h; simp add: layout_defs codec16.dec_enc codec32.dec_enc)+

lemma elf32_phdr_roundtrip: "elf32_phdr_of e (elf32_phdr_bytes e h @ rest) = h"
  by (cases h) (simp add: layout_defs codec32.dec_enc)

lemma length_elf32_phdr_bytes [simp]: "length (elf32_phdr_bytes e h) = 32"
  by (simp add: layout_defs)

lemma elf32_section_header_roundtrip:
  "elf32_section_header_of e (elf32_section_header_bytes e h @ rest) = h"
  by (cases h) (simp add: layout_defs codec32.dec_enc)

lemma length_elf32_section_header_bytes [simp]: "length (elf32_section_header_bytes e h) = 40"
  by (simp add: layout_defs)

text \<open>Only the first bytes of a run matter.\<close>

lemma u32_of_append: "4 \<le> length xs \<Longrightarrow> u32_of e (xs @ ys) = u32_of e xs"
  by (cases e) (auto simp: nth_append)

lemma u16_of_take: "k + 2 \<le> n \<Longrightarrow> n \<le> length bs \<Longrightarrow> u16_of e (drop k (take n bs)) = u16_of e (drop k bs)"
  by (cases e) simp_all

lemma u32_of_take: "k + 4 \<le> n \<Longrightarrow> n \<le> length bs \<Longrightarrow> u32_of e (drop k (take n bs)) = u32_of e (drop k bs)"
  by (cases e) simp_all

lemma elf32_header_of_take: "52 \<le> length bs \<Longrightarrow> elf32_header_of e (take 52 bs) = elf32_header_of e bs"
  using u32_of_take [of 0 52 bs e]
  by (simp add: elf32_header_of_def u16_of_take u32_of_take min_def)

lemma elf32_phdr_of_take: "32 \<le> length bs \<Longrightarrow> elf32_phdr_of e (take 32 bs) = elf32_phdr_of e bs"
  using u32_of_take [of 0 32 bs e] by (simp add: elf32_phdr_of_def u32_of_take)

interpretation phdr_codec: byte_codec "elf32_phdr_bytes e" "elf32_phdr_of e" 32
proof unfold_locales
  show "elf32_phdr_of e (bs @ rest) = elf32_phdr_of e bs" if "length bs = 32" for bs rest
    using elf32_phdr_of_take [of "bs @ rest" e] that by simp
qed (simp_all add: elf32_phdr_roundtrip)

interpretation shdr_codec: byte_codec "elf32_section_header_bytes e" "elf32_section_header_of e" 40
proof unfold_locales
  show "elf32_section_header_of e (bs @ rest) = elf32_section_header_of e bs"
    if "length bs = 40" for bs rest
    using that by (simp add: elf32_section_header_of_def u32_of_append)
qed (simp_all add: elf32_section_header_roundtrip)

text \<open>The swap routines relate the two orders of a structure, so they undo themselves.\<close>

interpretation phdr_swap: codec_swap "elf32_phdr_bytes e" "elf32_phdr_of e" "elf32_phdr_bytes (other e)" "elf32_phdr_of (other e)" 32
    swap_elf32_program_header
  by unfold_locales (simp_all add: swap_elf32_program_header_of)

interpretation shdr_swap: codec_swap "elf32_section_header_bytes e" "elf32_section_header_of e"
    "elf32_section_header_bytes (other e)" "elf32_section_header_of (other e)" 40 swap_elf32_section_header
  by unfold_locales (simp_all add: swap_elf32_section_header_of)

lemma swaps_twice:
  "swap_elf32_program_header (swap_elf32_program_header ph) = ph" "swap_elf32_section_header (swap_elf32_section_header sh) = sh"
  by (rule phdr_swap.swap_swap, rule shdr_swap.swap_swap)

section \<open>The tables\<close>

text \<open>The bound checked before the lookup is the length of the table.\<close>

lemma e_types_length: "length e_types = 5"
  by (simp add: e_types_def)

lemma e_machines_length: "length e_machines = 0x6a"
  by code_simp

lemma e_machines_hole: "list_all (\<lambda>i. (e_machines ! i = None) = (i = 6)) [0..<0x6a]"
  by code_simp

lemma e_machines_None: "i < 0x6a \<Longrightarrow> e_machines ! i = None \<longleftrightarrow> i = 6"
  using e_machines_hole by (simp add: list_all_iff)

lemma machine_id_to_string_None: "machine_id_to_string machine = None \<longleftrightarrow> machine = 6"
proof (cases "machine \<le> 0x69")
  case True
  then have "unat machine < 0x6a" by (simp add: word_le_nat_alt)
  moreover have "unat machine = 6 \<longleftrightarrow> machine = 6"
    by (simp add: word_unat_eq_iff)
  ultimately show ?thesis using True e_machines_None by (simp add: machine_id_to_string_def)
qed (auto simp: machine_id_to_string_def)

section \<open>A small executable\<close>

text \<open>A big-endian 32-bit executable with one segment of four bytes in the file and eight in memory,
  for the examples.\<close>

definition sample_kernel :: "u8 list" where
  "sample_kernel =
     [0x7f, 0x45, 0x4c, 0x46, 1, 2, 1, 0, 0, 0, 0, 0, 0, 0, 0, 0,
      0, 2, 0, 8, 0, 0, 0, 1, 0x80, 3, 0, 0, 0, 0, 0, 52, 0, 0, 0, 0, 0, 0, 0, 0,
      0, 52, 0, 32, 0, 1, 0, 0, 0, 0, 0, 0,
      0, 0, 0, 1, 0, 0, 0, 84, 0x80, 3, 0, 0, 0x80, 3, 0, 0, 0, 0, 0, 4, 0, 0, 0, 8, 0, 0, 0, 5, 0, 0, 0, 4,
      0x3c, 8, 0x80, 3]"

section \<open>Properties\<close>

text \<open>The three ELF structures survive being laid out in a file and read back, in either byte
  order and whatever follows them.\<close>

theorem elf_structures_roundtrip:
  assumes "length (eh_ident h) = 16"
  shows "elf32_header_of e (elf32_header_bytes e h @ rest) = h \<and> length (elf32_header_bytes e h) = elf32_header_size \<and>
    elf32_phdr_of e (elf32_phdr_bytes e ph @ rest) = ph \<and> length (elf32_phdr_bytes e ph) = elf32_phdr_size \<and>
    elf32_section_header_of e (elf32_section_header_bytes e sh @ rest) = sh \<and>
    length (elf32_section_header_bytes e sh) = elf32_section_header_size"
  using elf32_header_roundtrip [OF assms] elf32_phdr_roundtrip elf32_section_header_roundtrip
  by (simp add: elf32_header_size_def elf32_phdr_size_def elf32_section_header_size_def)

lemma elf_structures_roundtrip_witness:
  "elf32_header_of LE (elf32_header_bytes LE \<lparr>eh_ident = replicate 16 7, eh_type = 2, eh_machine = 8, eh_version = 1,
     eh_entry = 0x80030000, eh_phoff = 52, eh_shoff = 0, eh_flags = 0, eh_ehsize = 52, eh_phentsize = 32,
     eh_phnum = 1, eh_shentsize = 40, eh_shnum = 0, eh_shstrndx = 0\<rparr> @ [1, 2]) =
   \<lparr>eh_ident = replicate 16 7, eh_type = 2, eh_machine = 8, eh_version = 1,
     eh_entry = 0x80030000, eh_phoff = 52, eh_shoff = 0, eh_flags = 0, eh_ehsize = 52, eh_phentsize = 32,
     eh_phnum = 1, eh_shentsize = 40, eh_shnum = 0, eh_shstrndx = 0\<rparr>"
  by (rule elf_structures_roundtrip [THEN conjunct1]) simp

text \<open>Swapping a structure that was read in the byte order of the host gives the structure the
  file holds in the other order, for the header, the program header and the section header;
  swapping twice changes nothing.\<close>

theorem elf_swap_is_other_order:
  "swap_elf32_header (elf32_header_of e bs) = elf32_header_of (other e) bs \<and>
   swap_elf32_program_header (elf32_phdr_of e bs) = elf32_phdr_of (other e) bs \<and>
   swap_elf32_section_header (elf32_section_header_of e bs) = elf32_section_header_of (other e) bs \<and>
   swap_elf32_header (swap_elf32_header h) = h"
  by (simp add: byte_simps swap_elf32_header_twice)

text \<open>The machine table has a name for every machine number but 6, whose entry is missing:
  for it \<open>machine_id_to_string\<close> returns a null pointer.\<close>

theorem machine_names_complete: "machine_id_to_string machine = None \<longleftrightarrow> machine = 6"
  by (rule machine_id_to_string_None)

end
