(* ===== verification/ElfLoader.thy ===== *)
theory ElfLoader
  imports Platio Elf "HOL-Library.Monad_Syntax"
begin

text \<open>
  The ELF loader \<^verbatim>\<open>elf_loader.c\<close>. The header and the program header being processed are
  local structures of the loader, so they are objects of the memory it loads into: the
  layout record says where the stack holds them and \<open>printf\<close>'s buffer. Every access reads
  them again from memory, as the C code does. The kernel is entered by a call to
  \<open>hdr.entry\<close>; it is not part of the program, so that call is the outcome \<open>Jump\<close>, with the
  two arguments it passes.
\<close>

section \<open>Frames and outcomes\<close>

record frame =
  hdr_at :: "32 word" \<comment> \<open>\<open>hdr\<close> of the ELF loader\<close>
  phdr_at :: "32 word" \<comment> \<open>\<open>phdr\<close> of the ELF loader\<close>
  printf_at :: "32 word" \<comment> \<open>\<open>printf_buf\<close>\<close>
  lzma_props_at :: "32 word" \<comment> \<open>\<open>props\<close> of \<^verbatim>\<open>load_lzma\<close>\<close>
  lzma_size_at :: "32 word" \<comment> \<open>\<open>out_size_read\<close>\<close>
  lzma_buffer_at :: "32 word" \<comment> \<open>\<open>buffer\<close>\<close>
  buf_at :: "32 word" \<comment> \<open>\<open>buf\<close> of \<^verbatim>\<open>start_bootloader\<close>\<close>
  kernel_at :: "32 word" \<comment> \<open>\<open>kernel\<close>\<close>
  main_hdr_at :: "32 word" \<comment> \<open>\<open>hdr\<close>\<close>
  console_at :: "32 word" \<comment> \<open>the literal \<^verbatim>\<open>"console"\<close>\<close>
  lzma_at :: "32 word" \<comment> \<open>the literal \<^verbatim>\<open>"lzma"\<close>\<close>

text \<open>What the code runs on: the platform it is built for, the ROM monitor with the registers
  at its calls, and where the stack frames lie.\<close>

record env =
  plat :: platform
  rom :: "regs \<Rightarrow> regs"
  regs0 :: regs
  frm :: frame

datatype outcome = Returned | Jump (jump_entry: addr) (jump_memsz: u32) (jump_cmdline: addr)

definition elf32_header_at :: "(addr \<Rightarrow> u8) \<Rightarrow> addr \<Rightarrow> elf32_header" where
  "elf32_header_at m a = elf32_header_of BE (mem_read m a elf32_header_size)"

definition elf32_phdr_at :: "(addr \<Rightarrow> u8) \<Rightarrow> addr \<Rightarrow> elf32_phdr" where
  "elf32_phdr_at m a = elf32_phdr_of BE (mem_read m a elf32_phdr_size)"

definition elf64_phdr_at :: "(addr \<Rightarrow> u8) \<Rightarrow> addr \<Rightarrow> elf64_phdr" where
  "elf64_phdr_at m a = elf64_phdr_of BE (mem_read m a elf32_phdr_size)"

section \<open>Segments\<close>

definition load_elf32_section ::
    "platform \<Rightarrow> (addr \<Rightarrow> u8) \<Rightarrow> cfile \<Rightarrow> addr \<Rightarrow> u32 \<Rightarrow> u32 \<Rightarrow> (addr \<Rightarrow> u8) \<times> cfile" where
  "load_elf32_section p m fp address file_offset len =
     (let fp1 = cilo_seek fp file_offset SEEK_SET;
          (m', fp2, _) = cilo_read p m address len 1 fp1
      in (m', fp2))"

definition load_elf32_uninitialized_memory :: "(addr \<Rightarrow> u8) \<Rightarrow> addr \<Rightarrow> u32 \<Rightarrow> (addr \<Rightarrow> u8)" where
  "load_elf32_uninitialized_memory m address len =
     fold (\<lambda>i m. m(address + of_nat i := 0)) [0..<unat len] m"

text \<open>The loop over the program headers. \<open>hdr\<close> and \<open>phdr\<close> are read from the memory of the
  moment; \<open>i\<close> counts up to at most \<open>0xffff\<close>, whatever is stored over the header.\<close>

function load_elf32_loop ::
    "platform \<Rightarrow> frame \<Rightarrow> (addr \<Rightarrow> u8) \<Rightarrow> cfile \<Rightarrow> u32 \<Rightarrow> nat \<Rightarrow> (addr \<Rightarrow> u8) \<times> cfile \<times> u32" where
  "load_elf32_loop p fr m fp mem_sz i =
     (if i < unat (eh_phnum (elf32_header_at m (hdr_at fr))) then
        let (m1, fp1, _) = cilo_read p m (phdr_at fr) (of_nat elf32_phdr_size) 1 fp;
            phdr = elf32_phdr_at m1 (phdr_at fr)
        in if ph_type phdr \<noteq> ELF_PT_LOAD then load_elf32_loop p fr m1 fp1 mem_sz (Suc i)
           else
             let (m2, fp2) = load_elf32_section p m1 fp1
                   (ph_paddr phdr) (ph_offset phdr) (ph_filesz phdr);
                 phdr2 = elf32_phdr_at m2 (phdr_at fr);
                 mem_sz2 = mem_sz + ph_memsz phdr2;
                 m3 = (if ph_memsz phdr2 - ph_filesz phdr2 > 0
                       then load_elf32_uninitialized_memory m2
                              (ph_paddr phdr2 + ph_filesz phdr2)
                              (ph_memsz phdr2 - ph_filesz phdr2)
                       else m2);
                 fp3 = cilo_seek fp2
                   (eh_phoff (elf32_header_at m3 (hdr_at fr))
                     + of_nat elf32_phdr_size * (of_nat i + 1)) SEEK_SET
             in load_elf32_loop p fr m3 fp3 mem_sz2 (Suc i)
      else (m, fp, mem_sz))"
  by pat_completeness auto
termination
proof (relation "measure (\<lambda>(p, fr, m, fp, mem_sz, i). 2 ^ 16 - i)")
  fix i :: nat and m :: "addr \<Rightarrow> u8" and fr :: frame
  assume "i < unat (eh_phnum (elf32_header_at m (hdr_at fr)))"
  moreover have "unat (eh_phnum (elf32_header_at m (hdr_at fr))) < 2 ^ LENGTH(16)"
    by (rule unsigned_less)
  ultimately have i: "i < 2 ^ 16" by simp
  fix p :: platform and m' fp mem_sz m'' fp' mem_sz'
  show "((p, fr, m'' :: addr \<Rightarrow> u8, fp' :: cfile, mem_sz' :: u32, Suc i),
      (p, fr, m, fp :: cfile, mem_sz :: u32, i))
      \<in> measure (\<lambda>(p, fr, m, fp, mem_sz, i). 2 ^ 16 - i)"
    using i by simp
  then show "((p, fr, m'', fp', mem_sz', Suc i), (p, fr, m, fp, mem_sz, i))
      \<in> measure (\<lambda>(p, fr, m, fp, mem_sz, i). 2 ^ 16 - i)" .
qed simp

declare load_elf32_loop.simps [simp del]

section \<open>The 32-bit loader\<close>

definition bad_magic :: "u8 list \<Rightarrow> bool" where
  "bad_magic ident \<longleftrightarrow>
     ident ! 0 \<noteq> ELF_MAGIC ! 0 \<or> ident ! 1 \<noteq> ELF_MAGIC ! 1 \<or>
     ident ! 2 \<noteq> ELF_MAGIC ! 2 \<or> ident ! 3 \<noteq> ELF_MAGIC ! 3"

text \<open>C's \<open>!x == c\<close> is \<open>(!x) == c\<close>: the negation is 0 or 1.\<close>

definition c_not :: "u8 \<Rightarrow> u8" where
  "c_not x = (if x = 0 then 1 else 0)"

definition load_elf32_file :: "env \<Rightarrow> machine \<Rightarrow> cfile \<Rightarrow> addr \<Rightarrow> (machine \<times> cfile \<times> outcome) option" where
  "load_elf32_file E st fp cmd_line =
     (let p = plat E; fr = frm E; sp = printf_at fr;
          (m1, fp1, _) = cilo_read p (mem st) (hdr_at fr) (of_nat elf32_header_size) 1 fp;
          st1 = st\<lparr>mem := m1\<rparr>;
          hdr = elf32_header_at m1 (hdr_at fr);
          ident = eh_ident hdr
      in if bad_magic ident then do {
           st2 \<leftarrow> printf p sp st1 ''Bad ELF magic found. Found: %#2x %#2x %#2x %#2x.\<newline>''
             [ucast (ident ! 0), ucast (ident ! 1), ucast (ident ! 2), ucast (ident ! 3)];
           Some (st2, fp1, Returned)
         }
         else if c_not (ident ! ELF_INDEX_CLASS) = ELF_CLASS_32 then do {
           st2 \<leftarrow> printf p sp st1 ''Invalid ELF machine class found. Found: %2x.\<newline>''
             [ucast (ident ! ELF_INDEX_CLASS)];
           Some (st2, fp1, Returned)
         }
         else if ident ! ELF_INDEX_DATA \<noteq> ELF_DATA_MSB then do {
           st2 \<leftarrow> printf p sp st1 ''Non-big endian ELF file detected. Aborting load.\<newline>'' [];
           Some (st2, fp1, Returned)
         }
         else do {
           st2 \<leftarrow> (if eh_ehsize hdr \<noteq> 52 then
                     printf p sp st1 ''Warning: ELF header greater than 52 bytes found. Found: %u\<newline>''
                       [ucast (eh_ehsize hdr)]
                   else Some st1);
           if eh_phnum hdr = 0 then do {
             st3 \<leftarrow> printf p sp st2 ''Found zero segments in ELF file. Aborting load.\<newline>'' [];
             Some (st3, fp1, Returned)
           }
           else
             let fp2 = cilo_seek fp1 (eh_phoff hdr) SEEK_SET;
                 fp3 = cilo_seek fp2 (eh_phoff hdr) SEEK_SET;
                 (m3, fp4, mem_sz) = load_elf32_loop p fr (mem st2) fp3 0 0
             in do {
               st4 \<leftarrow> printf p sp (st2\<lparr>mem := m3\<rparr>) ''Loaded %d bytes.\<newline>'' [mem_sz];
               st5 \<leftarrow> printf p sp st4 ''Kicking into Linux.\<newline>'' [];
               Some (st5, fp4, Jump (eh_entry (elf32_header_at (mem st5) (hdr_at fr)))
                                 (c_memsz p (rom E) (regs0 E)) cmd_line)
             }
         })"

section \<open>The 64-bit loader\<close>

text \<open>On the target the fields of \<^verbatim>\<open>struct elf64_hdr\<close> are at the offsets of the 32-bit header.\<close>

definition elf64_hdr_at :: "(addr \<Rightarrow> u8) \<Rightarrow> addr \<Rightarrow> elf32_header" where
  "elf64_hdr_at m a = elf32_header_of BE (mem_read m a elf32_header_size)"

definition load_elf64_section ::
    "platform \<Rightarrow> (addr \<Rightarrow> u8) \<Rightarrow> cfile \<Rightarrow> addr \<Rightarrow> u32 \<Rightarrow> u32 \<Rightarrow> (addr \<Rightarrow> u8) \<times> cfile" where
  "load_elf64_section p m fp address file_offset len =
     (let fp1 = cilo_seek fp file_offset SEEK_SET;
          (m', fp2, _) = cilo_read p m address len 1 fp1
      in (m', fp2))"

definition load_elf64_uninitialized_memory :: "(addr \<Rightarrow> u8) \<Rightarrow> addr \<Rightarrow> u32 \<Rightarrow> (addr \<Rightarrow> u8)" where
  "load_elf64_uninitialized_memory m address len =
     fold (\<lambda>i m. m(address + of_nat i := 0)) [0..<unat len] m"

text \<open>Unlike the 32-bit loop, this one does not seek back to the next program header.\<close>

function load_elf64_loop ::
    "platform \<Rightarrow> frame \<Rightarrow> (addr \<Rightarrow> u8) \<Rightarrow> cfile \<Rightarrow> u32 \<Rightarrow> nat \<Rightarrow> (addr \<Rightarrow> u8) \<times> cfile \<times> u32" where
  "load_elf64_loop p fr m fp mem_sz i =
     (if i < unat (eh_phnum (elf64_hdr_at m (hdr_at fr))) then
        let (m1, fp1, _) = cilo_read p m (phdr_at fr) (of_nat elf32_phdr_size) 1 fp;
            phdr = elf64_phdr_at m1 (phdr_at fr)
        in if p_type phdr \<noteq> ELF_PT_LOAD then load_elf64_loop p fr m1 fp1 mem_sz (Suc i)
           else
             let (m2, fp2) = load_elf64_section p m1 fp1
                   (p_paddr phdr) (p_offset phdr) (p_filesz phdr);
                 phdr2 = elf64_phdr_at m2 (phdr_at fr);
                 mem_sz2 = mem_sz + p_memsz phdr2;
                 m3 = (if p_memsz phdr2 - p_filesz phdr2 > 0
                       then load_elf64_uninitialized_memory m2
                              (p_paddr phdr2 + p_filesz phdr2)
                              (p_memsz phdr2 - p_filesz phdr2)
                       else m2)
             in load_elf64_loop p fr m3 fp2 mem_sz2 (Suc i)
      else (m, fp, mem_sz))"
  by pat_completeness auto
termination
proof (relation "measure (\<lambda>(p, fr, m, fp, mem_sz, i). 2 ^ 16 - i)")
  fix i :: nat and m :: "addr \<Rightarrow> u8" and fr :: frame
  assume "i < unat (eh_phnum (elf64_hdr_at m (hdr_at fr)))"
  moreover have "unat (eh_phnum (elf64_hdr_at m (hdr_at fr))) < 2 ^ LENGTH(16)"
    by (rule unsigned_less)
  ultimately have i: "i < 2 ^ 16" by simp
  fix p :: platform and m' fp mem_sz m'' fp' mem_sz'
  show "((p, fr, m'' :: addr \<Rightarrow> u8, fp' :: cfile, mem_sz' :: u32, Suc i),
      (p, fr, m, fp :: cfile, mem_sz :: u32, i))
      \<in> measure (\<lambda>(p, fr, m, fp, mem_sz, i). 2 ^ 16 - i)"
    using i by simp
  then show "((p, fr, m'', fp', mem_sz', Suc i), (p, fr, m, fp, mem_sz, i))
      \<in> measure (\<lambda>(p, fr, m, fp, mem_sz, i). 2 ^ 16 - i)" .
qed simp

declare load_elf64_loop.simps [simp del]

definition load_elf64_file :: "env \<Rightarrow> machine \<Rightarrow> cfile \<Rightarrow> addr \<Rightarrow> (machine \<times> cfile \<times> outcome) option" where
  "load_elf64_file E st fp cmd_line =
     (let p = plat E; fr = frm E; sp = printf_at fr;
          fp0 = cilo_seek fp 0 SEEK_SET;
          (m1, fp1, _) = cilo_read p (mem st) (hdr_at fr) (of_nat elf32_header_size) 1 fp0;
          st1 = st\<lparr>mem := m1\<rparr>;
          hdr = elf64_hdr_at m1 (hdr_at fr);
          ident = eh_ident hdr
      in if bad_magic ident then do {
           st2 \<leftarrow> printf p sp st1 ''Bad ELF magic found. Found: %#2x %#2x %#2x %#2x.\<newline>''
             [ucast (ident ! 0), ucast (ident ! 1), ucast (ident ! 2), ucast (ident ! 3)];
           Some (st2, fp1, Returned)
         }
         else if c_not (ident ! ELF_INDEX_CLASS) = ELF_CLASS_64 then do {
           st2 \<leftarrow> printf p sp st1 ''Invalid ELF machine class found. Found: %2x.\<newline>''
             [ucast (ident ! ELF_INDEX_CLASS)];
           Some (st2, fp1, Returned)
         }
         else if ident ! ELF_INDEX_DATA \<noteq> ELF_DATA_MSB then do {
           st2 \<leftarrow> printf p sp st1 ''Non-big endian ELF file detected. Aborting load.\<newline>'' [];
           Some (st2, fp1, Returned)
         }
         else do {
           st2 \<leftarrow> (if eh_ehsize hdr \<noteq> 52 then
                     printf p sp st1 ''Warning: ELF header greater than 52 bytes found. Found: %u\<newline>''
                       [ucast (eh_ehsize hdr)]
                   else Some st1);
           if eh_phnum hdr = 0 then do {
             st3 \<leftarrow> printf p sp st2 ''Found zero segments in ELF file. Aborting load.\<newline>'' [];
             Some (st3, fp1, Returned)
           }
           else
             let fp2 = cilo_seek fp1 (eh_phoff hdr) SEEK_SET;
                 (m3, fp4, mem_sz) = load_elf64_loop p fr (mem st2) fp2 0 0
             in Some (st2\<lparr>mem := m3\<rparr>, fp4, Returned)
         })"

section \<open>Clearing memory\<close>

lemma zero_fold:
  "fold (\<lambda>i m. m(a + of_nat i := 0)) [0..<n] m = mem_write m a (replicate n (0 :: u8))"
proof (induction n)
  case (Suc n)
  have "replicate (Suc n) (0 :: u8) = replicate n 0 @ [0]"
    by (metis replicate_Suc replicate_append_same)
  then have "mem_write m a (replicate (Suc n) 0) = (mem_write m a (replicate n 0))(a + of_nat n := 0)"
    by (simp only: mem_write_append mem_write.simps length_replicate)
  then show ?case unfolding upt_Suc_append [OF le0] fold_append Suc.IH [symmetric] by simp
qed simp

lemma load_elf32_uninitialized_memory_eq:
  "load_elf32_uninitialized_memory m a n = mem_write m a (replicate (unat n) 0)"
  by (simp add: load_elf32_uninitialized_memory_def zero_fold)

lemma load_elf64_uninitialized_memory_eq:
  "load_elf64_uninitialized_memory m a n = mem_write m a (replicate (unat n) 0)"
  by (simp add: load_elf64_uninitialized_memory_def zero_fold)

section \<open>What the 32-bit loader must do\<close>

text \<open>The program header \<open>i\<close> of a file, and the memory image of a segment: the bytes of the
  file, then zeros up to \<open>memsz\<close>.\<close>

definition elf32_phdr_in :: "u8 list \<Rightarrow> elf32_header \<Rightarrow> nat \<Rightarrow> elf32_phdr" where
  "elf32_phdr_in data h i = elf32_phdr_of BE (drop (unat (eh_phoff h) + 32 * i) data)"

definition segment_image :: "u8 list \<Rightarrow> elf32_phdr \<Rightarrow> u8 list" where
  "segment_image data ph =
     take (unat (ph_filesz ph)) (drop (unat (ph_offset ph)) data)
     @ replicate (unat (ph_memsz ph) - unat (ph_filesz ph)) 0"

text \<open>One round of the loop: the header is read into \<open>phdr\<close>, then the segment is placed.\<close>

definition segment_step :: "frame \<Rightarrow> u8 list \<Rightarrow> elf32_header \<Rightarrow> nat \<Rightarrow> (addr \<Rightarrow> u8) \<Rightarrow> (addr \<Rightarrow> u8)" where
  "segment_step fr data h i m =
     (let m1 = mem_write m (phdr_at fr) (take 32 (drop (unat (eh_phoff h) + 32 * i) data));
          ph = elf32_phdr_in data h i
      in if ph_type ph = ELF_PT_LOAD then mem_write m1 (ph_paddr ph) (segment_image data ph)
         else m1)"

definition load_size :: "elf32_phdr \<Rightarrow> u32" where
  "load_size ph = (if ph_type ph = ELF_PT_LOAD then ph_memsz ph else 0)"

text \<open>Where things lie: the file in flash, the two local structures, a segment.\<close>

definition placed :: "frame \<Rightarrow> addr \<Rightarrow> nat \<Rightarrow> bool" where
  "placed fr b n \<longleftrightarrow>
     b \<noteq> 0 \<and> unat b + n < 2 ^ 32 \<and> hdr_at fr \<noteq> 0 \<and> phdr_at fr \<noteq> 0 \<and>
     apart b n (hdr_at fr) 52 \<and> apart b n (phdr_at fr) 32 \<and>
     apart (hdr_at fr) 52 (phdr_at fr) 32"

definition segment_ok :: "frame \<Rightarrow> addr \<Rightarrow> nat \<Rightarrow> elf32_phdr \<Rightarrow> bool" where
  "segment_ok fr b n ph \<longleftrightarrow>
     (ph_type ph = ELF_PT_LOAD \<longrightarrow>
        unat (ph_offset ph) + unat (ph_filesz ph) \<le> n \<and>
        unat (ph_filesz ph) \<le> unat (ph_memsz ph) \<and> ph_paddr ph \<noteq> 0 \<and>
        apart b n (ph_paddr ph) (unat (ph_memsz ph)) \<and>
        apart (hdr_at fr) 52 (ph_paddr ph) (unat (ph_memsz ph)) \<and>
        apart (phdr_at fr) 32 (ph_paddr ph) (unat (ph_memsz ph)))"

lemma length_segment_image:
  assumes "unat (ph_offset ph) + unat (ph_filesz ph) \<le> length data"
    and "unat (ph_filesz ph) \<le> unat (ph_memsz ph)"
  shows "length (segment_image data ph) = unat (ph_memsz ph)"
  using assms by (simp add: segment_image_def)

lemma file_base_nonzero:
  "placed fr (file_base p fp) n \<Longrightarrow> k \<le> n \<Longrightarrow> file_base p fp + of_nat k \<noteq> 0"
  unfolding placed_def by (rule base_offset_nonzero) auto

text \<open>The 32-bit loader seen through the interface of the file operations.\<close>

lemma load_elf32_section_io:
  "load_elf32_section p m fp a off n = read_bytes p m a n (seek_set fp off)"
  by (simp add: load_elf32_section_def read_bytes_def seek_set_def)

lemma seg_load:
  assumes "image_at m (file_base p fp) data" and "file_len fp = of_nat (length data)"
    and "placed fr (file_base p fp) (length data)" and "segment_ok fr (file_base p fp) (length data) ph"
    and "ph_type ph = ELF_PT_LOAD"
  shows "fst (load_elf32_section p m fp (ph_paddr ph) (ph_offset ph) (ph_filesz ph)) =
     mem_write m (ph_paddr ph) (take (unat (ph_filesz ph)) (drop (unat (ph_offset ph)) data))"
proof -
  have ok: "unat (ph_offset ph) + unat (ph_filesz ph) \<le> length data" "ph_paddr ph \<noteq> 0"
    and ap: "apart (file_base p fp) (length data) (ph_paddr ph) (unat (ph_filesz ph))"
    using assms(4,5) by (auto simp: segment_ok_def apart_def)
  have nz: "file_base p fp + of_nat (unat (ph_offset ph)) \<noteq> 0"
    using file_base_nonzero [OF assms(3), of "unat (ph_offset ph)"] ok(1) by simp
  show ?thesis
    using cio.seek_read_at(1) [OF assms(1,2) ok(1) ok(2) ap nz] by (simp add: load_elf32_section_io)
qed

lemma seek_set_within:
  "file_len fp = of_nat n \<Longrightarrow> n < 2 ^ 31 \<Longrightarrow> k \<le> n \<Longrightarrow> seek_set fp (of_nat k) = fp\<lparr>file_pos := of_nat k\<rparr>"
  by (simp add: seek_set_def cilo_seek_def word_less_nat_alt)

section \<open>The loop over the program headers\<close>

text \<open>The invariant: the file in flash and the local header are intact, and the file position
  is that of the next program header.\<close>

definition loop_inv ::
    "platform \<Rightarrow> frame \<Rightarrow> u8 list \<Rightarrow> elf32_header \<Rightarrow> nat \<Rightarrow> (addr \<Rightarrow> u8) \<Rightarrow> cfile \<Rightarrow> bool" where
  "loop_inv p fr data h i m fp \<longleftrightarrow>
     image_at m (file_base p fp) data \<and> file_len fp = of_nat (length data) \<and>
     elf32_header_at m (hdr_at fr) = h \<and> file_pos fp = of_nat (unat (eh_phoff h) + 32 * i)"

lemma elf32_header_at_write:
  "apart a 52 b (length bs) \<Longrightarrow> elf32_header_at (mem_write m b bs) a = elf32_header_at m a"
  by (simp add: elf32_header_at_def elf32_header_size_def mem_read_write_apart)

lemma elf32_phdr_at_write:
  "apart a 32 b (length bs) \<Longrightarrow> elf32_phdr_at (mem_write m b bs) a = elf32_phdr_at m a"
  by (simp add: elf32_phdr_at_def elf32_phdr_size_def mem_read_write_apart)

lemma phdr_read:
  assumes "image_at m (file_base p fp) data" and "placed fr (file_base p fp) (length data)"
    and "file_pos fp = of_nat k" and "k + 32 \<le> length data"
  defines "m1 \<equiv> mem_write m (phdr_at fr) (take 32 (drop k data))"
  shows "cilo_read p m (phdr_at fr) (of_nat elf32_phdr_size) 1 fp =
      (m1, fp\<lparr>file_pos := of_nat (k + 32)\<rparr>, 32)"
    and "elf32_phdr_at m1 (phdr_at fr) = elf32_phdr_of BE (drop k data)"
    and "image_at m1 (file_base p fp) data"
    and "elf32_header_at m1 (hdr_at fr) = elf32_header_at m (hdr_at fr)"
proof -
  have pl: "file_base p fp \<noteq> 0" "unat (file_base p fp) + length data < 2 ^ 32" "phdr_at fr \<noteq> 0"
    "apart (file_base p fp) (length data) (phdr_at fr) 32" "apart (hdr_at fr) 52 (phdr_at fr) 32"
    using assms(2) by (auto simp: placed_def)
  note rd = local_read [OF assms(1,3,4) pl(1-4), folded m1_def]
  show "cilo_read p m (phdr_at fr) (of_nat elf32_phdr_size) 1 fp =
      (m1, fp\<lparr>file_pos := of_nat (k + 32)\<rparr>, 32)"
    using rd(1) by (simp add: elf32_phdr_size_def)
  show "elf32_phdr_at m1 (phdr_at fr) = elf32_phdr_of BE (drop k data)"
    using rd(3) elf32_phdr_of_take [of "drop k data" BE] assms(4)
    by (simp add: elf32_phdr_at_def elf32_phdr_size_def)
  show "image_at m1 (file_base p fp) data" by (rule rd(2))
  show "elf32_header_at m1 (hdr_at fr) = elf32_header_at m (hdr_at fr)"
    unfolding m1_def using pl(5) assms(4) by (intro elf32_header_at_write) simp
qed

text \<open>A segment: its file bytes and the zeros after them, written one after the other.\<close>

lemma seg_fill:
  assumes "unat (ph_offset ph) + unat (ph_filesz ph) \<le> length data"
    and "unat (ph_filesz ph) \<le> unat (ph_memsz ph)"
    and m2_def: "m2 = mem_write m (ph_paddr ph) (take (unat (ph_filesz ph)) (drop (unat (ph_offset ph)) data))"
  shows "(if ph_memsz ph - ph_filesz ph > 0
          then load_elf32_uninitialized_memory m2 (ph_paddr ph + ph_filesz ph)
                 (ph_memsz ph - ph_filesz ph)
          else m2) = mem_write m (ph_paddr ph) (segment_image data ph)"
proof -
  have sub: "unat (ph_memsz ph - ph_filesz ph) = unat (ph_memsz ph) - unat (ph_filesz ph)"
    using assms(2) by (intro unat_sub) (simp add: word_le_nat_alt)
  then have zero: "\<not> 0 < ph_memsz ph - ph_filesz ph \<Longrightarrow> unat (ph_memsz ph) - unat (ph_filesz ph) = 0"
    by (simp add: word_less_nat_alt)
  have len: "length (take (unat (ph_filesz ph)) (drop (unat (ph_offset ph)) data)) = unat (ph_filesz ph)"
    using assms(1) by simp
  show ?thesis
    using zero len sub
    by (simp add: load_elf32_uninitialized_memory_eq segment_image_def mem_write_append m2_def)
qed

text \<open>A loadable segment, from the read header to the seek for the next one.\<close>

lemma section_loaded:
  assumes "image_at m (file_base p fp) data" and "file_len fp = of_nat (length data)"
    and "placed fr (file_base p fp) (length data)" and "segment_ok fr (file_base p fp) (length data) ph"
    and "ph_type ph = ELF_PT_LOAD"
  shows "\<exists>x. load_elf32_section p m fp (ph_paddr ph) (ph_offset ph) (ph_filesz ph) =
     (mem_write m (ph_paddr ph) (take (unat (ph_filesz ph)) (drop (unat (ph_offset ph)) data)),
      fp\<lparr>file_pos := x\<rparr>)"
proof -
  have "snd (load_elf32_section p m fp (ph_paddr ph) (ph_offset ph) (ph_filesz ph)) =
      fp\<lparr>file_pos := file_pos (cilo_seek fp (ph_offset ph) SEEK_SET) + ph_filesz ph\<rparr>"
    by (simp add: load_elf32_section_def cilo_read_io cilo_seek_def)
  with seg_load [OF assms] show ?thesis by (metis prod.collapse)
qed

lemma load_elf32_segment:
  assumes img: "image_at m1 (file_base p fp) data" and lenf: "file_len fp = of_nat (length data)"
    and pl: "placed fr (file_base p fp) (length data)" and ok: "segment_ok fr (file_base p fp) (length data) ph"
    and load: "ph_type ph = ELF_PT_LOAD"
    and hd: "elf32_header_at m (hdr_at fr) = h" "elf32_header_at m1 (hdr_at fr) = h"
    and ph: "elf32_phdr_at m1 (phdr_at fr) = ph" and i: "i < unat (eh_phnum h)"
    and rd: "cilo_read p m (phdr_at fr) (of_nat elf32_phdr_size) 1 fp0 = (m1, fp, r)"
    and next_at: "unat (eh_phoff h) + 32 * Suc i \<le> length data"
  defines "m3 \<equiv> mem_write m1 (ph_paddr ph) (segment_image data ph)"
  shows "load_elf32_loop p fr m fp0 ms i =
      load_elf32_loop p fr m3 (fp\<lparr>file_pos := of_nat (unat (eh_phoff h) + 32 * Suc i)\<rparr>)
        (ms + ph_memsz ph) (Suc i)"
    and "image_at m3 (file_base p fp) data" and "elf32_header_at m3 (hdr_at fr) = h"
proof -
  have okp: "unat (ph_offset ph) + unat (ph_filesz ph) \<le> length data"
    "unat (ph_filesz ph) \<le> unat (ph_memsz ph)"
    and aps: "apart (file_base p fp) (length data) (ph_paddr ph) (unat (ph_memsz ph))"
    "apart (hdr_at fr) 52 (ph_paddr ph) (unat (ph_memsz ph))"
    "apart (phdr_at fr) 32 (ph_paddr ph) (unat (ph_memsz ph))"
    using ok load by (auto simp: segment_ok_def)
  define m2 where "m2 = mem_write m1 (ph_paddr ph) (take (unat (ph_filesz ph)) (drop (unat (ph_offset ph)) data))"
  have len: "length (segment_image data ph) = unat (ph_memsz ph)"
    using okp by (rule length_segment_image)
  obtain x where sec: "load_elf32_section p m1 fp (ph_paddr ph) (ph_offset ph) (ph_filesz ph) =
      (m2, fp\<lparr>file_pos := x\<rparr>)"
    using section_loaded [OF img lenf pl ok load] by (auto simp: m2_def)
  have off: "eh_phoff h + of_nat elf32_phdr_size * (of_nat i + 1)
      = of_nat (unat (eh_phoff h) + 32 * Suc i)"
    by (simp add: elf32_phdr_size_def algebra_simps)
  have sk: "cilo_seek (fp\<lparr>file_pos := x\<rparr>) (eh_phoff h + of_nat elf32_phdr_size * (of_nat i + 1)) SEEK_SET
      = fp\<lparr>file_pos := of_nat (unat (eh_phoff h) + 32 * Suc i)\<rparr>"
    using seek_set_within [of "fp\<lparr>file_pos := x\<rparr>", OF _ _ next_at] lenf img
    by (simp only: off) (simp add: seek_set_def image_at_def)
  have ph2: "elf32_phdr_at m2 (phdr_at fr) = ph"
  proof -
    have "apart (phdr_at fr) 32 (ph_paddr ph) (unat (ph_filesz ph))"
      using aps(3) okp(2) by (auto intro: apart_mono)
    then show ?thesis using ph okp(1) by (simp add: m2_def elf32_phdr_at_write)
  qed
  show hd3: "elf32_header_at m3 (hdr_at fr) = h"
    using aps(2) len hd(2) by (simp add: m3_def elf32_header_at_write)
  show "image_at m3 (file_base p fp) data"
    using img aps(1) len by (simp add: m3_def image_at_write)
  show "load_elf32_loop p fr m fp0 ms i =
      load_elf32_loop p fr m3 (fp\<lparr>file_pos := of_nat (unat (eh_phoff h) + 32 * Suc i)\<rparr>)
        (ms + ph_memsz ph) (Suc i)"
    using i
    by (subst load_elf32_loop.simps)
      (simp only: rd Let_def prod.case hd ph sec ph2 load if_True if_False simp_thms
        seg_fill [OF okp m2_def, folded m3_def] hd3 sk)
qed

lemma load_elf32_round:
  assumes inv: "loop_inv p fr data h i m fp" and i: "i < unat (eh_phnum h)"
    and pl: "placed fr (file_base p fp) (length data)"
    and ok: "segment_ok fr (file_base p fp) (length data) (elf32_phdr_in data h i)"
    and fits: "unat (eh_phoff h) + 32 * unat (eh_phnum h) \<le> length data"
  defines "fp' \<equiv> fp\<lparr>file_pos := of_nat (unat (eh_phoff h) + 32 * Suc i)\<rparr>"
  shows "load_elf32_loop p fr m fp ms i =
      load_elf32_loop p fr (segment_step fr data h i m) fp'
        (ms + load_size (elf32_phdr_in data h i)) (Suc i)" (is ?loop)
    and "loop_inv p fr data h (Suc i) (segment_step fr data h i m) fp'" (is ?inv)
proof -
  define k where "k = unat (eh_phoff h) + 32 * i"
  define ph where "ph = elf32_phdr_in data h i"
  define m1 where "m1 = mem_write m (phdr_at fr) (take 32 (drop k data))"
  have k: "k + 32 \<le> length data" using i fits by (simp add: k_def)
  have next_at: "unat (eh_phoff h) + 32 * Suc i \<le> length data" using k by (simp add: k_def)
  have img: "image_at m (file_base p fp) data" and lenf: "file_len fp = of_nat (length data)"
    and hd: "elf32_header_at m (hdr_at fr) = h" and pos: "file_pos fp = of_nat k"
    using inv by (auto simp: loop_inv_def k_def)
  have fp1: "fp\<lparr>file_pos := of_nat (k + 32)\<rparr> = fp'" by (simp add: fp'_def k_def algebra_simps)
  note read = phdr_read [OF img pl pos k, folded m1_def, unfolded fp1]
  have ph: "elf32_phdr_at m1 (phdr_at fr) = ph"
    using read(2) by (simp add: ph_def elf32_phdr_in_def k_def)
  have fp'': "fp'\<lparr>file_pos := of_nat (unat (eh_phoff h) + 32 * Suc i)\<rparr> = fp'"
    by (simp add: fp'_def)
  have fpf: "file_base p fp' = file_base p fp" "file_len fp' = of_nat (length data)"
    "placed fr (file_base p fp') (length data)" "segment_ok fr (file_base p fp') (length data) ph"
    using pl ok lenf by (simp_all add: fp'_def ph_def)
  have "?loop \<and> ?inv"
  proof (cases "ph_type ph = ELF_PT_LOAD")
    case False
    then have "segment_step fr data h i m = m1"
      by (simp add: segment_step_def ph_def m1_def k_def Let_def)
    moreover have "load_elf32_loop p fr m fp ms i = load_elf32_loop p fr m1 fp' ms (Suc i)"
      using False i by (subst load_elf32_loop.simps) (simp add: Let_def hd read(1) ph)
    ultimately show ?thesis
      using False read(3,4) hd fpf by (simp add: load_size_def loop_inv_def flip: ph_def) (simp add: fp'_def)
  next
    case True
    then have step: "segment_step fr data h i m = mem_write m1 (ph_paddr ph) (segment_image data ph)"
      by (simp add: segment_step_def ph_def m1_def k_def Let_def)
    note seg = load_elf32_segment [OF _ fpf(2-4) True hd _ ph i read(1) next_at,
        unfolded fpf(1), OF read(3) trans [OF read(4) hd], unfolded fp'', folded step]
    show ?thesis
      using True seg fpf by (simp add: load_size_def loop_inv_def flip: ph_def) (simp add: fp'_def)
  qed
  then show ?loop and ?inv by blast+
qed

lemma load_elf32_loop_all:
  assumes pl: "placed fr (file_base p fp) (length data)"
    and ok: "\<And>i. i < unat (eh_phnum h) \<Longrightarrow> segment_ok fr (file_base p fp) (length data) (elf32_phdr_in data h i)"
    and fits: "unat (eh_phoff h) + 32 * unat (eh_phnum h) \<le> length data"
  defines "fp' \<equiv> fp\<lparr>file_pos := of_nat (unat (eh_phoff h) + 32 * unat (eh_phnum h))\<rparr>"
  shows "i \<le> unat (eh_phnum h) \<Longrightarrow> loop_inv p fr data h i m (fp\<lparr>file_pos := x\<rparr>) \<Longrightarrow>
     load_elf32_loop p fr m (fp\<lparr>file_pos := x\<rparr>) ms i =
       (fold (segment_step fr data h) [i..<unat (eh_phnum h)] m, fp',
        ms + sum_list (map (\<lambda>i. load_size (elf32_phdr_in data h i)) [i..<unat (eh_phnum h)])) \<and>
     loop_inv p fr data h (unat (eh_phnum h))
       (fold (segment_step fr data h) [i..<unat (eh_phnum h)] m) fp'"
proof (induction "unat (eh_phnum h) - i" arbitrary: i m x ms)
  case 0
  then have "i = unat (eh_phnum h)" by simp
  with 0 show ?case
    by (subst load_elf32_loop.simps) (simp add: loop_inv_def fp'_def)
next
  case (Suc n)
  then have i: "i < unat (eh_phnum h)" by simp
  note round = load_elf32_round [OF Suc.prems(2) i, simplified, OF pl ok [OF i] fits]
  have "n = unat (eh_phnum h) - Suc i" using Suc.hyps(2) by simp
  from Suc.hyps(1) [OF this _ round(2)] i
  show ?case unfolding round(1) upt_conv_Cons [OF i] by (simp add: add.assoc)
qed

section \<open>The loaded image\<close>

definition elf32_image :: "frame \<Rightarrow> u8 list \<Rightarrow> (addr \<Rightarrow> u8) \<Rightarrow> (addr \<Rightarrow> u8)" where
  "elf32_image fr data m =
     (let h = elf32_header_of BE data in fold (segment_step fr data h) [0..<unat (eh_phnum h)] m)"

definition elf32_segments :: "u8 list \<Rightarrow> elf32_phdr list" where
  "elf32_segments data =
     (let h = elf32_header_of BE data
      in filter (\<lambda>ph. ph_type ph = ELF_PT_LOAD)
           (map (elf32_phdr_in data h) [0..<unat (eh_phnum h)]))"

definition in_segment :: "elf32_phdr \<Rightarrow> addr \<Rightarrow> bool" where
  "in_segment ph x \<longleftrightarrow> in_range (ph_paddr ph) (unat (ph_memsz ph)) x"

text \<open>A big-endian 32-bit executable with program headers, whose segments the target holds.\<close>

definition elf32_loadable :: "frame \<Rightarrow> addr \<Rightarrow> u8 list \<Rightarrow> bool" where
  "elf32_loadable fr b data \<longleftrightarrow>
     (let h = elf32_header_of BE data
      in 52 \<le> length data \<and> take 4 data = ELF_MAGIC \<and> data ! 4 = ELF_CLASS_32 \<and>
         data ! 5 = ELF_DATA_MSB \<and> eh_ehsize h = 52 \<and> eh_phnum h \<noteq> 0 \<and>
         unat (eh_phoff h) + 32 * unat (eh_phnum h) \<le> length data \<and>
         (\<forall>ph \<in> set (map (elf32_phdr_in data h) [0..<unat (eh_phnum h)]).
            segment_ok fr b (length data) ph))"

text \<open>The segments one after the other, without the stores to the local header.\<close>

definition place_segment :: "u8 list \<Rightarrow> elf32_phdr \<Rightarrow> (addr \<Rightarrow> u8) \<Rightarrow> (addr \<Rightarrow> u8)" where
  "place_segment data ph m = mem_write m (ph_paddr ph) (segment_image data ph)"

lemma segment_step_outside:
  assumes "\<not> in_range (phdr_at fr) 32 x" and "m x = m' x"
  shows "segment_step fr data h i m x =
    (if ph_type (elf32_phdr_in data h i) = ELF_PT_LOAD
     then place_segment data (elf32_phdr_in data h i) m' x else m' x)"
proof -
  have "mem_write m (phdr_at fr) (take 32 (drop k data)) x = m' x" for k
    using assms by (subst mem_write_outside) (auto simp: in_range_def)
  then show ?thesis
    by (auto simp: segment_step_def place_segment_def Let_def intro: mem_write_same_at)
qed

lemma elf32_image_outside:
  assumes "\<not> in_range (phdr_at fr) 32 x"
  shows "elf32_image fr data m x = fold (place_segment data) (elf32_segments data) m x"
proof -
  have "fold (segment_step fr data h) is m x =
      fold (place_segment data)
        (filter (\<lambda>ph. ph_type ph = ELF_PT_LOAD) (map (elf32_phdr_in data h) is)) m x" for h "is"
    using assms by (induction "is" rule: rev_induct) (auto simp: segment_step_outside)
  then show ?thesis by (simp add: elf32_image_def elf32_segments_def Let_def)
qed

lemma place_segments_outside:
  assumes "list_all (\<lambda>ph. length (segment_image data ph) = unat (ph_memsz ph)) segs"
    and "list_all (\<lambda>ph. \<not> in_segment ph x) segs"
  shows "fold (place_segment data) segs m x = m x"
  using assms
  by (induction segs arbitrary: m) (simp_all add: place_segment_def mem_write_outside in_segment_def)

definition segments_apart :: "elf32_phdr \<Rightarrow> elf32_phdr \<Rightarrow> bool" where
  "segments_apart a b \<longleftrightarrow> apart (ph_paddr a) (unat (ph_memsz a)) (ph_paddr b) (unat (ph_memsz b))"

lemma place_segments_inside:
  assumes "list_all (\<lambda>ph. length (segment_image data ph) = unat (ph_memsz ph)) segs"
    and "sorted_wrt segments_apart segs" and "ph \<in> set segs"
  shows "mem_read (fold (place_segment data) segs m) (ph_paddr ph) (unat (ph_memsz ph))
    = segment_image data ph"
  using assms
proof (induction segs arbitrary: m)
  case (Cons a segs)
  show ?case
  proof (cases "ph \<in> set segs")
    case True
    with Cons show ?thesis by simp
  next
    case False
    with Cons.prems have a: "ph = a" and len: "length (segment_image data ph) = unat (ph_memsz ph)"
      and ap: "list_all (segments_apart ph) segs"
      by (auto simp: list_all_iff)
    note bound = unat_u32_le [of "ph_memsz ph"]
    have "fold (place_segment data) segs (place_segment data ph m) (ph_paddr ph + of_nat i)
        = place_segment data ph m (ph_paddr ph + of_nat i)" if "i < unat (ph_memsz ph)" for i
    proof (rule place_segments_outside)
      have "in_range (ph_paddr ph) (unat (ph_memsz ph)) (ph_paddr ph + of_nat i)"
        using that bound by (rule in_range_offset)
      then show "list_all (\<lambda>q. \<not> in_segment q (ph_paddr ph + of_nat i)) segs"
        using ap by (auto simp: list_all_iff segments_apart_def in_segment_def dest: apart_not_in_range)
    qed (use Cons.prems in simp)
    then have "mem_read (fold (place_segment data) segs (place_segment data ph m)) (ph_paddr ph) (unat (ph_memsz ph))
        = mem_read (place_segment data ph m) (ph_paddr ph) (unat (ph_memsz ph))"
      by (rule mem_read_cong)
    also have "\<dots> = segment_image data ph"
      using len bound mem_read_write_same [of "segment_image data ph" m "ph_paddr ph"]
      by (simp add: place_segment_def)
    finally show ?thesis by (simp add: a)
  qed
qed simp

text \<open>What the loaded memory holds: every segment, and elsewhere what was there before.\<close>

lemma elf32_loadable_segments:
  assumes "elf32_loadable fr b data" and "ph \<in> set (elf32_segments data)"
  shows "length (segment_image data ph) = unat (ph_memsz ph)"
    and "apart (phdr_at fr) 32 (ph_paddr ph) (unat (ph_memsz ph))"
  using assms
  by (auto simp: elf32_loadable_def elf32_segments_def segment_ok_def Let_def
      intro!: length_segment_image)

lemma elf32_image_segment:
  assumes ld: "elf32_loadable fr b data" and ap: "sorted_wrt segments_apart (elf32_segments data)"
    and ph: "ph \<in> set (elf32_segments data)"
  shows "mem_read (elf32_image fr data m) (ph_paddr ph) (unat (ph_memsz ph)) = segment_image data ph"
proof -
  note bound = unat_u32_le [of "ph_memsz ph"]
  have "mem_read (elf32_image fr data m) (ph_paddr ph) (unat (ph_memsz ph)) =
      mem_read (fold (place_segment data) (elf32_segments data) m) (ph_paddr ph) (unat (ph_memsz ph))"
  proof (rule mem_read_cong)
    fix i assume "i < unat (ph_memsz ph)"
    then have "in_range (ph_paddr ph) (unat (ph_memsz ph)) (ph_paddr ph + of_nat i)"
      using bound by (rule in_range_offset)
    then have "\<not> in_range (phdr_at fr) 32 (ph_paddr ph + of_nat i)"
      using elf32_loadable_segments(2) [OF ld ph] apart_sym apart_not_in_range by blast
    then show "elf32_image fr data m (ph_paddr ph + of_nat i)
        = fold (place_segment data) (elf32_segments data) m (ph_paddr ph + of_nat i)"
      by (rule elf32_image_outside)
  qed
  also have "\<dots> = segment_image data ph"
    using elf32_loadable_segments(1) [OF ld] ap ph
    by (intro place_segments_inside) (auto simp: list_all_iff)
  finally show ?thesis .
qed

lemma elf32_image_elsewhere:
  assumes "elf32_loadable fr b data" and "\<not> in_range (phdr_at fr) 32 x"
    and "\<And>ph. ph \<in> set (elf32_segments data) \<Longrightarrow> \<not> in_segment ph x"
  shows "elf32_image fr data m x = m x"
  using elf32_loadable_segments(1) [OF assms(1)] assms(3)
  by (simp add: elf32_image_outside [OF assms(2)])
    (intro place_segments_outside; simp add: list_all_iff)

section \<open>Booting a 32-bit image\<close>

lemma hdr_read:
  assumes "image_at m (file_base p fp) data" and "placed fr (file_base p fp) (length data)"
    and "file_pos fp = 0" and "52 \<le> length data"
  defines "m1 \<equiv> mem_write m (hdr_at fr) (take 52 data)"
  shows "cilo_read p m (hdr_at fr) (of_nat elf32_header_size) 1 fp = (m1, fp\<lparr>file_pos := 52\<rparr>, 52)"
    and "elf32_header_at m1 (hdr_at fr) = elf32_header_of BE data"
    and "image_at m1 (file_base p fp) data"
proof -
  have pl: "file_base p fp \<noteq> 0" "unat (file_base p fp) + length data < 2 ^ 32" "hdr_at fr \<noteq> 0"
    "apart (file_base p fp) (length data) (hdr_at fr) 52"
    using assms(2) by (auto simp: placed_def)
  have "file_pos fp = of_nat 0" "0 + 52 \<le> length data" using assms(3,4) by simp_all
  note rd = local_read [OF assms(1) this pl, simplified, folded m1_def]
  show "cilo_read p m (hdr_at fr) (of_nat elf32_header_size) 1 fp = (m1, fp\<lparr>file_pos := 52\<rparr>, 52)"
    using rd(1) by (simp add: elf32_header_size_def)
  show "elf32_header_at m1 (hdr_at fr) = elf32_header_of BE data"
    using rd(3) elf32_header_of_take [of data BE] assms(4)
    by (simp add: elf32_header_at_def elf32_header_size_def)
  show "image_at m1 (file_base p fp) data" by (rule rd(2))
qed

definition loaded_text :: "platform \<Rightarrow> u32 \<Rightarrow> u8 list" where
  "loaded_text p n =
     console_text p (bytes_of ''Loaded '' @ decimal n @ bytes_of '' bytes.\<newline>'')
     @ console_text p (bytes_of ''Kicking into Linux.\<newline>'')"

lemma printf_loaded:
  "printf p sp st ''Loaded %d bytes.\<newline>'' [n] =
     Some (st\<lparr>con_out := con_out st @ console_text p
       (bytes_of ''Loaded '' @ decimal n @ bytes_of '' bytes.\<newline>'')\<rparr>)"
  using printf_text_d [of "''Loaded ''" "'' bytes.\<newline>''" p sp st n] by (simp add: plain_text_def)

lemma printf_kicking:
  "printf p sp st ''Kicking into Linux.\<newline>'' [] =
     Some (st\<lparr>con_out := con_out st @ console_text p (bytes_of ''Kicking into Linux.\<newline>'')\<rparr>)"
  by (rule printf_text) simp_all

definition total_memsz :: "u8 list \<Rightarrow> u32" where
  "total_memsz data = sum_list (map ph_memsz (elf32_segments data))"

lemma total_memsz_loop:
  "sum_list (map (\<lambda>i. load_size (f i)) is) =
     sum_list (map ph_memsz (filter (\<lambda>ph. ph_type ph = ELF_PT_LOAD) (map f is)))"
  by (induction "is") (simp_all add: load_size_def)

lemma load_elf32_loop_image:
  assumes img: "image_at m (file_base p fp) data" and lenf: "file_len fp = of_nat (length data)"
    and pl: "placed fr (file_base p fp) (length data)" and ld: "elf32_loadable fr (file_base p fp) data"
    and hd: "elf32_header_at m (hdr_at fr) = elf32_header_of BE data"
  defines "h \<equiv> elf32_header_of BE data"
  shows "load_elf32_loop p fr m (cilo_seek (cilo_seek fp (eh_phoff h) SEEK_SET) (eh_phoff h) SEEK_SET) 0 0 =
     (elf32_image fr data m,
      fp\<lparr>file_pos := of_nat (unat (eh_phoff h) + 32 * unat (eh_phnum h))\<rparr>, total_memsz data)"
    and "elf32_header_at (elf32_image fr data m) (hdr_at fr) = h"
proof -
  have fits: "unat (eh_phoff h) + 32 * unat (eh_phnum h) \<le> length data"
    using ld by (simp add: elf32_loadable_def Let_def h_def)
  have small: "length data < 2 ^ 31" using img by (simp add: image_at_def)
  have sk: "cilo_seek f (eh_phoff h) SEEK_SET = f\<lparr>file_pos := eh_phoff h\<rparr>"
    if "file_len f = of_nat (length data)" for f
    using seek_set_within [OF that small, of "unat (eh_phoff h)"] fits
    by (simp add: seek_set_def)
  have "loop_inv p fr data h 0 m (fp\<lparr>file_pos := eh_phoff h\<rparr>)"
    using img lenf hd by (simp add: loop_inv_def h_def)
  from load_elf32_loop_all [OF pl _ fits _ this, of 0] ld
  have *: "load_elf32_loop p fr m (fp\<lparr>file_pos := eh_phoff h\<rparr>) 0 0 =
      (elf32_image fr data m, fp\<lparr>file_pos := of_nat (unat (eh_phoff h) + 32 * unat (eh_phnum h))\<rparr>,
       total_memsz data) \<and>
      loop_inv p fr data h (unat (eh_phnum h)) (elf32_image fr data m)
        (fp\<lparr>file_pos := of_nat (unat (eh_phoff h) + 32 * unat (eh_phnum h))\<rparr>)"
    by (simp add: elf32_loadable_def elf32_image_def elf32_segments_def total_memsz_def
        total_memsz_loop Let_def flip: h_def)
  then show "load_elf32_loop p fr m (cilo_seek (cilo_seek fp (eh_phoff h) SEEK_SET) (eh_phoff h) SEEK_SET) 0 0 =
     (elf32_image fr data m,
      fp\<lparr>file_pos := of_nat (unat (eh_phoff h) + 32 * unat (eh_phnum h))\<rparr>, total_memsz data)"
    using lenf by (simp add: sk)
  show "elf32_header_at (elf32_image fr data m) (hdr_at fr) = h"
    using * by (simp add: loop_inv_def)
qed

lemma elf32_loadable_ident:
  assumes "elf32_loadable fr b data"
  defines "ident \<equiv> eh_ident (elf32_header_of BE data)"
  shows "\<not> bad_magic ident" and "ident ! ELF_INDEX_CLASS = ELF_CLASS_32"
    and "ident ! ELF_INDEX_DATA = ELF_DATA_MSB"
proof -
  have ld: "52 \<le> length data" "take 4 data = ELF_MAGIC" "data ! 4 = ELF_CLASS_32" "data ! 5 = ELF_DATA_MSB"
    using assms(1) by (auto simp: elf32_loadable_def Let_def)
  have nth: "ident ! i = data ! i" if "i < 16" for i
    using that ld(1) by (simp add: ident_def elf32_header_of_def)
  have "ident ! i = ELF_MAGIC ! i" if "i < 4" for i
    using that nth nth_take [of i 4 data] by (simp add: ld(2))
  then show "\<not> bad_magic ident" by (simp add: bad_magic_def)
  show "ident ! ELF_INDEX_CLASS = ELF_CLASS_32" "ident ! ELF_INDEX_DATA = ELF_DATA_MSB"
    using nth ld by (simp_all add: ELF_INDEX_CLASS_def ELF_INDEX_DATA_def)
qed

lemma load_elf32_file_boots:
  assumes img: "image_at (mem st) (file_base p fp) data" and lenf: "file_len fp = of_nat (length data)"
    and pos: "file_pos fp = 0"
    and pl: "placed fr (file_base p fp) (length data)" and ld: "elf32_loadable fr (file_base p fp) data"
    and env: "plat E = p" "frm E = fr"
  defines "h \<equiv> elf32_header_of BE data"
  shows "load_elf32_file E st fp cmd_line =
     Some (st\<lparr>mem := elf32_image fr data (mem_write (mem st) (hdr_at fr) (take 52 data)),
              con_out := con_out st @ loaded_text p (total_memsz data)\<rparr>,
           fp\<lparr>file_pos := eh_phoff h + 32 * ucast (eh_phnum h)\<rparr>,
           Jump (eh_entry h) (c_memsz p (rom E) (regs0 E)) cmd_line)"
proof -
  define m1 where "m1 = mem_write (mem st) (hdr_at fr) (take 52 data)"
  have "52 \<le> length data" and sz: "eh_ehsize h = 52" and pn: "eh_phnum h \<noteq> 0"
    using ld by (auto simp: elf32_loadable_def Let_def h_def)
  note read = hdr_read [OF img pl pos this(1), folded m1_def h_def]
  note ids = elf32_loadable_ident [OF ld, folded h_def]
  have cls: "\<not> c_not (eh_ident h ! ELF_INDEX_CLASS) = ELF_CLASS_32"
    by (simp add: ids(2) c_not_def ELF_CLASS_32_def)
  note loop = load_elf32_loop_image [of m1 p "fp\<lparr>file_pos := 52\<rparr>", simplified, OF read(3) lenf pl ld
      read(2) [unfolded h_def], folded h_def]
  show ?thesis
    unfolding load_elf32_file_def env read(1) Let_def prod.case read(2)
    using loop ids cls sz pn
    by (simp add: printf_loaded printf_kicking loaded_text_def flip: m1_def)
qed

section \<open>Files that are turned down\<close>

text \<open>The messages always fit the buffer, so a refusal returns to the caller.\<close>

lemma printf_bad_magic:
  "\<exists>out. printf p sp st ''Bad ELF magic found. Found: %#2x %#2x %#2x %#2x.\<newline>'' [a, b, c, d] =
     Some (st\<lparr>con_out := con_out st @ out\<rparr>)"
proof -
  let ?H = "\<lambda>fmt. CHR ''%'' # CHR ''#'' # CHR ''2'' # CHR ''x'' # fmt"
  let ?out = "bytes_of ''Bad ELF magic found. Found: '' @ hex_field 96 a @ bytes_of '' '' @ hex_field 96 b
    @ bytes_of '' '' @ hex_field 96 c @ bytes_of '' '' @ hex_field 96 d @ bytes_of ''.\<newline>'' @ []"
  have "prints_from (mem st) sp sp (''Bad ELF magic found. Found: '' @ ?H ('' '' @ ?H ('' '' @ ?H ('' ''
      @ ?H (''.\<newline>'' @ []))))) [a, b, c, d] ?out"
    by (intro prints_from_text prints_from_hash2x prints_from_Nil) simp_all
  then have "prints (mem st) sp (''Bad ELF magic found. Found: '' @ ?H ('' '' @ ?H ('' '' @ ?H ('' ''
      @ ?H (''.\<newline>'' @ []))))) [a, b, c, d] ?out"
  proof (rule prints_fromD)
    show "0 \<notin> set ?out" using hex_field_bytes(2) by simp
    show "length ?out < 1024"
      using hex_field_bytes(1) [of 96 a] hex_field_bytes(1) [of 96 b] hex_field_bytes(1) [of 96 c]
        hex_field_bytes(1) [of 96 d] by simp
  qed
  from printf_prints [OF this, of p] show ?thesis by (simp, intro exI) (rule refl)
qed

lemma printf_bad_class:
  "\<exists>out. printf p sp st ''Invalid ELF machine class found. Found: %2x.\<newline>'' [a] =
     Some (st\<lparr>con_out := con_out st @ out\<rparr>)"
proof -
  let ?f = "''Invalid ELF machine class found. Found: '' @ CHR ''%'' # CHR ''2'' # CHR ''x'' # ''.\<newline>'' @ []"
  let ?out = "bytes_of ''Invalid ELF machine class found. Found: '' @ hex_field 32 a @ bytes_of ''.\<newline>'' @ []"
  have "prints_from (mem st) sp sp ?f [a] ?out"
    by (intro prints_from_text prints_from_2x prints_from_Nil) simp_all
  then have "prints (mem st) sp ?f [a] ?out"
  proof (rule prints_fromD)
    show "0 \<notin> set ?out" using hex_field_bytes(2) by simp
    show "length ?out < 1024" using hex_field_bytes(1) [of 32 a] by simp
  qed
  from printf_prints [OF this, of p] show ?thesis by (simp, intro exI) (rule refl)
qed

lemma printf_ehsize:
  "\<exists>out. printf p sp st ''Warning: ELF header greater than 52 bytes found. Found: %u\<newline>'' [a] =
     Some (st\<lparr>con_out := con_out st @ out\<rparr>)"
proof -
  let ?f = "''Warning: ELF header greater than 52 bytes found. Found: '' @ CHR ''%'' # CHR ''u'' # ''\<newline>'' @ []"
  let ?out = "bytes_of ''Warning: ELF header greater than 52 bytes found. Found: '' @ number_digits a 10 0
    @ bytes_of ''\<newline>'' @ []"
  have "prints_from (mem st) sp sp ?f [a] ?out"
    by (intro prints_from_text prints_from_u prints_from_Nil) simp_all
  then have "prints (mem st) sp ?f [a] ?out"
  proof (rule prints_fromD)
    show "0 \<notin> set ?out" using number_digits_nonzero [of 10 a 0] by simp
    show "length ?out < 1024" using length_number_digits(2) [of 10 a 0] by simp
  qed
  from printf_prints [OF this, of p] show ?thesis by (simp, intro exI) (rule refl)
qed

lemma printf_ehsize_opt:
  "\<exists>out. (if c then printf p sp st ''Warning: ELF header greater than 52 bytes found. Found: %u\<newline>'' [a]
      else Some st) = Some (st\<lparr>con_out := con_out st @ out\<rparr>)"
  using printf_ehsize [of p sp st a] exI [of "\<lambda>out. st = st\<lparr>con_out := con_out st @ out\<rparr>" "[]"]
  by (cases c) simp_all

lemma printf_plain:
  "plain_text s \<Longrightarrow> length s < 1024 \<Longrightarrow> \<exists>out. printf p sp st s [] = Some (st\<lparr>con_out := con_out st @ out\<rparr>)"
  using printf_text [of s p sp st] by (auto simp: plain_text_def)

definition elf_refused :: "elf32_header \<Rightarrow> bool" where
  "elf_refused h \<longleftrightarrow> bad_magic (eh_ident h) \<or> eh_ident h ! ELF_INDEX_CLASS = 0 \<or>
     eh_ident h ! ELF_INDEX_DATA \<noteq> ELF_DATA_MSB \<or> eh_phnum h = 0"

text \<open>The test \<open>!hdr.ident[ELF_INDEX_CLASS] == ELF_CLASS_32\<close> holds of class 0 only.\<close>

lemma c_not_class: "c_not x = ELF_CLASS_32 \<longleftrightarrow> x = 0" "c_not x \<noteq> ELF_CLASS_64"
  by (simp_all add: c_not_def ELF_CLASS_32_def ELF_CLASS_64_def)

lemma load_elf32_file_rejects:
  assumes rd: "cilo_read (plat E) (mem st) (hdr_at (frm E)) (of_nat elf32_header_size) 1 fp = (m1, fp1, r)"
    and ref: "elf_refused (elf32_header_at m1 (hdr_at (frm E)))"
  shows "\<exists>out. load_elf32_file E st fp cmd_line =
    Some (st\<lparr>mem := m1, con_out := con_out st @ out\<rparr>, fp1, Returned)"
proof -
  define h where "h = elf32_header_at m1 (hdr_at (frm E))"
  have plain: "plain_text ''Non-big endian ELF file detected. Aborting load.\<newline>''"
    "plain_text ''Found zero segments in ELF file. Aborting load.\<newline>''"
    by (simp_all add: plain_text_def)
  consider (magic) "bad_magic (eh_ident h)"
    | (cls) "\<not> bad_magic (eh_ident h)" "eh_ident h ! ELF_INDEX_CLASS = 0"
    | (data) "\<not> bad_magic (eh_ident h)" "eh_ident h ! ELF_INDEX_CLASS \<noteq> 0"
        "eh_ident h ! ELF_INDEX_DATA \<noteq> ELF_DATA_MSB"
    | (none) "\<not> bad_magic (eh_ident h)" "eh_ident h ! ELF_INDEX_CLASS \<noteq> 0"
        "eh_ident h ! ELF_INDEX_DATA = ELF_DATA_MSB" "eh_phnum h = 0"
    using ref by (auto simp: elf_refused_def h_def)
  then show ?thesis
  proof cases
    case magic
    obtain out where "printf (plat E) (printf_at (frm E)) (st\<lparr>mem := m1\<rparr>)
        ''Bad ELF magic found. Found: %#2x %#2x %#2x %#2x.\<newline>''
        [ucast (eh_ident h ! 0), ucast (eh_ident h ! 1), ucast (eh_ident h ! 2), ucast (eh_ident h ! 3)]
        = Some (st\<lparr>mem := m1, con_out := con_out st @ out\<rparr>)"
      using printf_bad_magic [of "plat E" "printf_at (frm E)" "st\<lparr>mem := m1\<rparr>" "ucast (eh_ident h ! 0)"
          "ucast (eh_ident h ! 1)" "ucast (eh_ident h ! 2)" "ucast (eh_ident h ! 3)"] by auto
    then show ?thesis
      unfolding load_elf32_file_def Let_def rd prod.case h_def [symmetric] by (simp only: magic if_True) auto
  next
    case cls
    obtain out where "printf (plat E) (printf_at (frm E)) (st\<lparr>mem := m1\<rparr>)
        ''Invalid ELF machine class found. Found: %2x.\<newline>'' [ucast (eh_ident h ! ELF_INDEX_CLASS)]
        = Some (st\<lparr>mem := m1, con_out := con_out st @ out\<rparr>)"
      using printf_bad_class [of "plat E" "printf_at (frm E)" "st\<lparr>mem := m1\<rparr>"
          "ucast (eh_ident h ! ELF_INDEX_CLASS)"] by auto
    then show ?thesis
      unfolding load_elf32_file_def Let_def rd prod.case h_def [symmetric] c_not_class
      by (simp only: cls if_True if_False) auto
  next
    case data
    obtain out where "printf (plat E) (printf_at (frm E)) (st\<lparr>mem := m1\<rparr>)
        ''Non-big endian ELF file detected. Aborting load.\<newline>'' []
        = Some (st\<lparr>mem := m1, con_out := con_out st @ out\<rparr>)"
      using printf_plain [OF plain(1), of "plat E" "printf_at (frm E)" "st\<lparr>mem := m1\<rparr>"] by auto
    then show ?thesis
      unfolding load_elf32_file_def Let_def rd prod.case h_def [symmetric] c_not_class
      by (simp only: data if_True if_False simp_thms) auto
  next
    case none
    obtain o1 where "(if eh_ehsize h \<noteq> 52 then printf (plat E) (printf_at (frm E)) (st\<lparr>mem := m1\<rparr>)
        ''Warning: ELF header greater than 52 bytes found. Found: %u\<newline>'' [ucast (eh_ehsize h)]
        else Some (st\<lparr>mem := m1\<rparr>)) = Some (st\<lparr>mem := m1, con_out := con_out st @ o1\<rparr>)"
      using printf_ehsize_opt [of "eh_ehsize h \<noteq> 52" "plat E" "printf_at (frm E)" "st\<lparr>mem := m1\<rparr>" "ucast (eh_ehsize h)"]
      by auto
    moreover obtain o2 where "printf (plat E) (printf_at (frm E)) (st\<lparr>mem := m1, con_out := con_out st @ o1\<rparr>)
        ''Found zero segments in ELF file. Aborting load.\<newline>'' []
        = Some (st\<lparr>mem := m1, con_out := con_out st @ o1 @ o2\<rparr>)"
      using printf_plain [OF plain(2), of "plat E" "printf_at (frm E)" "st\<lparr>mem := m1, con_out := con_out st @ o1\<rparr>"]
      by auto
    ultimately show ?thesis
      unfolding load_elf32_file_def Let_def rd prod.case h_def [symmetric] c_not_class
      by (simp only: none if_True if_False simp_thms bind.simps) auto
  qed
qed

section \<open>Every call ends\<close>

text \<open>Whatever the file and the memory hold, \<^verbatim>\<open>load_elf32_file\<close> returns or enters the kernel.\<close>

lemma load_elf32_file_total: "\<exists>r. load_elf32_file E st fp cmd_line = Some r"
proof -
  define p sp where "p = plat E" and "sp = printf_at (frm E)"
  obtain m1 fp1 r where rd: "cilo_read p (mem st) (hdr_at (frm E)) (of_nat elf32_header_size) 1 fp = (m1, fp1, r)"
    by (metis prod_cases3)
  define h where "h = elf32_header_at m1 (hdr_at (frm E))"
  show ?thesis
  proof (cases "elf_refused h")
    case True
    then show ?thesis
      using load_elf32_file_rejects [OF rd [unfolded p_def], of cmd_line] unfolding h_def by blast
  next
    case False
    then have h: "\<not> bad_magic (eh_ident h)" "eh_ident h ! ELF_INDEX_CLASS \<noteq> 0"
      "eh_ident h ! ELF_INDEX_DATA = ELF_DATA_MSB" "eh_phnum h \<noteq> 0"
      by (auto simp: elf_refused_def)
    obtain o1 where warn: "(if eh_ehsize h \<noteq> 52 then printf p sp (st\<lparr>mem := m1\<rparr>)
        ''Warning: ELF header greater than 52 bytes found. Found: %u\<newline>'' [ucast (eh_ehsize h)]
        else Some (st\<lparr>mem := m1\<rparr>)) = Some (st\<lparr>mem := m1, con_out := con_out st @ o1\<rparr>)"
      using printf_ehsize_opt [of "eh_ehsize h \<noteq> 52" p sp "st\<lparr>mem := m1\<rparr>" "ucast (eh_ehsize h)"]
      by auto
    show ?thesis
      unfolding load_elf32_file_def Let_def p_def [symmetric] sp_def [symmetric] rd prod.case
        h_def [symmetric] c_not_class warn bind.simps printf_loaded printf_kicking
      using h by (simp only: if_False simp_thms split: prod.split) blast
  qed
qed

text \<open>\<^verbatim>\<open>load_elf64_file\<close> has no path that enters the kernel: it always returns.\<close>

lemma load_elf64_file_result:
  assumes "cilo_read (plat E) (mem st) (hdr_at (frm E)) (of_nat elf32_header_size) 1 (cilo_seek fp 0 SEEK_SET) = (m1, fp1, r)"
  shows "\<exists>st' fp'. load_elf64_file E st fp cmd_line = Some (st', fp', Returned) \<and>
    (eh_phnum (elf64_hdr_at m1 (hdr_at (frm E))) = 0 \<longrightarrow> mem st' = m1)"
proof -
  define p sp where "p = plat E" and "sp = printf_at (frm E)"
  note rd = assms [folded p_def]
  define h where "h = elf64_hdr_at m1 (hdr_at (frm E))"
  have plain: "plain_text ''Non-big endian ELF file detected. Aborting load.\<newline>''"
    "plain_text ''Found zero segments in ELF file. Aborting load.\<newline>''"
    by (simp_all add: plain_text_def)
  obtain o1 where bad: "printf p sp (st\<lparr>mem := m1\<rparr>)
      ''Bad ELF magic found. Found: %#2x %#2x %#2x %#2x.\<newline>''
      [ucast (eh_ident h ! 0), ucast (eh_ident h ! 1), ucast (eh_ident h ! 2), ucast (eh_ident h ! 3)]
      = Some (st\<lparr>mem := m1, con_out := con_out st @ o1\<rparr>)"
    using printf_bad_magic [of p sp "st\<lparr>mem := m1\<rparr>" "ucast (eh_ident h ! 0)"
        "ucast (eh_ident h ! 1)" "ucast (eh_ident h ! 2)" "ucast (eh_ident h ! 3)"] by auto
  obtain o2 where lsb: "printf p sp (st\<lparr>mem := m1\<rparr>)
      ''Non-big endian ELF file detected. Aborting load.\<newline>'' []
      = Some (st\<lparr>mem := m1, con_out := con_out st @ o2\<rparr>)"
    using printf_plain [OF plain(1), of p sp "st\<lparr>mem := m1\<rparr>"] by auto
  obtain o3 where warn: "(if eh_ehsize h \<noteq> 52 then printf p sp (st\<lparr>mem := m1\<rparr>)
      ''Warning: ELF header greater than 52 bytes found. Found: %u\<newline>'' [ucast (eh_ehsize h)]
      else Some (st\<lparr>mem := m1\<rparr>)) = Some (st\<lparr>mem := m1, con_out := con_out st @ o3\<rparr>)"
    using printf_ehsize_opt [of "eh_ehsize h \<noteq> 52" p sp "st\<lparr>mem := m1\<rparr>" "ucast (eh_ehsize h)"]
    by auto
  obtain o4 where zero: "printf p sp (st\<lparr>mem := m1, con_out := con_out st @ o3\<rparr>)
      ''Found zero segments in ELF file. Aborting load.\<newline>'' []
      = Some (st\<lparr>mem := m1, con_out := con_out st @ o3 @ o4\<rparr>)"
    using printf_plain [OF plain(2), of p sp "st\<lparr>mem := m1, con_out := con_out st @ o3\<rparr>"] by auto
  have cls: "(c_not (eh_ident h ! ELF_INDEX_CLASS) = ELF_CLASS_64) = False"
    using c_not_class(2) by simp
  show ?thesis
    unfolding load_elf64_file_def Let_def p_def [symmetric] sp_def [symmetric] rd prod.case
      h_def [symmetric] cls bad lsb warn bind.simps zero
    by (auto simp: h_def split: prod.split)
qed

lemma load_elf64_file_returns: "\<exists>st' fp'. load_elf64_file E st fp cmd_line = Some (st', fp', Returned)"
  using load_elf64_file_result [of E st fp _ _ _ cmd_line] by (metis prod_cases3)

section \<open>Properties\<close>



text \<open>\<^verbatim>\<open>load_elf32_file\<close> always ends, on any file and any memory: with more than
  \<open>0xffff\<close> rounds impossible, whatever segment is loaded over the loader's own header.\<close>

theorem load_elf32_file_ends: "\<exists>r. load_elf32_file E st fp cmd_line = Some r"
  by (rule load_elf32_file_total)


end
