(* ===== verification/LzmaLoader.thy ===== *)
theory LzmaLoader
  imports Lzma ElfLoader
begin

text \<open>
  The loader for compressed kernels, \<^verbatim>\<open>lzma_loader.c\<close>: the input callback \<open>read_data\<close>, which
  feeds the decoder from an open file 512 bytes at a time and shows the progress, and
  \<open>load_lzma\<close>. The property bytes, the size field and the 512-byte buffer are local arrays,
  placed in memory by the layout record; the probability table is the decoder's own.
\<close>

section \<open>The input callback\<close>

record private_data =
  pd_buffer :: addr
  pd_fp :: cfile
  pd_total_read :: u32
  pd_last :: u32

text \<open>On the error path \<open>*buffer\<close> and \<open>*size\<close> are not set; the decoder does not look at them.
  The division by a file length of 0 has no defined result.\<close>

definition show_progress :: "platform \<Rightarrow> addr \<Rightarrow> machine \<Rightarrow> u32 \<Rightarrow> u32 \<Rightarrow> (machine \<times> u32) option" where
  "show_progress p sp st percent last_shown =
     (if percent mod 10 = 0 \<and> percent \<noteq> last_shown then do {
        st1 \<leftarrow> printf p sp st ''%d'' [percent];
        Some (st1, percent)
      }
      else if percent \<noteq> last_shown \<and> percent mod 2 = 0 then do {
        st1 \<leftarrow> printf p sp st ''.'' [];
        Some (st1, percent)
      }
      else Some (st, last_shown))"

definition read_data :: "platform \<Rightarrow> addr \<Rightarrow> private_data callback" where
  "read_data p sp st pd =
     (let fp = pd_fp pd in
      if cilo_tell fp > file_len fp then do {
        st1 \<leftarrow> printf p sp st ''FATAL: Attempt to read past end of file. Aborting.\<newline>'' [];
        Some (LZMA_RESULT_DATA_ERROR, 0, 0, st1, pd)
      }
      else
        let left = file_len fp - cilo_tell fp;
            sz = (if left > 512 then 512 else left);
            total = pd_total_read pd + sz
        in if file_len fp = 0 then None
           else do {
             (st1, shown) \<leftarrow> show_progress p sp st (total * 100 div file_len fp) (pd_last pd);
             let (m, fp', _) = cilo_read p (mem st1) (pd_buffer pd) sz 1 fp;
             Some (LZMA_RESULT_OK, pd_buffer pd, sz, st1\<lparr>mem := m\<rparr>,
               pd\<lparr>pd_fp := fp', pd_total_read := total, pd_last := shown\<rparr>)
           })"

section \<open>Loading a compressed kernel\<close>

definition load_lzma ::
    "env \<Rightarrow> machine \<Rightarrow> cfile \<Rightarrow> u32 \<Rightarrow> addr \<Rightarrow> (machine \<times> cfile \<times> outcome) option" where
  "load_lzma E st fp load_address cmd_line =
     (let p = plat E; fr = frm E; sp = printf_at fr;
          fp1 = cilo_seek fp 0 SEEK_SET;
          (m1, fp2, _) = cilo_read p (mem st) (lzma_props_at fr) 5 1 fp1;
          (result, pr) = LzmaDecodeProperties (mem_read m1 (lzma_props_at fr) 5)
             LZMA_PROPERTIES_SIZE \<lparr>lc = 0, lp = 0, pb = 0\<rparr>
      in if result \<noteq> LZMA_RESULT_OK then do {
           st2 \<leftarrow> printf p sp (st\<lparr>mem := m1\<rparr>) ''Error while decoding LZMA properties. Aborting.\<newline>'' [];
           Some (st2, fp2, Returned)
         }
         else
           let (m2, fp3, _) = cilo_read p m1 (lzma_size_at fr) 1 4 fp2;
               sz = u32_of LE (mem_read m2 (lzma_size_at fr) 4);
               fp4 = cilo_seek fp3 4 SEEK_CUR;
               pd = \<lparr>pd_buffer = lzma_buffer_at fr, pd_fp = fp4, pd_total_read = 0, pd_last = 100\<rparr>
           in case LzmaDecode (read_data p sp) \<lparr>props = pr, out_stream = load_address, out_size = sz\<rparr>
                     (st\<lparr>mem := m2\<rparr>) pd of
                (Result r, _, st3, pd') \<Rightarrow>
                  if r \<noteq> LZMA_RESULT_OK then do {
                    st4 \<leftarrow> printf p sp st3
                      ''\<newline>Error in decoding LZMA-compressed kernel image. Aborting.\<newline>'' [];
                    Some (st4, pd_fp pd', Returned)
                  }
                  else do {
                    st4 \<leftarrow> printf p sp st3 ''100\<newline>Starting kernel at 0x%016x.\<newline>\<newline>'' [load_address];
                    Some (st4, pd_fp pd', Jump load_address (c_memsz p (rom E) (regs0 E)) cmd_line)
                  }
              | _ \<Rightarrow> None)"

section \<open>The callback keeps its contract\<close>

lemma printf_number:
  "printf p sp st ''%d'' [n] = Some (st\<lparr>con_out := con_out st @ console_text p (decimal n)\<rparr>)"
  using printf_text_d [of "[]" "[]" p sp st n] by (simp add: plain_text_def)

lemma show_progress_total:
  "\<exists>out shown. show_progress p sp st n l = Some (st\<lparr>con_out := con_out st @ out\<rparr>, shown)"
proof -
  have dot: "printf p sp st ''.'' [] = Some (st\<lparr>con_out := con_out st @ console_text p (bytes_of ''.'')\<rparr>)"
    by (rule printf_text) simp_all
  have none: "st = st\<lparr>con_out := con_out st @ []\<rparr>" by simp
  consider "n mod 10 = 0 \<and> n \<noteq> l" | "\<not> (n mod 10 = 0 \<and> n \<noteq> l)" "n \<noteq> l \<and> n mod 2 = 0"
    | "\<not> (n mod 10 = 0 \<and> n \<noteq> l)" "\<not> (n \<noteq> l \<and> n mod 2 = 0)" by blast
  then show ?thesis
  proof cases
    case 1
    then have "show_progress p sp st n l =
        Some (st\<lparr>con_out := con_out st @ console_text p (decimal n)\<rparr>, n)"
      by (simp only: show_progress_def printf_number simp_thms if_True bind.simps)
    then show ?thesis by blast
  next
    case 2
    then have "show_progress p sp st n l =
        Some (st\<lparr>con_out := con_out st @ console_text p (bytes_of ''.'')\<rparr>, n)"
      by (simp only: show_progress_def dot simp_thms if_True if_False bind.simps)
    then show ?thesis by blast
  next
    case 3
    then have "show_progress p sp st n l = Some (st, l)" by (simp only: show_progress_def if_False)
    then show ?thesis using none by metis
  qed
qed

text \<open>
  What \<open>read_data\<close> relies on and keeps: a file of at least one byte whose contents \<open>data\<close> lie
  at \<open>b\<close> in flash, a buffer outside them, and an output region \<open>out\<close>, of \<open>n\<close> bytes, outside
  them.
\<close>

definition reader ::
    "platform \<Rightarrow> u8 list \<Rightarrow> addr \<Rightarrow> addr \<Rightarrow> addr \<Rightarrow> nat \<Rightarrow> machine \<Rightarrow> private_data \<Rightarrow> bool" where
  "reader p data b buf out n st pd \<longleftrightarrow>
     data \<noteq> [] \<and> file_len (pd_fp pd) = of_nat (length data) \<and> file_base p (pd_fp pd) = b \<and>
     image_at (mem st) b data \<and> pd_buffer pd = buf \<and>
     apart b (length data) buf 512 \<and> apart b (length data) out n"

lemma reader_read:
  assumes r: "reader p data b buf out n st pd" and sz: "unat sz \<le> 512"
  shows "reader p data b buf out n (st\<lparr>mem := fst (read_bytes p (mem st) buf sz (pd_fp pd))\<rparr>)
      (pd\<lparr>pd_fp := pd_fp pd\<lparr>file_pos := x\<rparr>, pd_total_read := t, pd_last := l\<rparr>)"
    and "\<not> in_range buf 512 a \<Longrightarrow> fst (read_bytes p (mem st) buf sz (pd_fp pd)) a = mem st a"
proof -
  have "sint sz = int (unat sz)" using sz by (intro sint_small) simp
  then have nat: "nat (sint sz) \<le> 512" using sz by simp
  show out: "fst (read_bytes p (mem st) buf sz (pd_fp pd)) a = mem st a" if "\<not> in_range buf 512 a" for a
    using that nat by (intro cio.read_outside) (simp add: in_range_def)
  have "image_at (fst (read_bytes p (mem st) buf sz (pd_fp pd))) b data"
  proof (rule image_at_cong)
    show "image_at (mem st) b data" using r by (simp add: reader_def)
    show "fst (read_bytes p (mem st) buf sz (pd_fp pd)) y = mem st y" if "in_range b (length data) y" for y
      using r that by (intro out) (auto simp: reader_def dest: apart_not_in_range)
  qed
  then show "reader p data b buf out n (st\<lparr>mem := fst (read_bytes p (mem st) buf sz (pd_fp pd))\<rparr>)
      (pd\<lparr>pd_fp := pd_fp pd\<lparr>file_pos := x\<rparr>, pd_total_read := t, pd_last := l\<rparr>)"
    using r by (simp add: reader_def)
qed

text \<open>Before the end of the file: the next piece of up to 512 bytes.\<close>

definition piece :: "private_data \<Rightarrow> u32" where
  "piece pd = (let left = file_len (pd_fp pd) - file_pos (pd_fp pd) in if left > 512 then 512 else left)"

lemma piece_le: "unat (piece pd) \<le> 512"
  by (simp add: piece_def Let_def word_le_nat_alt not_less)

lemma read_data_piece:
  assumes r: "reader p data b buf out n st pd" and "\<not> file_pos (pd_fp pd) > file_len (pd_fp pd)"
  shows "\<exists>o1 l. read_data p sp st pd = Some (LZMA_RESULT_OK, buf, piece pd,
      st\<lparr>con_out := con_out st @ o1, mem := fst (read_bytes p (mem st) buf (piece pd) (pd_fp pd))\<rparr>,
      pd\<lparr>pd_fp := pd_fp pd\<lparr>file_pos := file_pos (pd_fp pd) + piece pd\<rparr>,
         pd_total_read := pd_total_read pd + piece pd, pd_last := l\<rparr>)"
proof -
  have len: "file_len (pd_fp pd) \<noteq> 0"
  proof
    assume "file_len (pd_fp pd) = 0"
    then have "unat (of_nat (length data) :: u32) = 0" using r by (simp add: reader_def)
    then show False using r by (simp add: reader_def image_at_def)
  qed
  obtain o1 l where pr: "show_progress p sp st ((pd_total_read pd + piece pd) * 100 div file_len (pd_fp pd)) (pd_last pd)
      = Some (st\<lparr>con_out := con_out st @ o1\<rparr>, l)"
    using show_progress_total by blast
  have "pd_buffer pd = buf" using r by (simp add: reader_def)
  then show ?thesis
    unfolding read_data_def Let_def cilo_tell_def piece_def [unfolded Let_def, symmetric] pr using assms(2) len
    by (intro exI [of _ o1] exI [of _ l]) (simp add: cilo_read_io)
qed

lemma read_data_total:
  assumes r: "reader p data b buf out n st pd"
  shows "\<exists>res a k st' pd'. read_data p sp st pd = Some (res, a, k, st', pd') \<and>
     reader p data b buf out n st' pd' \<and> (\<forall>x. \<not> in_range buf 512 x \<longrightarrow> mem st' x = mem st x)"
proof (cases "file_pos (pd_fp pd) > file_len (pd_fp pd)")
  case True
  have "plain_text ''FATAL: Attempt to read past end of file. Aborting.\<newline>''" by (simp add: plain_text_def)
  from printf_plain [OF this, of p sp st]
  obtain o1 where "printf p sp st ''FATAL: Attempt to read past end of file. Aborting.\<newline>'' []
      = Some (st\<lparr>con_out := con_out st @ o1\<rparr>)" by auto
  moreover have "reader p data b buf out n (st\<lparr>con_out := con_out st @ o1\<rparr>) pd"
    using r by (simp add: reader_def)
  ultimately show ?thesis using True unfolding read_data_def Let_def cilo_tell_def by (simp only: if_True) auto
next
  case False
  from read_data_piece [OF r this, of sp] obtain o1 l where "read_data p sp st pd = Some (LZMA_RESULT_OK, buf, piece pd,
      st\<lparr>con_out := con_out st @ o1, mem := fst (read_bytes p (mem st) buf (piece pd) (pd_fp pd))\<rparr>,
      pd\<lparr>pd_fp := pd_fp pd\<lparr>file_pos := file_pos (pd_fp pd) + piece pd\<rparr>,
         pd_total_read := pd_total_read pd + piece pd, pd_last := l\<rparr>)" by blast
  moreover have "reader p data b buf out n (st\<lparr>con_out := con_out st @ o1\<rparr>) pd" using r by (simp add: reader_def)
  ultimately show ?thesis using reader_read [of p data b buf out n "st\<lparr>con_out := con_out st @ o1\<rparr>" pd "piece pd"] piece_le [of pd]
    by auto
qed

lemma reader_store:
  assumes "reader p data b buf out n st pd" and "in_range out n x"
  shows "reader p data b buf out n (store_at st x c) pd"
proof -
  have img: "image_at (mem st) b data" and ap: "apart b (length data) out n"
    using assms(1) by (simp_all add: reader_def)
  have "image_at (mem (store_at st x c)) b data"
  proof (rule image_at_cong [OF img])
    fix y assume "in_range b (length data) y"
    then have "\<not> in_range out n y" by (rule apart_not_in_range [OF ap])
    then show "mem (store_at st x c) y = mem st y" using assms(2) by auto
  qed
  then show ?thesis using assms(1) by (simp add: reader_def)
qed

interpretation input: lzma_input "read_data p sp" "reader p data b buf out n" "in_range buf 512" "in_range out n"
proof unfold_locales
  show "reader p data b buf out n m pd \<Longrightarrow> \<exists>r a k m' pd'. read_data p sp m pd = Some (r, a, k, m', pd') \<and>
      reader p data b buf out n m' pd' \<and> (\<forall>x. \<not> in_range buf 512 x \<longrightarrow> mem m' x = mem m x)" for m pd
    by (rule read_data_total)
qed (rule reader_store)

text \<open>The properties a call of the decoder runs with, whatever the byte in the file.\<close>

definition props_of :: "u8 list \<Rightarrow> lzma_props" where
  "props_of bs = snd (LzmaDecodeProperties bs LZMA_PROPERTIES_SIZE \<lparr>lc = 0, lp = 0, pb = 0\<rparr>)"

definition job_of :: "u8 list \<Rightarrow> addr \<Rightarrow> u32 \<Rightarrow> job" where
  "job_of bs out sz = \<lparr>props = props_of bs, out_stream = out, out_size = sz\<rparr>"

lemma job_of_ok: "job_ok (job_of bs out sz)"
proof (cases "bs ! 0 < 225")
  case True
  then show ?thesis using LzmaDecodeProperties_ok [of LZMA_PROPERTIES_SIZE bs "\<lparr>lc = 0, lp = 0, pb = 0\<rparr>"]
    by (auto simp: job_ok_def job_of_def props_of_def LZMA_PROPERTIES_SIZE_def)
next
  case False
  then show ?thesis using LzmaDecodeProperties_bad [of LZMA_PROPERTIES_SIZE bs "\<lparr>lc = 0, lp = 0, pb = 0\<rparr>"]
    by (simp add: not_less job_ok_def job_of_def props_of_def)
qed

interpretation decoder: lzma_run "read_data p sp" "reader p data b buf out (unat sz)"
    "in_range buf 512" "in_range out (unat sz)" "job_of bs out sz" m0
  for p sp data b buf out sz bs m0
  by unfold_locales (simp_all add: job_of_ok, simp add: job_of_def)

section \<open>The loader always comes back or starts the kernel\<close>

lemma printf_starting:
  "\<exists>out. printf p sp st ''100\<newline>Starting kernel at 0x%016x.\<newline>\<newline>'' [a] = Some (st\<lparr>con_out := con_out st @ out\<rparr>)"
proof -
  let ?f = "''100\<newline>Starting kernel at 0x'' @ CHR ''%'' # CHR ''0'' # CHR ''1'' # CHR ''6'' # CHR ''x''
    # ''.\<newline>\<newline>'' @ []"
  let ?out = "bytes_of ''100\<newline>Starting kernel at 0x'' @ hex_address a @ bytes_of ''.\<newline>\<newline>'' @ []"
  have "prints_from (mem st) sp sp ?f [a] ?out"
    by (intro prints_from_text prints_from_016x prints_from_Nil) simp_all
  then have "prints (mem st) sp ?f [a] ?out"
  proof (rule prints_fromD)
    show "0 \<notin> set ?out" using hex_address_bytes(2) by simp
    show "length ?out < 1024" using hex_address_bytes(1) [of a] by simp
  qed
  from printf_prints [OF this, of p] show ?thesis by (simp, intro exI) (rule refl)
qed

text \<open>Where the loader's objects and the output must lie.\<close>

definition lzma_placed :: "platform \<Rightarrow> frame \<Rightarrow> cfile \<Rightarrow> u8 list \<Rightarrow> addr \<Rightarrow> bool" where
  "lzma_placed p fr fp data out \<longleftrightarrow>
     (let b = file_base p fp; n = length data
      in 13 \<le> n \<and> b \<noteq> 0 \<and> unat b + n < 2 ^ 32 \<and> file_len fp = of_nat n \<and>
         lzma_props_at fr \<noteq> 0 \<and> lzma_size_at fr \<noteq> 0 \<and>
         apart b n (lzma_props_at fr) 5 \<and> apart b n (lzma_size_at fr) 4 \<and>
         apart b n (lzma_buffer_at fr) 512 \<and>
         apart b n out (unat (u32_of LE (take 4 (drop 5 data)))))"

lemma u32_of_take4: "u32_of e (take 4 bs) = u32_of e bs"
  by (cases e) simp_all

text \<open>The header: the properties and the size are read, the decoder starts behind them.\<close>

definition call_lzma :: "env \<Rightarrow> addr \<Rightarrow> addr \<Rightarrow> stop \<times> u32 \<times> machine \<times> private_data \<Rightarrow> (machine \<times> cfile \<times> outcome) option" where
  "call_lzma E out cmd_line res =
     (case res of
        (Result r, _, st3, pd') \<Rightarrow>
          if r \<noteq> LZMA_RESULT_OK then do {
            st4 \<leftarrow> printf (plat E) (printf_at (frm E)) st3 ''\<newline>Error in decoding LZMA-compressed kernel image. Aborting.\<newline>'' [];
            Some (st4, pd_fp pd', Returned)
          }
          else do {
            st4 \<leftarrow> printf (plat E) (printf_at (frm E)) st3 ''100\<newline>Starting kernel at 0x%016x.\<newline>\<newline>'' [out];
            Some (st4, pd_fp pd', Jump out (c_memsz (plat E) (rom E) (regs0 E)) cmd_line)
          }
      | _ \<Rightarrow> None)"

lemma load_lzma_header:
  assumes img: "image_at (mem st) (file_base p fp) data" and pl: "lzma_placed p fr fp data out"
    and env: "plat E = p" "frm E = fr"
  defines "bs \<equiv> take 5 data" and "sz \<equiv> u32_of LE (take 4 (drop 5 data))"
  shows "\<exists>m1 m2 pd. reader p data (file_base p fp) (lzma_buffer_at fr) out (unat sz) (st\<lparr>mem := m2\<rparr>) pd \<and> file_pos (pd_fp pd) = 13 \<and>
    (\<forall>x. \<not> in_range (lzma_props_at fr) 5 x \<longrightarrow> m1 x = mem st x \<and> (\<not> in_range (lzma_size_at fr) 4 x \<longrightarrow> m2 x = mem st x)) \<and>
    load_lzma E st fp out cmd_line =
      (if bs ! 0 < 225 then call_lzma E out cmd_line (LzmaDecode (read_data p (printf_at fr)) (job_of bs out sz) (st\<lparr>mem := m2\<rparr>) pd)
       else do {
         st2 \<leftarrow> printf p (printf_at fr) (st\<lparr>mem := m1\<rparr>) ''Error while decoding LZMA properties. Aborting.\<newline>'' [];
         Some (st2, fp\<lparr>file_pos := 5\<rparr>, Returned)
       })"
proof -
  define m1 where "m1 = mem_write (mem st) (lzma_props_at fr) (take 5 data)"
  define m2 where "m2 = mem_write m1 (lzma_size_at fr) (take 4 (drop 5 data))"
  define fp2 where "fp2 = fp\<lparr>file_pos := 5\<rparr>"
  note P = pl [unfolded lzma_placed_def Let_def]
  have len: "13 \<le> length data" using P by simp
  have seek: "cilo_seek fp 0 SEEK_SET = fp\<lparr>file_pos := 0\<rparr>" by (simp add: cilo_seek_def)
  have rd1: "cilo_read p (mem st) (lzma_props_at fr) 5 1 (fp\<lparr>file_pos := 0\<rparr>) = (m1, fp2, 5)"
    and img1: "image_at m1 (file_base p fp) data" and props1: "mem_read m1 (lzma_props_at fr) 5 = bs"
    using local_read [of "mem st" p "fp\<lparr>file_pos := 0\<rparr>" data 0 5 "lzma_props_at fr"] img P
    by (simp_all add: m1_def fp2_def bs_def)
  have rd2: "cilo_read p m1 (lzma_size_at fr) 1 4 fp2 = (m2, fp\<lparr>file_pos := 9\<rparr>, 4)"
    and img2: "image_at m2 (file_base p fp) data" and sz: "u32_of LE (mem_read m2 (lzma_size_at fr) 4) = sz"
    using local_read [of m1 p fp2 data 5 4 "lzma_size_at fr"] img1 P
    by (simp_all add: cilo_read_items m2_def fp2_def sz_def)
  have small: "length data < 2 ^ 31" using img by (simp add: image_at_def)
  have seek4: "cilo_seek (fp\<lparr>file_pos := 9\<rparr>) 4 SEEK_CUR = fp\<lparr>file_pos := 13\<rparr>"
    using P len small by (simp add: cilo_seek_def SEEK_CUR_def SEEK_SET_def word_less_nat_alt)
  define pd where "pd = \<lparr>pd_buffer = lzma_buffer_at fr, pd_fp = fp\<lparr>file_pos := 13\<rparr>, pd_total_read = 0, pd_last = 100\<rparr>"
  have "reader p data (file_base p fp) (lzma_buffer_at fr) out (unat sz) (st\<lparr>mem := m2\<rparr>) pd"
    using img2 P by (auto simp: reader_def pd_def sz_def)
  moreover have "m1 x = mem st x \<and> (\<not> in_range (lzma_size_at fr) 4 x \<longrightarrow> m2 x = mem st x)"
    if "\<not> in_range (lzma_props_at fr) 5 x" for x
    using that len by (simp add: m2_def m1_def mem_write_outside)
  moreover have "load_lzma E st fp out cmd_line =
      (if bs ! 0 < 225 then call_lzma E out cmd_line (LzmaDecode (read_data p (printf_at fr)) (job_of bs out sz) (st\<lparr>mem := m2\<rparr>) pd)
       else do {
         st2 \<leftarrow> printf p (printf_at fr) (st\<lparr>mem := m1\<rparr>) ''Error while decoding LZMA properties. Aborting.\<newline>'' [];
         Some (st2, fp2, Returned)
       })"
  proof (cases "bs ! 0 < 225")
    case True
    obtain pr where "LzmaDecodeProperties bs LZMA_PROPERTIES_SIZE \<lparr>lc = 0, lp = 0, pb = 0\<rparr> = (LZMA_RESULT_OK, pr)"
      using LzmaDecodeProperties_ok [OF _ True, of LZMA_PROPERTIES_SIZE] by (auto simp: LZMA_PROPERTIES_SIZE_def)
    then have dp: "LzmaDecodeProperties bs LZMA_PROPERTIES_SIZE \<lparr>lc = 0, lp = 0, pb = 0\<rparr> = (LZMA_RESULT_OK, props_of bs)"
      by (simp add: props_of_def)
    show ?thesis unfolding load_lzma_def env Let_def seek rd1 prod.case props1 dp rd2 sz seek4 pd_def [symmetric] if_P [OF True]
        call_lzma_def job_of_def by simp
  next
    case False
    then have "LzmaDecodeProperties bs LZMA_PROPERTIES_SIZE \<lparr>lc = 0, lp = 0, pb = 0\<rparr> = (LZMA_RESULT_DATA_ERROR, \<lparr>lc = 0, lp = 0, pb = 0\<rparr>)"
      by (intro LzmaDecodeProperties_bad disjI2) (simp add: not_less)
    then show ?thesis unfolding load_lzma_def env Let_def seek rd1 prod.case props1 if_not_P [OF False]
      by (simp add: LZMA_RESULT_OK_def LZMA_RESULT_DATA_ERROR_def)
  qed
  ultimately show ?thesis unfolding fp2_def by (intro exI [of _ m1] exI [of _ m2] exI [of _ pd]) (simp add: pd_def)
qed

lemma call_lzma_ok:
  "\<exists>o1. call_lzma E out cmd_line (Result LZMA_RESULT_OK, n, st, pd) =
     Some (st\<lparr>con_out := con_out st @ o1\<rparr>, pd_fp pd, Jump out (c_memsz (plat E) (rom E) (regs0 E)) cmd_line)"
  using printf_starting [of "plat E" "printf_at (frm E)" st out] by (auto simp: call_lzma_def)

lemma call_lzma_error:
  assumes "r \<noteq> LZMA_RESULT_OK"
  shows "\<exists>o1. call_lzma E out cmd_line (Result r, n, st, pd) = Some (st\<lparr>con_out := con_out st @ o1\<rparr>, pd_fp pd, Returned)"
  using printf_plain [of "''\<newline>Error in decoding LZMA-compressed kernel image. Aborting.\<newline>''" "plat E" "printf_at (frm E)" st] assms
  by (auto simp: call_lzma_def plain_text_def)

lemma load_lzma_safe:
  assumes img: "image_at (mem st) (file_base p fp) data" and pl: "lzma_placed p fr fp data out"
    and env: "plat E = p" "frm E = fr"
  defines "n \<equiv> unat (u32_of LE (take 4 (drop 5 data)))"
  shows "\<exists>st' fp' r. load_lzma E st fp out cmd_line = Some (st', fp', r) \<and>
     (r = Returned \<or> r = Jump out (c_memsz p (rom E) (regs0 E)) cmd_line) \<and>
     (\<forall>x. \<not> in_range (lzma_props_at fr) 5 x \<longrightarrow> \<not> in_range (lzma_size_at fr) 4 x \<longrightarrow>
        \<not> in_range (lzma_buffer_at fr) 512 x \<longrightarrow> \<not> in_range out n x \<longrightarrow> mem st' x = mem st x)"
proof -
  let ?bs = "take 5 data" and ?sz = "u32_of LE (take 4 (drop 5 data))"
  obtain m1 m2 pd where r: "reader p data (file_base p fp) (lzma_buffer_at fr) out (unat ?sz) (st\<lparr>mem := m2\<rparr>) pd"
    and m1: "\<And>x. \<not> in_range (lzma_props_at fr) 5 x \<Longrightarrow> m1 x = mem st x"
    and m2: "\<And>x. \<not> in_range (lzma_props_at fr) 5 x \<Longrightarrow> \<not> in_range (lzma_size_at fr) 4 x \<Longrightarrow> m2 x = mem st x"
    and load: "load_lzma E st fp out cmd_line =
      (if ?bs ! 0 < 225 then call_lzma E out cmd_line (LzmaDecode (read_data p (printf_at fr)) (job_of ?bs out ?sz) (st\<lparr>mem := m2\<rparr>) pd)
       else do {
         st2 \<leftarrow> printf p (printf_at fr) (st\<lparr>mem := m1\<rparr>) ''Error while decoding LZMA properties. Aborting.\<newline>'' [];
         Some (st2, fp\<lparr>file_pos := 5\<rparr>, Returned)
       })"
    using load_lzma_header [OF img pl env, of cmd_line] by auto
  show ?thesis
  proof (cases "?bs ! 0 < 225")
    case False
    obtain o1 where "printf p (printf_at fr) (st\<lparr>mem := m1\<rparr>) ''Error while decoding LZMA properties. Aborting.\<newline>'' []
        = Some (st\<lparr>mem := m1, con_out := con_out st @ o1\<rparr>)"
      using printf_plain [of "''Error while decoding LZMA properties. Aborting.\<newline>''" p "printf_at fr" "st\<lparr>mem := m1\<rparr>"]
      by (auto simp: plain_text_def)
    then show ?thesis using m1 unfolding load if_not_P [OF False] by simp
  next
    case True
    from decoder.LzmaDecode_safe [OF r, of "printf_at fr" ?bs]
    obtain k cnt st3 pd' where dec: "LzmaDecode (read_data p (printf_at fr)) (job_of ?bs out ?sz) (st\<lparr>mem := m2\<rparr>) pd
        = (Result k, cnt, st3, pd')"
      and st3: "\<And>x. \<not> in_range (lzma_buffer_at fr) 512 x \<Longrightarrow> \<not> in_range out (unat ?sz) x \<Longrightarrow> mem st3 x = m2 x"
      by auto
    obtain o1 r where "call_lzma E out cmd_line (Result k, cnt, st3, pd') = Some (st3\<lparr>con_out := con_out st3 @ o1\<rparr>, pd_fp pd', r)"
      and "r = Returned \<or> r = Jump out (c_memsz p (rom E) (regs0 E)) cmd_line"
      using call_lzma_ok [of E out cmd_line cnt st3 pd'] call_lzma_error [of k E out cmd_line cnt st3 pd'] env
      by (cases "k = LZMA_RESULT_OK") auto
    then show ?thesis using st3 m2 unfolding load if_P [OF True] dec by (simp add: n_def)
  qed
qed

end
