(* ===== verification/Bootloader.thy ===== *)
theory Bootloader
  imports LzmaLoader
begin

text \<open>
  The boot loader's main program, \<^verbatim>\<open>start_bootloader\<close> of \<^verbatim>\<open>main.c\<close>: the checks at the start,
  then the prompt, to which the code comes back by \<open>goto\<close> until a kernel is entered. The
  line buffer, the kernel name and the header are local arrays at addresses of the layout
  record, the command line is built at \<open>MEMORY_BASE\<close>. One pass from the prompt is the
  function \<open>boot_prompt\<close>; the program is the step relation \<open>boot_step\<close>, because what an
  uninitialised \<^verbatim>\<open>struct file\<close> holds is not determined.
\<close>

section \<open>The command line\<close>

definition LOADADDR :: u32 where "LOADADDR = 0x80028000"

text \<open>
  The typed line at \<open>buf\<close> is split at the first blank: what follows becomes the command
  line, what precedes it the kernel name. \<open>kernel[kernel_name_len + 1]\<close> is cleared, one
  byte after the end of the name.
\<close>

definition set_kernel_and_args :: "frame \<Rightarrow> mem \<Rightarrow> addr \<Rightarrow> mem option" where
  "set_kernel_and_args fr m blank =
     (case strcpy m MEMORY_BASE (blank + 1) of None \<Rightarrow> None
      | Some (m1, _) \<Rightarrow>
          let kernel_name_len = blank - buf_at fr;
              (m2, _) = strncpy m1 (kernel_at fr) (buf_at fr) kernel_name_len
          in Some (m2(kernel_at fr + (kernel_name_len + 1) := 0)))"

definition append_console :: "frame \<Rightarrow> mem \<Rightarrow> u32 \<Rightarrow> mem option" where
  "append_console fr m baud =
     (case strstr m MEMORY_BASE (console_at fr) of None \<Rightarrow> None
      | Some found \<Rightarrow>
          if found = 0 then
            (case sprintf m MEMORY_BASE ''%s console=ttyS0,%d'' [MEMORY_BASE, baud] of None \<Rightarrow> None
             | Some (m', _) \<Rightarrow> Some m')
          else Some m)"

definition parse_line :: "frame \<Rightarrow> mem \<Rightarrow> u32 \<Rightarrow> mem option" where
  "parse_line fr m baud =
     (case strchr m (buf_at fr) 32 of None \<Rightarrow> None
      | Some cmd_line_append \<Rightarrow>
          if cmd_line_append \<noteq> 0 then do {
            m1 \<leftarrow> set_kernel_and_args fr m cmd_line_append;
            append_console fr m1 baud
          }
          else
            let (m1, _) = strncpy m (kernel_at fr) (buf_at fr) 48
            in (case sprintf m1 MEMORY_BASE ''console=ttyS0,%d'' [baud] of None \<Rightarrow> None
                | Some (m2, _) \<Rightarrow> Some m2))"

section \<open>Loading\<close>

text \<open>The file is open: choose the loader by the name or by the ELF class.\<close>

definition load_kernel :: "env \<Rightarrow> machine \<Rightarrow> cfile \<Rightarrow> (machine \<times> cfile \<times> outcome) option" where
  "load_kernel E st kernel_file =
     (let p = plat E; fr = frm E; sp = printf_at fr
      in case strstr (mem st) (kernel_at fr) (lzma_at fr) of None \<Rightarrow> None
         | Some found \<Rightarrow>
             if found \<noteq> 0 then do {
               st1 \<leftarrow> printf p sp st ''Loading LZMA-compressed kernel image.\<newline>'' [];
               load_lzma E st1 kernel_file LOADADDR MEMORY_BASE
             }
             else do {
               st1 \<leftarrow> printf p sp st ''Booting %s.\<newline>'' [kernel_at fr];
               let (m, f1, _) = cilo_read p (mem st1) (main_hdr_at fr) (of_nat elf32_header_size) 1 kernel_file;
               let f2 = cilo_seek f1 0 SEEK_SET;
               let st2 = st1\<lparr>mem := m\<rparr>;
               let ident = eh_ident (elf32_header_at m (main_hdr_at fr));
               if ident ! ELF_INDEX_CLASS = ELF_CLASS_32
               then load_elf32_file E st2 f2 MEMORY_BASE
               else load_elf64_file E st2 f2 MEMORY_BASE
             })"

section \<open>One pass from the prompt\<close>

definition boot_prompt :: "env \<Rightarrow> cfile \<Rightarrow> machine \<Rightarrow> (machine \<times> outcome) option" where
  "boot_prompt E fp0 st =
     (let p = plat E; fr = frm E; sp = printf_at fr
      in do {
        st1 \<leftarrow> printf p sp st ''\<newline>Enter filename to boot:\<newline>> '' [];
        (_, st2) \<leftarrow> c_gets p st1 (buf_at fr) 128;
        let baud = c_baud p (rom E) (regs0 E);
        m \<leftarrow> parse_line fr (mem st2) baud;
        let st3 = st2\<lparr>mem := m\<rparr>;
        kernel_file \<leftarrow> cilo_open p m fp0 (kernel_at fr);
        if f_code kernel_file = -1 then do {
          st4 \<leftarrow> printf p sp st3 ''Unable to find \"%s\" on the specified filesystem.\<newline>'' [kernel_at fr];
          Some (st4, Returned)
        }
        else do {
          (st4, _, r) \<leftarrow> load_kernel E st3 kernel_file;
          case r of
            Jump _ _ _ \<Rightarrow> Some (st4, r)
          | Returned \<Rightarrow> do {
              st5 \<leftarrow> printf p sp st4 ''Fatal error while loading kernel. Aborting.\<newline>'' [];
              Some (st5, Returned)
            }
        }
      })"

section \<open>The program\<close>

text \<open>Up to the first prompt; \<open>None\<close> in the second component when no flash is found.\<close>

definition start_bootloader :: "env \<Rightarrow> machine \<Rightarrow> (machine \<times> bool) option" where
  "start_bootloader E st =
     (let p = plat E; fr = frm E; sp = printf_at fr;
          st1 = store_at (store_at st (buf_at fr + 128) 0) (kernel_at fr + 48) 0;
          st2 = c_putc st1 73;
          r = c_memsz p (rom E) (regs0 E);
          st3 = c_putc st2 76;
          f = check_flash p (mem st3)
      in if f = 0 then do {
           st4 \<leftarrow> printf p sp st3 ''\<newline>Error: Unable to find any valid flash! Aborting load.\<newline>'' [];
           Some (st4, False)
         }
         else do {
           let st4 = platform_init (c_putc st3 79);
           st5 \<leftarrow> printf p sp st4 ''\<newline>CiscoLoader (CILO) - Linux bootloader for Cisco Routers\<newline>'' [];
           st6 \<leftarrow> printf p sp st5 ''Available RAM: %d kB\<newline>''
             [of_int (sgn (sint r) * (\<bar>sint r\<bar> div 1024))];
           st7 \<leftarrow> printf p sp st6 ''Available files:\<newline>'' [];
           st8 \<leftarrow> flash_directory p sp st7;
           Some (st8, True)
         })"

datatype boot_state = Reset machine | Prompt machine | Stopped machine
  | Kernel machine (kernel_entry: addr) (kernel_memsz: u32) (kernel_args: addr)

inductive boot_step :: "env \<Rightarrow> boot_state \<Rightarrow> boot_state \<Rightarrow> bool" for E :: env where
  no_flash: "start_bootloader E st = Some (st', False) \<Longrightarrow> boot_step E (Reset st) (Stopped st')"
| to_prompt: "start_bootloader E st = Some (st', True) \<Longrightarrow> boot_step E (Reset st) (Prompt st')"
| again: "boot_prompt E fp0 st = Some (st', Returned) \<Longrightarrow> boot_step E (Prompt st) (Prompt st')"
| boot: "boot_prompt E fp0 st = Some (st', Jump entry sz args) \<Longrightarrow>
    boot_step E (Prompt st) (Kernel st' entry sz args)"

inductive_cases boot_stepE: "boot_step E s s'"
inductive_simps boot_step_Prompt: "boot_step E (Prompt st) s'"
inductive_simps boot_step_final: "boot_step E (Stopped st) s'" "boot_step E (Kernel st a b c) s'"

section \<open>Where things lie\<close>

text \<open>The objects the main program and the ELF loader use, with their sizes; 256 bytes hold
  every command line that can come up. \<open>layout_ok fr b n\<close>: they and the \<open>n\<close> bytes of the flash
  at \<open>b\<close> are all apart from each other, none is at the null pointer or wraps around to it.\<close>

definition regions :: "frame \<Rightarrow> (addr \<times> nat) list" where
  "regions fr =
     [(buf_at fr, 129), (kernel_at fr, 49), (MEMORY_BASE, 256), (main_hdr_at fr, 52), (hdr_at fr, 52),
      (phdr_at fr, 32), (console_at fr, 8), (lzma_at fr, 5), (printf_at fr, 1024)]"

definition region_apart :: "addr \<times> nat \<Rightarrow> addr \<times> nat \<Rightarrow> bool" where
  "region_apart r q \<longleftrightarrow> apart (fst r) (snd r) (fst q) (snd q)"

definition layout_ok :: "frame \<Rightarrow> addr \<Rightarrow> nat \<Rightarrow> bool" where
  "layout_ok fr b n \<longleftrightarrow>
     sorted_wrt region_apart ((b, n) # regions fr) \<and>
     list_all (\<lambda>r. fst r \<noteq> 0 \<and> unat (fst r) + snd r < 2 ^ 32) ((b, n) # regions fr)"

lemma layout_apart:
  assumes "layout_ok fr b n"
  shows "apart (buf_at fr) 129 MEMORY_BASE 256" "apart (kernel_at fr) 49 MEMORY_BASE 256"
    "apart (buf_at fr) 129 (kernel_at fr) 49" "apart b n (kernel_at fr) 49" "apart b n MEMORY_BASE 256"
    "apart b n (buf_at fr) 129" "apart (buf_at fr) 129 (console_at fr) 8" "apart (buf_at fr) 129 (lzma_at fr) 5"
    "apart (kernel_at fr) 49 (console_at fr) 8" "apart (kernel_at fr) 49 (lzma_at fr) 5"
    "apart MEMORY_BASE 256 (console_at fr) 8" "apart MEMORY_BASE 256 (lzma_at fr) 5"
    "apart (kernel_at fr) 49 (printf_at fr) 1024" "apart b n (main_hdr_at fr) 52"
    "apart b n (hdr_at fr) 52" "apart b n (phdr_at fr) 32" "apart (hdr_at fr) 52 (phdr_at fr) 32"
    "apart MEMORY_BASE 256 (main_hdr_at fr) 52" "apart MEMORY_BASE 256 (hdr_at fr) 52"
    "apart MEMORY_BASE 256 (phdr_at fr) 32"
  using assms by (simp_all add: layout_ok_def regions_def region_apart_def)

lemma layout_nonzero:
  assumes "layout_ok fr b n"
  shows "b \<noteq> 0" "buf_at fr \<noteq> 0" "kernel_at fr \<noteq> 0" "main_hdr_at fr \<noteq> 0" "hdr_at fr \<noteq> 0"
    "phdr_at fr \<noteq> 0" "unat b + n < 2 ^ 32" "unat (buf_at fr) + 129 < 2 ^ 32"
  using assms by (simp_all add: layout_ok_def regions_def)

section \<open>Splitting the line\<close>

lemma strchr_blank:
  assumes "cstr m a (name @ 32 # args)" and "32 \<notin> set name"
  shows "strchr m a 32 = Some (a + of_nat (length name))"
proof -
  have "takeWhile (\<lambda>x. x \<noteq> 32) (name @ 32 # args) = name"
    using assms(2) by (simp add: takeWhile_append)
  then show ?thesis using strchr_cstr [OF assms(1), of 32] by (simp add: strchr_result_def)
qed

lemma strchr_no_blank:
  assumes "cstr m a s" and "32 \<notin> set s"
  shows "strchr m a 32 = Some 0"
  using strchr_cstr [OF assms(1), of 32] assms(2) by (simp add: strchr_result_def)

text \<open>A \<open>strncpy\<close> of the first characters of a string.\<close>

lemma strncpy_prefix:
  assumes "cstr m src (s @ t)" and "length s < 2 ^ 32" and "dest \<noteq> 0" and "src \<noteq> 0"
    and "apart dest (length s) src (length s)"
  shows "fst (strncpy m dest src (of_nat (length s))) = mem_write m dest s"
proof (cases "s = []")
  case True
  then show ?thesis by (simp add: strncpy_def)
next
  case False
  have n: "unat (of_nat (length s) :: u32) = length s" using assms(2) by simp
  then have nz: "(of_nat (length s) :: u32) \<noteq> 0" using False by (metis length_0_conv unat_0)
  have "field_str m src (length s) = s" using field_str_cstr [OF assms(1)] by simp
  then have "padded_field m src (length s) = s" by (simp add: padded_field_def)
  then show ?thesis using strncpy_eq [OF _ assms(3,4) nz, of m] assms(5) n by simp
qed

lemma strncpy_whole:
  assumes "cstr m src s" and "length s \<le> unat n" and "dest \<noteq> 0" and "src \<noteq> 0" and "n \<noteq> 0"
    and "apart dest (unat n) src (unat n)"
  shows "fst (strncpy m dest src n) = mem_write m dest (s @ replicate (unat n - length s) 0)"
proof -
  have "field_str m src (unat n) = s" using field_str_cstr [OF assms(1)] assms(2) by simp
  then have "padded_field m src (unat n) = s @ replicate (unat n - length s) 0"
    by (simp add: padded_field_def)
  then show ?thesis using strncpy_eq [OF assms(6,3,4,5)] by simp
qed

lemma MEMORY_BASE_nonzero: "MEMORY_BASE \<noteq> 0"
  by (simp add: MEMORY_BASE_def)

lemma set_kernel_and_args_eq:
  assumes lay: "layout_ok fr b n" and str: "cstr m (buf_at fr) (name @ 32 # args)"
    and len: "length name \<le> 47" "length name + length args < 127"
  shows "set_kernel_and_args fr m (buf_at fr + of_nat (length name)) =
     Some ((mem_write (mem_write m MEMORY_BASE (args @ [0])) (kernel_at fr) name)
       (kernel_at fr + (of_nat (length name) + 1) := 0))"
proof -
  note ap = layout_apart [OF lay] and nz = layout_nonzero [OF lay]
  let ?src = "buf_at fr + of_nat (length name) + 1"
  let ?m1 = "mem_write m MEMORY_BASE (args @ [0])"
  have src: "?src = buf_at fr + of_nat (Suc (length name))" by simp
  have args: "cstr m ?src args" using str by (simp add: cstr_append)
  have "apart (buf_at fr + of_nat (Suc (length name))) (Suc (length args)) MEMORY_BASE 256"
    using len by (intro apart_part [OF ap(1)]) simp_all
  then have dis: "apart MEMORY_BASE (Suc (length args)) ?src (Suc (length args))"
    unfolding src using len by (elim apart_mono_sym) simp_all
  have "?src \<noteq> 0"
    unfolding src using nz len by (intro base_offset_nonzero [of _ 129]) simp_all
  then have cpy: "strcpy m MEMORY_BASE ?src = Some (?m1, MEMORY_BASE + of_nat (length args))"
    using args dis len by (intro strcpy_cstr) (simp_all add: MEMORY_BASE_nonzero)
  have keep: "cstr ?m1 (buf_at fr) (name @ 32 # args)"
    using str ap(1) len by (intro cstr_write_apart) (auto intro: apart_mono)
  have "apart (kernel_at fr) (length name) (buf_at fr) (length name)"
    using ap(3) len by (elim apart_mono_sym) simp_all
  then have "fst (strncpy ?m1 (kernel_at fr) (buf_at fr) (of_nat (length name))) = mem_write ?m1 (kernel_at fr) name"
    using keep len nz by (intro strncpy_prefix) simp_all
  then show ?thesis
    by (simp add: set_kernel_and_args_def cpy Let_def case_prod_unfold)
qed

text \<open>The name keeps one byte of whatever the array held before: the byte after it is cleared,
  the byte that ends it is not.\<close>

definition stale_name :: "frame \<Rightarrow> mem \<Rightarrow> u8 list \<Rightarrow> u8 list" where
  "stale_name fr m name =
     (let c = m (kernel_at fr + of_nat (length name)) in if c = 0 then name else name @ [c])"

lemma apart_at:
  assumes "apart a n b k" and "i < n" and "n \<le> 2 ^ 32"
  shows "\<not> in_range b k (a + of_nat i)"
  using apart_not_in_range [OF assms(1) in_range_offset [OF assms(2,3)]] .

lemma offset_beyond:
  assumes "n \<le> k" and "k < 2 ^ 32"
  shows "\<not> in_range a n (a + of_nat k)"
  using assms by (simp add: in_range_def)

lemma kernel_name_stored:
  assumes lay: "layout_ok fr b n" and len: "length name \<le> 47" and args: "length args < 256" and nz: "0 \<notin> set name"
  shows "cstr ((mem_write (mem_write m MEMORY_BASE (args @ [0])) (kernel_at fr) name)
    (kernel_at fr + (of_nat (length name) + 1) := 0)) (kernel_at fr) (stale_name fr m name)"
proof -
  let ?k = "kernel_at fr" and ?L = "length name"
  let ?m1 = "mem_write m MEMORY_BASE (args @ [0])"
  let ?m2 = "mem_write ?m1 ?k name"
  let ?m' = "?m2(?k + (of_nat ?L + 1) := 0)"
  have nxt: "?k + (of_nat ?L + 1) = ?k + of_nat (Suc ?L)" by simp
  have "mem_read ?m' ?k ?L = mem_read ?m2 ?k ?L"
    unfolding nxt using len by (intro mem_read_upd_beyond) simp_all
  then have rd: "mem_read ?m' ?k ?L = name" using len by simp
  have "?m' (?k + of_nat ?L) = ?m2 (?k + of_nat ?L)" by simp
  also have "\<dots> = ?m1 (?k + of_nat ?L)"
    using len by (intro mem_write_outside offset_beyond) simp_all
  also have "\<dots> = m (?k + of_nat ?L)"
  proof (rule mem_write_outside)
    have "apart ?k 49 MEMORY_BASE (length (args @ [0]))"
      by (rule apart_mono [OF layout_apart(2) [OF lay]]) (use args in simp_all)
    then show "\<not> in_range MEMORY_BASE (length (args @ [0])) (?k + of_nat ?L)"
      using len by (intro apart_at [where n = 49]) simp_all
  qed
  finally have at: "?m' (?k + of_nat ?L) = m (?k + of_nat ?L)" .
  have "cstr ?m' (?k + of_nat ?L) (if m (?k + of_nat ?L) = 0 then [] else [m (?k + of_nat ?L)])"
    using at by (simp add: add.assoc)
  with rd nz have "cstr ?m' ?k (name @ (if m (?k + of_nat ?L) = 0 then [] else [m (?k + of_nat ?L)]))"
    by (simp add: cstr_append)
  then show ?thesis by (simp add: stale_name_def Let_def split: if_splits)
qed

section \<open>The console setting\<close>

text \<open>What the command line can end up as: the arguments, with the console setting appended
  unless the search finds the word in them.\<close>

definition console_setting :: "u32 \<Rightarrow> u8 list" where
  "console_setting baud = bytes_of ''console=ttyS0,'' @ decimal baud"

definition mentions :: "u8 list \<Rightarrow> string \<Rightarrow> bool" where
  "mentions s w \<longleftrightarrow> (\<exists>l r. s = l @ bytes_of w @ r)"

definition cmd_written :: "mem \<Rightarrow> mem \<Rightarrow> bool" where
  "cmd_written m m' \<longleftrightarrow> (\<forall>x. \<not> in_range MEMORY_BASE 256 x \<longrightarrow> m' x = m x)"

lemma console_setting_bytes: "0 \<notin> set (console_setting baud)" "length (console_setting baud) \<le> 50"
  using length_decimal [of baud] by (simp_all add: console_setting_def decimal_nonzero)

lemma write_in_cmd:
  assumes "k + length bs \<le> 256"
  shows "cmd_written m (mem_write m (MEMORY_BASE + of_nat k) bs)"
  unfolding cmd_written_def
proof (intro allI impI)
  fix x assume out: "\<not> in_range MEMORY_BASE 256 x"
  have "\<not> in_range (MEMORY_BASE + of_nat k) (length bs) x"
  proof
    assume "in_range (MEMORY_BASE + of_nat k) (length bs) x"
    then have "in_range MEMORY_BASE (k + length bs) x" using assms by (intro in_range_shift) simp_all
    then show False using out assms in_range_mono by blast
  qed
  then show "mem_write m (MEMORY_BASE + of_nat k) bs x = m x" by (rule mem_write_outside)
qed

lemma append_console_result:
  assumes cmd: "cstr m MEMORY_BASE args" and lit: "cstr m (console_at fr) (bytes_of ''console'')"
    and len: "length args < 128"
  shows "\<exists>m' t. append_console fr m baud = Some m' \<and> cstr m' MEMORY_BASE t \<and> cmd_written m m' \<and>
    (t = args \<and> mentions args ''consol'' \<or> t = args @ 32 # console_setting baud)"
proof -
  have needle: "butlast (bytes_of ''console'') = bytes_of ''consol''" by simp
  from strstr_sound [OF cmd lit] obtain p where p: "strstr m MEMORY_BASE (console_at fr) = Some p"
    and hit: "p \<noteq> 0 \<longrightarrow> mentions args ''consol''"
    unfolding needle mentions_def by fastforce
  show ?thesis
  proof (cases "p = 0")
    case False
    then show ?thesis using p hit cmd
      by (intro exI [of _ m] exI [of _ args]) (simp add: append_console_def cmd_written_def)
  next
    case True
    let ?u = "bytes_of '' console=ttyS0,'' @ decimal baud"
    let ?m' = "mem_write m (MEMORY_BASE + of_nat (length args)) (?u @ [0])"
    have u: "?u = 32 # console_setting baud" by (simp add: console_setting_def)
    have "append_console fr m baud = Some ?m'"
      using p True sprintf_append [OF cmd MEMORY_BASE_nonzero, of baud] by (simp add: append_console_def)
    moreover have "cstr ?m' MEMORY_BASE (args @ ?u)"
      using cmd len length_decimal [of baud] by (intro cstr_write_append) (simp_all add: decimal_nonzero)
    moreover have "cmd_written m ?m'"
      using len length_decimal [of baud] by (intro write_in_cmd) simp
    ultimately show ?thesis unfolding u by blast
  qed
qed

section \<open>The parsed line\<close>

definition parse_frame :: "frame \<Rightarrow> mem \<Rightarrow> mem \<Rightarrow> bool" where
  "parse_frame fr m m' \<longleftrightarrow>
     (\<forall>x. \<not> in_range MEMORY_BASE 256 x \<longrightarrow> \<not> in_range (kernel_at fr) 49 x \<longrightarrow> m' x = m x)"

lemma kept_cstr:
  assumes "cstr m a s" and "\<And>x. in_range a N x \<Longrightarrow> m' x = m x" and "length s < N" and "N \<le> 2 ^ 32"
  shows "cstr m' a s"
  using assms cstr_cong [of s m a m'] in_range_offset [of _ N a] by simp

lemma parse_line_name_only:
  assumes lay: "layout_ok fr b n" and str: "cstr m (buf_at fr) line" and blank: "32 \<notin> set line"
    and len: "length line \<le> 47"
  shows "\<exists>m'. parse_line fr m baud = Some m' \<and> cstr m' (kernel_at fr) line \<and>
    cstr m' MEMORY_BASE (console_setting baud) \<and> parse_frame fr m m'"
proof -
  note ap = layout_apart [OF lay] and nz = layout_nonzero [OF lay]
  let ?pad = "line @ replicate (48 - length line) 0"
  let ?m1 = "mem_write m (kernel_at fr) ?pad"
  let ?m2 = "mem_write ?m1 MEMORY_BASE (console_setting baud @ [0])"
  have "apart (kernel_at fr) 48 (buf_at fr) 48" by (rule apart_mono_sym [OF ap(3)]) simp_all
  then have cpy: "fst (strncpy m (kernel_at fr) (buf_at fr) 48) = ?m1"
    using strncpy_whole [OF str, of 48] len nz by simp
  have res: "parse_line fr m baud = Some ?m2"
    using strchr_no_blank [OF str blank] cpy sprintf_console [of ?m1 MEMORY_BASE baud]
    by (simp add: parse_line_def Let_def case_prod_unfold console_setting_def)
  have "?pad = (line @ [0]) @ replicate (47 - length line) 0"
    using len by (simp add: Suc_diff_le flip: replicate_Suc)
  moreover have "0 \<notin> set line" using cstr_nonzero [OF str] by blast
  ultimately have k1: "cstr ?m1 (kernel_at fr) line"
    using len mem_read_write_same [of ?pad m "kernel_at fr"] take_mem_read [of "Suc (length line)" 48 ?m1 "kernel_at fr"]
    by (simp add: cstr_mem_read)
  have clen: "length (console_setting baud) < 256" using console_setting_bytes(2) [of baud] by simp
  have "cstr ?m2 (kernel_at fr) line"
    by (rule cstr_write_apart [OF k1]) (use len clen in \<open>auto intro: apart_mono [OF ap(2)]\<close>)
  moreover have "cstr ?m2 MEMORY_BASE (console_setting baud)"
    using clen console_setting_bytes(1) by (intro cstr_write) simp_all
  moreover have "parse_frame fr m ?m2"
    using len clen by (auto simp: parse_frame_def mem_write_beyond)
  ultimately show ?thesis using res by blast
qed

lemma cmd_written_cstr:
  assumes "cstr m a s" and "cmd_written m m'" and "apart a N MEMORY_BASE 256" and "length s < N" and "N \<le> 2 ^ 32"
  shows "cstr m' a s"
proof (rule kept_cstr [OF assms(1) _ assms(4,5)])
  fix x assume "in_range a N x"
  then have "\<not> in_range MEMORY_BASE 256 x" by (rule apart_not_in_range [OF assms(3)])
  then show "m' x = m x" using assms(2) by (simp add: cmd_written_def)
qed

lemma parse_line_with_args:
  assumes lay: "layout_ok fr b n" and str: "cstr m (buf_at fr) (name @ 32 # args)" and blank: "32 \<notin> set name"
    and len: "length name \<le> 47" "length name + length args < 127"
    and lit: "cstr m (console_at fr) (bytes_of ''console'')"
  shows "\<exists>m' t. parse_line fr m baud = Some m' \<and> cstr m' (kernel_at fr) (stale_name fr m name) \<and>
    cstr m' MEMORY_BASE t \<and> parse_frame fr m m' \<and>
    (t = args \<and> mentions args ''consol'' \<or> t = args @ 32 # console_setting baud)"
proof -
  note ap = layout_apart [OF lay] and nz = layout_nonzero [OF lay]
  let ?k = "kernel_at fr"
  let ?m1 = "mem_write m MEMORY_BASE (args @ [0])"
  let ?m2 = "(mem_write ?m1 ?k name)(?k + (of_nat (length name) + 1) := 0)"
  have "0 \<notin> set name" using str by (simp add: cstr_append)
  then have k2: "cstr ?m2 ?k (stale_name fr m name)"
    using len by (intro kernel_name_stored [OF lay]) simp_all
  have fr1: "?m1 x = m x" if "\<not> in_range MEMORY_BASE 256 x" for x
    using that len by (simp add: mem_write_beyond)
  have fr2: "?m2 x = ?m1 x" if "\<not> in_range ?k 49 x" for x
  proof -
    have "in_range ?k 49 (?k + of_nat (Suc (length name)))"
      using len by (intro in_range_offset) simp_all
    then have "x \<noteq> ?k + (of_nat (length name) + 1)" using that by (auto simp: add.commute)
    then show ?thesis using that len by (simp add: mem_write_beyond)
  qed
  have args1: "cstr ?m1 MEMORY_BASE args"
  proof (rule cstr_write)
    have "cstr m (buf_at fr) ((name @ [32]) @ args)" using str by simp
    then have "cstr m (buf_at fr + of_nat (length (name @ [32]))) args" unfolding cstr_append by blast
    then show "0 \<notin> set args" using cstr_nonzero by blast
    show "length args < 2 ^ 32" using len by simp
  qed
  have "cstr ?m2 MEMORY_BASE args"
  proof (rule kept_cstr [OF args1, where N = 256])
    fix x assume "in_range MEMORY_BASE 256 x"
    then have "\<not> in_range ?k 49 x" using ap(2) apart_sym apart_not_in_range by blast
    then show "?m2 x = ?m1 x" by (rule fr2)
  qed (use len in simp_all)
  moreover have "cstr ?m2 (console_at fr) (bytes_of ''console'')"
  proof (rule kept_cstr [OF lit, where N = 8])
    fix x assume "in_range (console_at fr) 8 x"
    then have "\<not> in_range ?k 49 x" "\<not> in_range MEMORY_BASE 256 x"
      using ap(9,11) apart_sym apart_not_in_range by blast+
    then show "?m2 x = m x" using fr1 fr2 by simp
  qed simp_all
  ultimately obtain m' t where ac: "append_console fr ?m2 baud = Some m'" "cstr m' MEMORY_BASE t"
      "cmd_written ?m2 m'" "t = args \<and> mentions args ''consol'' \<or> t = args @ 32 # console_setting baud"
    using append_console_result [of ?m2 args fr baud] len by fastforce
  have at: "strchr m (buf_at fr) 32 = Some (buf_at fr + of_nat (length name))"
    by (rule strchr_blank [OF str blank])
  have "buf_at fr + of_nat (length name) \<noteq> 0"
    using nz len by (intro base_offset_nonzero [of _ 129]) simp_all
  then have "parse_line fr m baud = Some m'"
    using at set_kernel_and_args_eq [OF lay str len] ac(1) by (simp add: parse_line_def)
  moreover have "cstr m' ?k (stale_name fr m name)"
    by (rule cmd_written_cstr [OF k2 ac(3) ap(2)])
      (use len in \<open>simp_all add: stale_name_def Let_def\<close>)
  moreover have "parse_frame fr m m'"
    using fr1 fr2 ac(3) by (simp add: parse_frame_def cmd_written_def)
  ultimately show ?thesis using ac by blast
qed

end
