(* ===== verification/Booting.thy ===== *)
theory Booting
  imports Bootloader
begin

text \<open>
  The boot loader from the prompt to the kernel: what one pass of \<^verbatim>\<open>start_bootloader\<close>'s loop
  does with a typed line, put together from the line editor, the parser, the flash
  directory and the loaders, and what holds of every state the program reaches.
\<close>

section \<open>At the prompt\<close>

text \<open>\<open>prompt_ok E es m\<close>: the layout, the files \<open>es\<close> in flash and the two string literals.\<close>

definition prompt_ok :: "env \<Rightarrow> (u8 list \<times> u8 list) list \<Rightarrow> mem \<Rightarrow> bool" where
  "prompt_ok E es m \<longleftrightarrow>
     layout_ok (frm E) (FLASH_BASE (plat E)) (dir_span (plat E) es) \<and>
     flash_dir (plat E) m (FLASH_BASE (plat E)) es \<and>
     cstr m (console_at (frm E)) (bytes_of ''console'') \<and> cstr m (lzma_at (frm E)) (bytes_of ''lzma'')"

definition prompt_frame :: "frame \<Rightarrow> mem \<Rightarrow> mem \<Rightarrow> bool" where
  "prompt_frame fr m m' \<longleftrightarrow>
     (\<forall>x. \<not> in_range (buf_at fr) 129 x \<longrightarrow> \<not> in_range MEMORY_BASE 256 x \<longrightarrow>
        \<not> in_range (kernel_at fr) 49 x \<longrightarrow> m' x = m x)"

lemma prompt_frameD:
  assumes "prompt_frame fr m m'" and "apart a n (buf_at fr) 129" and "apart a n MEMORY_BASE 256"
    and "apart a n (kernel_at fr) 49" and "in_range a n x"
  shows "m' x = m x"
  using assms apart_not_in_range [of a n _ _ x] unfolding prompt_frame_def by blast

lemma prompt_ok_kept:
  assumes ok: "prompt_ok E es m"
    and kept: "\<And>x. in_range (FLASH_BASE (plat E)) (dir_span (plat E) es) x \<Longrightarrow> m' x = m x"
      "\<And>x. in_range (console_at (frm E)) 8 x \<Longrightarrow> m' x = m x" "\<And>x. in_range (lzma_at (frm E)) 5 x \<Longrightarrow> m' x = m x"
  shows "prompt_ok E es m'"
proof -
  have lay: "layout_ok (frm E) (FLASH_BASE (plat E)) (dir_span (plat E) es)" and dir: "flash_dir (plat E) m (FLASH_BASE (plat E)) es"
    and lits: "cstr m (console_at (frm E)) (bytes_of ''console'')" "cstr m (lzma_at (frm E)) (bytes_of ''lzma'')"
    using ok by (simp_all add: prompt_ok_def)
  have "flash_dir (plat E) m' (FLASH_BASE (plat E)) es"
    using layout_nonzero(7) [OF lay] by (intro flash_dir_frame [OF dir kept(1)]) simp_all
  moreover have "cstr m' (console_at (frm E)) (bytes_of ''console'')" using kept_cstr [OF lits(1) kept(2)] by simp
  moreover have "cstr m' (lzma_at (frm E)) (bytes_of ''lzma'')" using kept_cstr [OF lits(2) kept(3)] by simp
  ultimately show ?thesis using lay by (simp add: prompt_ok_def)
qed

lemma prompt_ok_frame:
  assumes ok: "prompt_ok E es m" and fr: "prompt_frame (frm E) m m'"
  shows "prompt_ok E es m'"
proof (rule prompt_ok_kept [OF ok])
  have "layout_ok (frm E) (FLASH_BASE (plat E)) (dir_span (plat E) es)" using ok by (simp add: prompt_ok_def)
  note ap = layout_apart [OF this]
  show "m' x = m x" if "in_range (FLASH_BASE (plat E)) (dir_span (plat E) es) x" for x
    using prompt_frameD [OF fr ap(6,5,4) that] .
  show "m' x = m x" if "in_range (console_at (frm E)) 8 x" for x
    using prompt_frameD [OF fr _ _ _ that] ap(7,9,11) apart_sym by blast
  show "m' x = m x" if "in_range (lzma_at (frm E)) 5 x" for x
    using prompt_frameD [OF fr _ _ _ that] ap(8,10,12) apart_sym by blast
qed

text \<open>The file named is opened, wherever in the directory it is.\<close>

lemma file_in_flash:
  assumes lay: "layout_ok fr (FLASH_BASE p) (dir_span p es)" and found: "map_of es name = Some data"
  defines "b \<equiv> entry_addr p (FLASH_BASE p) es name + fs_ent_size p"
  shows "b \<noteq> 0" and "unat b + length data < 2 ^ 32"
    and "apart (FLASH_BASE p) (dir_span p es) a n \<Longrightarrow> data \<noteq> [] \<Longrightarrow> apart b (length data) a n"
proof -
  obtain i where i: "b = FLASH_BASE p + of_nat i" "i + length data \<le> dir_span p es"
    using entry_addr_within [OF found] unfolding b_def by blast
  note nz = layout_nonzero(1,7) [OF lay]
  show "b \<noteq> 0" unfolding i(1) by (rule base_offset_nonzero [OF nz]) (use i(2) in simp)
  have "unat b = unat (FLASH_BASE p) + i"
    unfolding i(1) using nz(2) i(2) by (simp add: unat_word_ariths unat_of_nat)
  then show "unat b + length data < 2 ^ 32" using nz(2) i(2) by simp
  show "apart b (length data) a n" if "apart (FLASH_BASE p) (dir_span p es) a n" "data \<noteq> []"
    unfolding i(1) using that i(2) by (intro apart_part) auto
qed

lemma kernel_file:
  assumes ok: "prompt_ok E es m" and name: "cstr m (kernel_at (frm E)) name" "length name \<le> 48"
  shows "\<exists>fp. cilo_open (plat E) m fp0 (kernel_at (frm E)) = Some fp \<and>
    (case map_of es name of
       None \<Rightarrow> f_code fp = -1
     | Some data \<Rightarrow> f_code fp = 1 \<and> file_pos fp = 0 \<and> backed (plat E) m fp data \<and>
         file_base (plat E) fp = entry_addr (plat E) (FLASH_BASE (plat E)) es name + fs_ent_size (plat E))"
proof (rule cilo_open_dir)
  show "flash_dir (plat E) m (FLASH_BASE (plat E)) es" using ok by (simp add: prompt_ok_def)
  have "48 \<le> unat (filename_width (plat E))" by (cases "plat E") simp_all
  then show "name = field_str m (kernel_at (frm E)) (unat (filename_width (plat E)))"
    using name(2) by (simp add: field_str_cstr [OF name(1)])
qed

section \<open>A pass from the prompt\<close>

lemma prompt_line:
  assumes ends: "ends_line e" "list_all (\<lambda>c. \<not> ends_line c) cs" and typed: "typed_line p [] cs = Some line"
    and len: "length cs < 128" and inp: "con_in st = cs @ e # rest" and nz: "0 \<notin> set line"
  shows "\<exists>st1 k st2. printf p sp st ''\<newline>Enter filename to boot:\<newline>> '' [] = Some st1 \<and>
    c_gets p st1 (buf_at fr) 128 = Some (k, st2) \<and> cstr (mem st2) (buf_at fr) line \<and>
    prompt_frame fr (mem st) (mem st2) \<and> con_in st2 = rest"
proof -
  have "plain_text ''\<newline>Enter filename to boot:\<newline>> ''" by (simp add: plain_text_def)
  from printf_plain [OF this, of p sp st] obtain o1
    where pr: "printf p sp st ''\<newline>Enter filename to boot:\<newline>> '' [] = Some (st\<lparr>con_out := con_out st @ o1\<rparr>)"
    by auto
  have "(128 :: nat) \<le> 2 ^ 31" by simp
  from c_gets_loop_line [OF ends(1) this typed ends(2), of "st\<lparr>con_out := con_out st @ o1\<rparr>" "buf_at fr" rest]
  obtain st2 where gets: "c_gets p (st\<lparr>con_out := con_out st @ o1\<rparr>) (buf_at fr) 128 = Some (int (length line) + 1, st2)"
    and rd: "mem_read (mem st2) (buf_at fr) (length line) = line" "mem st2 (buf_at fr + of_nat (length line)) = 0"
    and rest: "con_in st2 = rest"
    and out: "\<And>x. \<not> in_range (buf_at fr) 128 x \<Longrightarrow> mem st2 x = mem st x"
    using len inp by (auto simp: c_gets_def)
  have "cstr (mem st2) (buf_at fr) line" using rd nz by (simp add: cstr_mem_read mem_read_snoc)
  moreover have "prompt_frame fr (mem st) (mem st2)"
    using out in_range_mono [of _ 128 _ 129] by (auto simp: prompt_frame_def)
  ultimately show ?thesis using pr gets rest by blast
qed

lemma prompt_frame_trans:
  "prompt_frame fr m m1 \<Longrightarrow> parse_frame fr m1 m2 \<Longrightarrow> prompt_frame fr m m2"
  by (simp add: prompt_frame_def parse_frame_def)

text \<open>What the typed line leaves to \<open>cilo_open\<close>: the kernel name and the command line in place.\<close>

definition line_result :: "env \<Rightarrow> machine \<Rightarrow> u8 list \<Rightarrow> machine \<Rightarrow> u8 list \<Rightarrow> u8 list \<Rightarrow> bool" where
  "line_result E st line st3 name cmd \<longleftrightarrow>
     cstr (mem st3) (kernel_at (frm E)) name \<and> length name \<le> 48 \<and> cstr (mem st3) MEMORY_BASE cmd \<and>
     length cmd < 256 \<and> prompt_frame (frm E) (mem st) (mem st3)"

lemma boot_prompt_parsed:
  assumes "printf (plat E) (printf_at (frm E)) st ''\<newline>Enter filename to boot:\<newline>> '' [] = Some st1"
    and "c_gets (plat E) st1 (buf_at (frm E)) 128 = Some (k, st2)"
    and "parse_line (frm E) (mem st2) (c_baud (plat E) (rom E) (regs0 E)) = Some m"
    and "cilo_open (plat E) m fp0 (kernel_at (frm E)) = Some fp"
  shows "boot_prompt E fp0 st =
    (if f_code fp = -1 then do {
       st4 \<leftarrow> printf (plat E) (printf_at (frm E)) (st2\<lparr>mem := m\<rparr>)
         ''Unable to find \"%s\" on the specified filesystem.\<newline>'' [kernel_at (frm E)];
       Some (st4, Returned)
     }
     else do {
       (st4, _, r) \<leftarrow> load_kernel E (st2\<lparr>mem := m\<rparr>) fp;
       case r of
         Jump _ _ _ \<Rightarrow> Some (st4, r)
       | Returned \<Rightarrow> do {
           st5 \<leftarrow> printf (plat E) (printf_at (frm E)) st4 ''Fatal error while loading kernel. Aborting.\<newline>'' [];
           Some (st5, Returned)
         }
     })"
  unfolding boot_prompt_def Let_def assms bind.simps prod.case ..

lemma typed_name:
  assumes ok: "prompt_ok E es (mem st)" and ends: "ends_line e" "list_all (\<lambda>c. \<not> ends_line c) cs"
    and typed: "typed_line (plat E) [] cs = Some line" and len: "length cs < 128" "length line \<le> 47"
    and inp: "con_in st = cs @ e # rest" and line: "0 \<notin> set line" "32 \<notin> set line"
  defines "baud \<equiv> c_baud (plat E) (rom E) (regs0 E)"
  shows "\<exists>st1 k st2 m. printf (plat E) (printf_at (frm E)) st ''\<newline>Enter filename to boot:\<newline>> '' [] = Some st1 \<and>
    c_gets (plat E) st1 (buf_at (frm E)) 128 = Some (k, st2) \<and> parse_line (frm E) (mem st2) baud = Some m \<and>
    line_result E st line (st2\<lparr>mem := m\<rparr>) line (console_setting baud) \<and> con_in st2 = rest"
proof -
  have lay: "layout_ok (frm E) (FLASH_BASE (plat E)) (dir_span (plat E) es)"
    using ok by (simp add: prompt_ok_def)
  obtain st1 k st2 where g: "printf (plat E) (printf_at (frm E)) st ''\<newline>Enter filename to boot:\<newline>> '' [] = Some st1"
    "c_gets (plat E) st1 (buf_at (frm E)) 128 = Some (k, st2)" "cstr (mem st2) (buf_at (frm E)) line"
    "prompt_frame (frm E) (mem st) (mem st2)" "con_in st2 = rest"
    using prompt_line [OF ends typed len(1) inp line(1)] by blast
  obtain m where m: "parse_line (frm E) (mem st2) baud = Some m" "cstr m (kernel_at (frm E)) line"
      "cstr m MEMORY_BASE (console_setting baud)" "parse_frame (frm E) (mem st2) m"
    using parse_line_name_only [OF lay g(3) line(2) len(2)] by blast
  have "line_result E st line (st2\<lparr>mem := m\<rparr>) line (console_setting baud)"
    using m(2,3) prompt_frame_trans [OF g(4) m(4)] len(2) console_setting_bytes(2) [of baud]
    by (simp add: line_result_def)
  then show ?thesis using g m by blast
qed

text \<open>A name that is not in flash: a message, and back to the prompt with everything in place.\<close>

lemma boot_prompt_unknown:
  assumes "printf (plat E) (printf_at (frm E)) st ''\<newline>Enter filename to boot:\<newline>> '' [] = Some st1"
    and "c_gets (plat E) st1 (buf_at (frm E)) 128 = Some (k, st2)"
    and "parse_line (frm E) (mem st2) (c_baud (plat E) (rom E) (regs0 E)) = Some m"
    and ok: "prompt_ok E es (mem st)" and res: "line_result E st line (st2\<lparr>mem := m\<rparr>) name cmd"
    and none: "map_of es name = None"
  shows "boot_prompt E fp0 st = Some (st2\<lparr>mem := m, con_out := con_out st2 @ console_text (plat E)
      (bytes_of ''Unable to find \"'' @ name @ bytes_of ''\" on the specified filesystem.\<newline>'')\<rparr>, Returned)"
    and "prompt_ok E es m"
proof -
  have name: "cstr m (kernel_at (frm E)) name" "length name \<le> 48"
    and frame: "prompt_frame (frm E) (mem st) m"
    using res by (simp_all add: line_result_def)
  show ok': "prompt_ok E es m" by (rule prompt_ok_frame [OF ok frame])
  have lay: "layout_ok (frm E) (FLASH_BASE (plat E)) (dir_span (plat E) es)"
    using ok by (simp add: prompt_ok_def)
  obtain fp where fp: "cilo_open (plat E) m fp0 (kernel_at (frm E)) = Some fp" "f_code fp = -1"
    using kernel_file [OF ok' name, of fp0] none by auto
  have "printf (plat E) (printf_at (frm E)) (st2\<lparr>mem := m\<rparr>)
      (''Unable to find \"'' @ CHR ''%'' # CHR ''s'' # ''\" on the specified filesystem.\<newline>'') [kernel_at (frm E)]
    = Some ((st2\<lparr>mem := m\<rparr>)\<lparr>con_out := con_out (st2\<lparr>mem := m\<rparr>) @ console_text (plat E)
      (bytes_of ''Unable to find \"'' @ name @ bytes_of ''\" on the specified filesystem.\<newline>'')\<rparr>)"
  proof (rule printf_text_s)
    show "cstr (mem (st2\<lparr>mem := m\<rparr>)) (kernel_at (frm E)) name" using name(1) by simp
    show "kernel_at (frm E) \<noteq> 0" using layout_nonzero [OF lay] by simp
    show "apart (printf_at (frm E)) 1024 (kernel_at (frm E)) (Suc (length name))"
      by (rule apart_mono_sym [OF layout_apart(13) [OF lay]]) (use name(2) in simp_all)
  qed (use name(2) in \<open>simp_all add: plain_text_def\<close>)
  then show "boot_prompt E fp0 st = Some (st2\<lparr>mem := m, con_out := con_out st2 @ console_text (plat E)
      (bytes_of ''Unable to find \"'' @ name @ bytes_of ''\" on the specified filesystem.\<newline>'')\<rparr>, Returned)"
    unfolding boot_prompt_parsed [OF assms(1,2,3) fp(1)] using fp(2) by simp
qed

text \<open>The memory after a kernel has been placed: both copies of the header, then the segments.\<close>

definition kernel_image :: "frame \<Rightarrow> u8 list \<Rightarrow> mem \<Rightarrow> mem" where
  "kernel_image fr data m =
     elf32_image fr data (mem_write (mem_write m (main_hdr_at fr) (take 52 data)) (hdr_at fr) (take 52 data))"

lemma layout_placed:
  assumes lay: "layout_ok fr (FLASH_BASE p) (dir_span p es)" and found: "map_of es name = Some data"
    and data: "data \<noteq> []"
  shows "placed fr (entry_addr p (FLASH_BASE p) es name + fs_ent_size p) (length data)"
  using file_in_flash [OF lay found] layout_apart [OF lay] layout_nonzero [OF lay] data
  by (simp add: placed_def)

lemma printf_booting:
  assumes lay: "layout_ok fr b n" and name: "cstr (mem st) (kernel_at fr) name" "length name \<le> 48"
  shows "\<exists>out. printf p (printf_at fr) st ''Booting %s.\<newline>'' [kernel_at fr] = Some (st\<lparr>con_out := con_out st @ out\<rparr>)"
proof -
  have "printf p (printf_at fr) st (''Booting '' @ CHR ''%'' # CHR ''s'' # ''.\<newline>'') [kernel_at fr] =
    Some (st\<lparr>con_out := con_out st @ console_text p (bytes_of ''Booting '' @ name @ bytes_of ''.\<newline>'')\<rparr>)"
  proof (rule printf_text_s)
    show "apart (printf_at fr) 1024 (kernel_at fr) (Suc (length name))"
      by (rule apart_mono_sym [OF layout_apart(13) [OF lay]]) (use name(2) in simp_all)
  qed (use name layout_nonzero [OF lay] in \<open>simp_all add: plain_text_def\<close>)
  then show ?thesis by (intro exI) simp
qed

lemma load_kernel_elf:
  assumes ok: "prompt_ok E es (mem st)" and name: "cstr (mem st) (kernel_at (frm E)) name" "length name \<le> 48"
    and plain: "\<not> mentions name ''lzm''" and found: "map_of es name = Some data"
    and fp: "file_pos fp = 0" "backed (plat E) (mem st) fp data"
      "file_base (plat E) fp = entry_addr (plat E) (FLASH_BASE (plat E)) es name + fs_ent_size (plat E)"
    and ld: "elf32_loadable (frm E) (file_base (plat E) fp) data"
  shows "\<exists>out fp'. load_kernel E st fp = Some (st\<lparr>mem := kernel_image (frm E) data (mem st), con_out := con_out st @ out\<rparr>,
    fp', Jump (eh_entry (elf32_header_of BE data)) (c_memsz (plat E) (rom E) (regs0 E)) MEMORY_BASE)"
proof -
  define p fr b where "p = plat E" and "fr = frm E" and "b = file_base p fp"
  have lay: "layout_ok fr (FLASH_BASE p) (dir_span p es)" and lz: "cstr (mem st) (lzma_at fr) (bytes_of ''lzma'')"
    using ok by (simp_all add: prompt_ok_def p_def fr_def)
  note ap = layout_apart [OF lay] and nz = layout_nonzero [OF lay]
  have len: "52 \<le> length data" using ld by (simp add: elf32_loadable_def Let_def)
  then have ne: "data \<noteq> []" by auto
  note flash = file_in_flash [OF lay found, folded fp(3) [folded p_def] b_def]
  have img: "image_at (mem st) b data" and lenf: "file_len fp = of_nat (length data)"
    using fp(2) by (simp_all add: backed_def b_def p_def)
  have needle: "butlast (bytes_of ''lzma'') = bytes_of ''lzm''" by simp
  have nolz: "strstr (mem st) (kernel_at fr) (lzma_at fr) = Some 0"
    using strstr_sound [OF name(1) [folded fr_def] lz] plain unfolding needle mentions_def by fastforce
  obtain o1 where boot: "printf p (printf_at fr) st ''Booting %s.\<newline>'' [kernel_at fr] =
      Some (st\<lparr>con_out := con_out st @ o1\<rparr>)"
    using printf_booting [OF lay name(1) [folded fr_def] name(2)] by blast
  let ?m1 = "mem_write (mem st) (main_hdr_at fr) (take 52 data)"
  have "file_pos fp = of_nat 0" "0 + 52 \<le> length data" using fp(1) len by simp_all
  note rd = local_read [OF img [unfolded b_def] this flash(1,2) [unfolded b_def] nz(4)
      flash(3) [OF ap(14) ne, unfolded b_def], simplified]
  have read: "cilo_read p (mem (st\<lparr>con_out := con_out st @ o1\<rparr>)) (main_hdr_at fr) (of_nat elf32_header_size) 1 fp =
      (?m1, fp\<lparr>file_pos := 52\<rparr>, 52)"
    using rd(1) by (simp add: elf32_header_size_def)
  have hdr: "elf32_header_at ?m1 (main_hdr_at fr) = elf32_header_of BE data"
    using rd(3) elf32_header_of_take [OF len, of BE] by (simp add: elf32_header_at_def elf32_header_size_def)
  have seek: "cilo_seek (fp\<lparr>file_pos := 52\<rparr>) 0 SEEK_SET = fp\<lparr>file_pos := 0\<rparr>"
    by (simp add: cilo_seek_def)
  let ?st = "st\<lparr>con_out := con_out st @ o1, mem := ?m1\<rparr>" and ?fp = "fp\<lparr>file_pos := 0\<rparr>"
  have "placed fr b (length data)"
    using layout_placed [OF lay found ne] fp(3) by (simp add: b_def p_def)
  then have "load_elf32_file E ?st ?fp MEMORY_BASE =
     Some (?st\<lparr>mem := elf32_image fr data (mem_write (mem ?st) (hdr_at fr) (take 52 data)),
              con_out := con_out ?st @ loaded_text p (total_memsz data)\<rparr>,
           ?fp\<lparr>file_pos := eh_phoff (elf32_header_of BE data) + 32 * ucast (eh_phnum (elf32_header_of BE data))\<rparr>,
           Jump (eh_entry (elf32_header_of BE data)) (c_memsz p (rom E) (regs0 E)) MEMORY_BASE)"
    using rd(2) lenf ld by (intro load_elf32_file_boots) (simp_all add: b_def fr_def p_def)
  then show ?thesis
    unfolding load_kernel_def Let_def p_def [symmetric] fr_def [symmetric] nolz boot bind.simps option.case
      read prod.case hdr seek elf32_loadable_ident(2) [OF ld]
    by (intro exI [of _ "o1 @ loaded_text p (total_memsz data)"]) (simp add: kernel_image_def)
qed

text \<open>The command line survives the loading when no segment is placed over it.\<close>

lemma kernel_image_keeps:
  assumes lay: "layout_ok fr (FLASH_BASE p) n" and ld: "elf32_loadable fr b data"
    and cmd: "cstr m MEMORY_BASE cmd" "length cmd < 256"
    and clear: "\<forall>ph \<in> set (elf32_segments data). apart (ph_paddr ph) (unat (ph_memsz ph)) MEMORY_BASE 256"
  shows "cstr (kernel_image fr data m) MEMORY_BASE cmd"
proof (rule kept_cstr [OF cmd(1) _ cmd(2)])
  note ap = layout_apart [OF lay]
  have "52 \<le> length data" using ld by (simp add: elf32_loadable_def Let_def)
  then have len: "length (take 52 data) \<le> 52" by simp
  fix x assume x: "in_range MEMORY_BASE 256 x"
  then have out: "\<not> in_range (main_hdr_at fr) 52 x" "\<not> in_range (hdr_at fr) 52 x" "\<not> in_range (phdr_at fr) 32 x"
    using ap(18-20) apart_not_in_range by blast+
  have "\<not> in_segment ph x" if "ph \<in> set (elf32_segments data)" for ph
    using clear that x apart_not_in_range unfolding in_segment_def by blast
  then have "kernel_image fr data m x = mem_write (mem_write m (main_hdr_at fr) (take 52 data)) (hdr_at fr) (take 52 data) x"
    unfolding kernel_image_def by (rule elf32_image_elsewhere [OF ld out(3)])
  then show "kernel_image fr data m x = m x"
    using mem_write_beyond [OF out(1) len] mem_write_beyond [OF out(2) len] by simp
qed simp

text \<open>The name of a file in flash fits the array it is parsed into, with the line's \<open>typed_name\<close>.\<close>

lemma boot_prompt_elf:
  assumes "printf (plat E) (printf_at (frm E)) st ''\<newline>Enter filename to boot:\<newline>> '' [] = Some st1"
    and "c_gets (plat E) st1 (buf_at (frm E)) 128 = Some (k, st2)"
    and "parse_line (frm E) (mem st2) (c_baud (plat E) (rom E) (regs0 E)) = Some m"
    and ok: "prompt_ok E es (mem st)" and res: "line_result E st line (st2\<lparr>mem := m\<rparr>) name cmd"
    and found: "map_of es name = Some data" and plain: "\<not> mentions name ''lzm''"
    and ld: "elf32_loadable (frm E) (entry_addr (plat E) (FLASH_BASE (plat E)) es name + fs_ent_size (plat E)) data"
  shows "\<exists>out. boot_prompt E fp0 st = Some (st2\<lparr>mem := kernel_image (frm E) data m, con_out := con_out st2 @ out\<rparr>,
    Jump (eh_entry (elf32_header_of BE data)) (c_memsz (plat E) (rom E) (regs0 E)) MEMORY_BASE)"
proof -
  have name: "cstr m (kernel_at (frm E)) name" "length name \<le> 48" and frame: "prompt_frame (frm E) (mem st) m"
    using res by (simp_all add: line_result_def)
  have ok': "prompt_ok E es m" by (rule prompt_ok_frame [OF ok frame])
  obtain fp where fp: "cilo_open (plat E) m fp0 (kernel_at (frm E)) = Some fp" "f_code fp = 1" "file_pos fp = 0"
      "backed (plat E) m fp data"
      "file_base (plat E) fp = entry_addr (plat E) (FLASH_BASE (plat E)) es name + fs_ent_size (plat E)"
    using kernel_file [OF ok' name, of fp0] found by auto
  obtain out fp' where "load_kernel E (st2\<lparr>mem := m\<rparr>) fp =
      Some (st2\<lparr>mem := kernel_image (frm E) data m, con_out := con_out st2 @ out\<rparr>, fp',
        Jump (eh_entry (elf32_header_of BE data)) (c_memsz (plat E) (rom E) (regs0 E)) MEMORY_BASE)"
    using load_kernel_elf [of E es "st2\<lparr>mem := m\<rparr>" name data fp] ok' name plain found fp ld by auto
  then show ?thesis unfolding boot_prompt_parsed [OF assms(1,2,3) fp(1)]
    using fp(2) by (intro exI [of _ out]) simp
qed

text \<open>From the typed name to the entry of the kernel.\<close>

lemma boot_prompt_runs:
  assumes "prompt_ok E es (mem st)" and "ends_line e" "list_all (\<lambda>c. \<not> ends_line c) cs"
    and "typed_line (plat E) [] cs = Some line" and "length cs < 128" "length line \<le> 47"
    and "con_in st = cs @ e # rest" and "0 \<notin> set line" "32 \<notin> set line"
    and "map_of es line = Some data" and "\<not> mentions line ''lzm''"
    and "elf32_loadable (frm E) (entry_addr (plat E) (FLASH_BASE (plat E)) es line + fs_ent_size (plat E)) data"
    and "sorted_wrt segments_apart (elf32_segments data)"
    and "\<forall>ph \<in> set (elf32_segments data). apart (ph_paddr ph) (unat (ph_memsz ph)) MEMORY_BASE 256"
  shows "\<exists>st'. boot_prompt E fp0 st = Some (st', Jump (eh_entry (elf32_header_of BE data))
      (c_memsz (plat E) (rom E) (regs0 E)) MEMORY_BASE) \<and>
    (\<forall>ph \<in> set (elf32_segments data). mem_read (mem st') (ph_paddr ph) (unat (ph_memsz ph)) = segment_image data ph) \<and>
    cstr (mem st') MEMORY_BASE (console_setting (c_baud (plat E) (rom E) (regs0 E)))"
proof -
  have lay: "layout_ok (frm E) (FLASH_BASE (plat E)) (dir_span (plat E) es)"
    using assms(1) by (simp add: prompt_ok_def)
  obtain st1 k st2 m where l: "printf (plat E) (printf_at (frm E)) st ''\<newline>Enter filename to boot:\<newline>> '' [] = Some st1"
    "c_gets (plat E) st1 (buf_at (frm E)) 128 = Some (k, st2)"
    "parse_line (frm E) (mem st2) (c_baud (plat E) (rom E) (regs0 E)) = Some m"
    and res: "line_result E st line (st2\<lparr>mem := m\<rparr>) line (console_setting (c_baud (plat E) (rom E) (regs0 E)))"
    using typed_name [OF assms(1-9)] by blast
  obtain out where boot: "boot_prompt E fp0 st = Some (st2\<lparr>mem := kernel_image (frm E) data m, con_out := con_out st2 @ out\<rparr>,
    Jump (eh_entry (elf32_header_of BE data)) (c_memsz (plat E) (rom E) (regs0 E)) MEMORY_BASE)"
    using boot_prompt_elf [OF l assms(1) res assms(10-12)] by blast
  have "cstr (kernel_image (frm E) data m) MEMORY_BASE (console_setting (c_baud (plat E) (rom E) (regs0 E)))"
    using res by (intro kernel_image_keeps [OF lay assms(12)] assms(14)) (simp_all add: line_result_def)
  moreover have "mem_read (kernel_image (frm E) data m) (ph_paddr ph) (unat (ph_memsz ph)) = segment_image data ph"
    if "ph \<in> set (elf32_segments data)" for ph
    unfolding kernel_image_def by (rule elf32_image_segment [OF assms(12,13) that])
  ultimately show ?thesis using boot by auto
qed

section \<open>A small kernel in flash\<close>

text \<open>A concrete machine for the examples: a C3600 whose flash holds one file named \<open>k\<close>, an ELF
  kernel with one segment of four bytes and four zeros.\<close>

definition sample_flash :: "u8 list" where
  "sample_flash = [0xba, 0xd0, 0x0b, 0x1e, 0, 0, 0, 88, 0, 0, 0, 0, 0, 0, 0, 0, 107] @ replicate 47 0
     @ sample_kernel @ [0, 0, 0, 0]"

definition sample_frame :: frame where
  "sample_frame = \<lparr>hdr_at = 0x80010300, phdr_at = 0x80010400, printf_at = 0x80020000,
     lzma_props_at = 0x80010600, lzma_size_at = 0x80010610, lzma_buffer_at = 0x80010700,
     buf_at = 0x80010000, kernel_at = 0x80010100, main_hdr_at = 0x80010200,
     console_at = 0x80010500, lzma_at = 0x80010510\<rparr>"

definition sample_env :: env where
  "sample_env = \<lparr>plat = C3600, rom = (\<lambda>r. r\<lparr>v0 := 9600\<rparr>), regs0 = \<lparr>a0 = 0, v0 = 0, r3 = 0\<rparr>, frm = sample_frame\<rparr>"

definition sample_mem :: mem where
  "sample_mem = mem_write (mem_write (mem_write (\<lambda>_. 0) 0x30000000 sample_flash)
     0x80010500 [99, 111, 110, 115, 111, 108, 101, 0]) 0x80010510 [108, 122, 109, 97, 0]"


lemma sample_layout: "layout_ok sample_frame 0x30000000 156"
  by (simp add: layout_ok_def regions_def sample_frame_def region_apart_def apart_def MEMORY_BASE_def)

lemma sample_header: "eh_phnum (elf32_header_of BE sample_kernel) = 1" "eh_phoff (elf32_header_of BE sample_kernel) = 52"
  "eh_ehsize (elf32_header_of BE sample_kernel) = 52" "eh_entry (elf32_header_of BE sample_kernel) = 0x80030000"
  by code_simp+

lemma sample_ph: "elf32_phdr_in sample_kernel (elf32_header_of BE sample_kernel) 0 =
  \<lparr>ph_type = 1, ph_offset = 84, ph_vaddr = 0x80030000, ph_paddr = 0x80030000, ph_filesz = 4, ph_memsz = 8, ph_flags = 5, ph_align = 4\<rparr>"
  by code_simp

lemma sample_segments: "elf32_segments sample_kernel = [\<lparr>ph_type = 1, ph_offset = 84, ph_vaddr = 0x80030000, ph_paddr = 0x80030000, ph_filesz = 4, ph_memsz = 8, ph_flags = 5, ph_align = 4\<rparr>]"
  by (simp add: elf32_segments_def Let_def sample_header sample_ph ELF_PT_LOAD_def)

lemma sample_loadable: "elf32_loadable sample_frame 0x30000040 sample_kernel"
  unfolding elf32_loadable_def Let_def
  by (simp add: sample_header sample_ph segment_ok_def sample_frame_def apart_def)
   (simp add: sample_kernel_def ELF_MAGIC_def ELF_CLASS_32_def ELF_DATA_MSB_def)


lemma sample_flash_read:
  assumes "k + n \<le> 156"
  shows "mem_read sample_mem (0x30000000 + of_nat k) n = take n (drop k sample_flash)"
proof -
  have len: "length sample_flash = 156" by (simp add: sample_flash_def sample_kernel_def)
  have "mem_read sample_mem 0x30000000 156 = mem_read (mem_write (\<lambda>_. 0) 0x30000000 sample_flash) 0x30000000 156"
    unfolding sample_mem_def
    using mem_read_write_apart [of "0x30000000" 156 "0x80010510" "[108, 122, 109, 97, 0]"]
      mem_read_write_apart [of "0x30000000" 156 "0x80010500" "[99, 111, 110, 115, 111, 108, 101, 0]"]
    by (simp add: apart_def del: mem_write.simps)
  also have "\<dots> = sample_flash" using mem_read_write_same [of sample_flash "\<lambda>_. 0" "0x30000000"] len by simp
  finally show ?thesis using sub_mem_read [OF assms, of sample_mem "0x30000000"] by simp
qed

lemma sample_prompt: "prompt_ok sample_env [([107], sample_kernel)] sample_mem"
proof -
  have len: "length sample_kernel = 88" by (simp add: sample_kernel_def)
  have dir: "dir_span C3600 [([107], sample_kernel)] = 156" by (simp add: len)
  have "flash_dir C3600 sample_mem 0x30000000 [([107], sample_kernel)]"
    using sample_flash_read [of 0 4] sample_flash_read [of 4 4] sample_flash_read [of 16 48]
      sample_flash_read [of 64 88] sample_flash_read [of 152 4]
    by (simp add: fs_ent_magic_def fs_ent_length_def field_str_def sample_flash_def len be32_def)
  moreover have "cstr sample_mem 0x80010510 (bytes_of ''lzma'')"
    unfolding sample_mem_def by simp
  moreover have "cstr sample_mem 0x80010500 (bytes_of ''console'')"
    unfolding sample_mem_def by simp
  moreover have "plat sample_env = C3600" "frm sample_env = sample_frame"
    "console_at sample_frame = 0x80010500" "lzma_at sample_frame = 0x80010510"
    by (simp_all add: sample_env_def sample_frame_def)
  ultimately show ?thesis using sample_layout by (simp add: prompt_ok_def dir del: dir_span.simps flash_dir.simps)
qed


section \<open>Properties\<close>

text \<open>Typing the name of a 32-bit kernel at the prompt enters it: every segment is where its
  program header wants it, with zeros after the file's bytes, and the kernel gets the
  command line \<^verbatim>\<open>console=ttyS0,<baud>\<close> at \<open>MEMORY_BASE\<close> and the size of the memory.\<close>

theorem boot_prompt_boots:
  assumes "prompt_ok E es (mem st)" and "ends_line e" "list_all (\<lambda>c. \<not> ends_line c) cs"
    and "typed_line (plat E) [] cs = Some line" and "length cs < 128" "length line \<le> 47"
    and "con_in st = cs @ e # rest" and "0 \<notin> set line" "32 \<notin> set line"
    and "map_of es line = Some data" and "\<not> mentions line ''lzm''"
    and "elf32_loadable (frm E) (entry_addr (plat E) (FLASH_BASE (plat E)) es line + fs_ent_size (plat E)) data"
    and "sorted_wrt segments_apart (elf32_segments data)"
    and "\<forall>ph \<in> set (elf32_segments data). apart (ph_paddr ph) (unat (ph_memsz ph)) MEMORY_BASE 256"
  shows "\<exists>st'. boot_prompt E fp0 st = Some (st', Jump (eh_entry (elf32_header_of BE data))
      (c_memsz (plat E) (rom E) (regs0 E)) MEMORY_BASE) \<and>
    (\<forall>ph \<in> set (elf32_segments data). mem_read (mem st') (ph_paddr ph) (unat (ph_memsz ph)) = segment_image data ph) \<and>
    cstr (mem st') MEMORY_BASE (console_setting (c_baud (plat E) (rom E) (regs0 E)))"
  by (rule boot_prompt_runs [OF assms])

lemma boot_prompt_boots_witness:
  "\<forall>fp0. \<exists>st'. boot_prompt sample_env fp0 \<lparr>mem = sample_mem, con_in = [107, 13], con_out = []\<rparr> =
     Some (st', Jump 0x80030000 9600 MEMORY_BASE) \<and>
     mem_read (mem st') 0x80030000 8 = [0x3c, 8, 0x80, 3, 0, 0, 0, 0]"
proof
  fix fp0 :: cfile
  have "segment_image sample_kernel (hd (elf32_segments sample_kernel)) = [0x3c, 8, 0x80, 3, 0, 0, 0, 0]"
    unfolding sample_segments list.sel by code_simp
  moreover have "\<exists>st'. boot_prompt sample_env fp0 \<lparr>mem = sample_mem, con_in = [107, 13], con_out = []\<rparr> =
      Some (st', Jump (eh_entry (elf32_header_of BE sample_kernel))
        (c_memsz (plat sample_env) (rom sample_env) (regs0 sample_env)) MEMORY_BASE) \<and>
    (\<forall>ph \<in> set (elf32_segments sample_kernel).
       mem_read (mem st') (ph_paddr ph) (unat (ph_memsz ph)) = segment_image sample_kernel ph) \<and>
    cstr (mem st') MEMORY_BASE (console_setting (c_baud (plat sample_env) (rom sample_env) (regs0 sample_env)))"
  proof (rule boot_prompt_boots)
    show "prompt_ok sample_env [([107], sample_kernel)] (mem \<lparr>mem = sample_mem, con_in = [107, 13], con_out = []\<rparr>)"
      using sample_prompt by simp
    show "con_in \<lparr>mem = sample_mem, con_in = [107, 13], con_out = []\<rparr> = [107] @ 13 # []" by simp
    show "elf32_loadable (frm sample_env) (entry_addr (plat sample_env) (FLASH_BASE (plat sample_env))
        [([107], sample_kernel)] [107] + fs_ent_size (plat sample_env)) sample_kernel"
      using sample_loadable by (simp add: sample_env_def)
    show "\<not> mentions [107] ''lzm''"
      by (auto simp: mentions_def Cons_eq_append_conv)
  qed (simp_all add: ends_line_def typed_def erases_def sample_segments apart_def MEMORY_BASE_def)
  moreover have "c_memsz (plat sample_env) (rom sample_env) (regs0 sample_env) = 9600"
    by (simp add: sample_env_def mips_memsz_def)
  ultimately show "\<exists>st'. boot_prompt sample_env fp0 \<lparr>mem = sample_mem, con_in = [107, 13], con_out = []\<rparr> =
     Some (st', Jump 0x80030000 9600 MEMORY_BASE) \<and>
     mem_read (mem st') 0x80030000 8 = [0x3c, 8, 0x80, 3, 0, 0, 0, 0]"
    by (auto simp: sample_segments sample_header)
qed

end
