(* ===== verification/Reaching.thy ===== *)
theory Reaching
  imports Booting
begin

text \<open>
  The boot loader as a whole: the runs of the step relation \<open>boot_step\<close> from power-on, with the
  invariant they keep, the start with and without a flash file system, and the way through any
  number of mistyped names to a running kernel.
\<close>

section \<open>What the program can reach\<close>

text \<open>A loader that enters the kernel passes it the size of the memory and the command line.\<close>

lemma load_elf32_file_jump:
  "load_elf32_file E st fp cmd = Some (st', fp', Jump e s a) \<Longrightarrow> s = c_memsz (plat E) (rom E) (regs0 E) \<and> a = cmd"
  by (auto simp: load_elf32_file_def Let_def bind_eq_Some_conv split: if_splits prod.splits)

lemma load_elf64_file_jump: "load_elf64_file E st fp cmd \<noteq> Some (st', fp', Jump e s a)"
  using load_elf64_file_returns [of E st fp cmd] by auto

lemma load_lzma_jump:
  "load_lzma E st fp out cmd = Some (st', fp', Jump e s a) \<Longrightarrow>
     e = out \<and> s = c_memsz (plat E) (rom E) (regs0 E) \<and> a = cmd"
  by (auto simp: load_lzma_def Let_def bind_eq_Some_conv split: if_splits prod.splits stop.splits)

lemma load_kernel_jump:
  assumes "load_kernel E st fp = Some (st', fp', Jump e s a)"
  shows "s = c_memsz (plat E) (rom E) (regs0 E) \<and> a = MEMORY_BASE"
proof -
  obtain found where found: "strstr (mem st) (kernel_at (frm E)) (lzma_at (frm E)) = Some found"
    using assms by (auto simp: load_kernel_def Let_def split: option.splits)
  show ?thesis
  proof (cases "found = 0")
    case False
    then show ?thesis using assms found
      by (auto simp: load_kernel_def Let_def bind_eq_Some_conv dest: load_lzma_jump)
  next
    case True
    then obtain st1 where pr: "printf (plat E) (printf_at (frm E)) st ''Booting %s.\<newline>'' [kernel_at (frm E)] = Some st1"
      using assms found by (auto simp: load_kernel_def Let_def bind_eq_Some_conv)
    obtain m f1 r where rd: "cilo_read (plat E) (mem st1) (main_hdr_at (frm E)) (of_nat elf32_header_size) 1 fp = (m, f1, r)"
      by (metis prod_cases3)
    show ?thesis
      using assms True found pr rd load_elf64_file_jump load_elf32_file_jump
      by (auto simp: load_kernel_def Let_def split: if_splits)
  qed
qed

lemma boot_prompt_jump:
  assumes "boot_prompt E fp0 st = Some (st', Jump e s a)"
  shows "s = c_memsz (plat E) (rom E) (regs0 E) \<and> a = MEMORY_BASE"
proof -
  obtain st1 k st2 m fp where l: "printf (plat E) (printf_at (frm E)) st ''\<newline>Enter filename to boot:\<newline>> '' [] = Some st1"
    "c_gets (plat E) st1 (buf_at (frm E)) 128 = Some (k, st2)"
    "parse_line (frm E) (mem st2) (c_baud (plat E) (rom E) (regs0 E)) = Some m"
    "cilo_open (plat E) m fp0 (kernel_at (frm E)) = Some fp"
    using assms by (auto simp: boot_prompt_def Let_def bind_eq_Some_conv split: prod.splits)
  have code: "f_code fp \<noteq> -1"
    using assms unfolding boot_prompt_parsed [OF l] by (auto simp: bind_eq_Some_conv)
  then obtain st4 f4 r where ld: "load_kernel E (st2\<lparr>mem := m\<rparr>) fp = Some (st4, f4, r)"
    using assms unfolding boot_prompt_parsed [OF l] by (auto simp: bind_eq_Some_conv)
  show ?thesis
  proof (cases r)
    case Returned
    then show ?thesis using assms code ld unfolding boot_prompt_parsed [OF l]
      by (auto simp: bind_eq_Some_conv)
  next
    case (Jump e' s' a')
    then show ?thesis using assms code ld load_kernel_jump [OF ld [unfolded Jump]] unfolding boot_prompt_parsed [OF l]
      by auto
  qed
qed

definition boot_inv :: "env \<Rightarrow> boot_state \<Rightarrow> bool" where
  "boot_inv E s \<longleftrightarrow> (case s of Kernel _ _ sz args \<Rightarrow> sz = c_memsz (plat E) (rom E) (regs0 E) \<and> args = MEMORY_BASE
     | _ \<Rightarrow> True)"

lemma boot_step_inv: "boot_step E s s' \<Longrightarrow> boot_inv E s'"
  by (erule boot_step.cases) (auto simp: boot_inv_def dest: boot_prompt_jump)

inductive_cases boot_resetE: "boot_step E (Reset st) s"
inductive_cases boot_promptE: "boot_step E (Prompt st) s"

inductive_simps boot_stopped [simp]: "boot_step E (Stopped st) s"
inductive_simps boot_kernel [simp]: "boot_step E (Kernel st a sz args) s"

lemma boot_reaches_inv: "(boot_step E)\<^sup>*\<^sup>* (Reset st) s \<Longrightarrow> boot_inv E s"
  by (induction rule: rtranclp_induct) (auto simp: boot_inv_def dest: boot_step_inv [unfolded boot_inv_def])

section \<open>The start\<close>

lemma layout_printf:
  assumes "layout_ok fr b n"
  shows "apart (printf_at fr) 1024 b n"
proof -
  have "region_apart (b, n) (printf_at fr, 1024)"
    using assms unfolding layout_ok_def sorted_wrt.simps regions_def by simp
  then show ?thesis by (simp add: region_apart_def apart_sym)
qed

text \<open>The two stores at the start are inside the local arrays.\<close>

definition first_stores :: "frame \<Rightarrow> mem \<Rightarrow> mem" where
  "first_stores fr m = m(buf_at fr + 128 := 0, kernel_at fr + 48 := 0)"

lemma first_stores_frame: "prompt_frame fr m (first_stores fr m)"
proof -
  have "in_range (buf_at fr) 129 (buf_at fr + of_nat 128)" "in_range (kernel_at fr) 49 (kernel_at fr + of_nat 48)"
    by (rule in_range_offset; simp)+
  then show ?thesis by (auto simp: prompt_frame_def first_stores_def)
qed

lemma start_bootloader_eq:
  "start_bootloader E st =
     (if check_flash (plat E) (first_stores (frm E) (mem st)) = 0 then do {
        st4 \<leftarrow> printf (plat E) (printf_at (frm E)) (st\<lparr>mem := first_stores (frm E) (mem st), con_out := con_out st @ [73, 76]\<rparr>)
          ''\<newline>Error: Unable to find any valid flash! Aborting load.\<newline>'' [];
        Some (st4, False)
      }
      else do {
        st5 \<leftarrow> printf (plat E) (printf_at (frm E)) (st\<lparr>mem := first_stores (frm E) (mem st), con_out := con_out st @ [73, 76, 79]\<rparr>)
          ''\<newline>CiscoLoader (CILO) - Linux bootloader for Cisco Routers\<newline>'' [];
        st6 \<leftarrow> printf (plat E) (printf_at (frm E)) st5 ''Available RAM: %d kB\<newline>''
          [of_int (sgn (sint (c_memsz (plat E) (rom E) (regs0 E))) * (\<bar>sint (c_memsz (plat E) (rom E) (regs0 E))\<bar> div 1024))];
        st7 \<leftarrow> printf (plat E) (printf_at (frm E)) st6 ''Available files:\<newline>'' [];
        st8 \<leftarrow> flash_directory (plat E) (printf_at (frm E)) st7;
        Some (st8, True)
      })"
  by (simp add: start_bootloader_def Let_def first_stores_def store_at_def c_putc_def platform_init_def)

text \<open>Without a flash file system the program ends; nothing but the message is done.\<close>

lemma start_without_flash:
  assumes "check_flash (plat E) (first_stores (frm E) (mem st)) = 0"
  shows "\<exists>out. start_bootloader E st = Some (st\<lparr>mem := first_stores (frm E) (mem st), con_out := con_out st @ out\<rparr>, False)"
proof -
  have "plain_text ''\<newline>Error: Unable to find any valid flash! Aborting load.\<newline>''" by (simp add: plain_text_def)
  from printf_plain [OF this, of "plat E" "printf_at (frm E)"
      "st\<lparr>mem := first_stores (frm E) (mem st), con_out := con_out st @ [73, 76]\<rparr>"]
  show ?thesis using assms by (auto simp: start_bootloader_eq)
qed

text \<open>With files in flash it lists them and comes to the prompt.\<close>

lemma start_with_flash:
  assumes ok: "prompt_ok E es (mem st)" and es: "es \<noteq> []"
    and names: "\<forall>(name, data) \<in> set es. length name < unat (filename_width (plat E))"
  shows "\<exists>out. start_bootloader E st = Some (st\<lparr>mem := first_stores (frm E) (mem st),
      con_out := con_out st @ out @ listing (plat E) es\<rparr>, True)"
    and "prompt_ok E es (first_stores (frm E) (mem st))"
proof -
  let ?m = "first_stores (frm E) (mem st)"
  let ?p = "plat E" and ?sp = "printf_at (frm E)" and ?st = "st\<lparr>mem := ?m, con_out := con_out st @ [73, 76, 79]\<rparr>"
  show ok': "prompt_ok E es ?m" by (rule prompt_ok_frame [OF ok first_stores_frame])
  then have lay: "layout_ok (frm E) (FLASH_BASE ?p) (dir_span ?p es)" and dir: "flash_dir ?p ?m (FLASH_BASE ?p) es"
    by (simp_all add: prompt_ok_def)
  have flash: "check_flash ?p ?m \<noteq> 0"
    using dir es by (cases es) (auto simp: check_flash_def)
  obtain o1 where o1: "printf ?p ?sp ?st ''\<newline>CiscoLoader (CILO) - Linux bootloader for Cisco Routers\<newline>'' [] =
      Some (?st\<lparr>con_out := con_out ?st @ o1\<rparr>)"
    using printf_plain [of "''\<newline>CiscoLoader (CILO) - Linux bootloader for Cisco Routers\<newline>''" ?p ?sp ?st]
    by (auto simp: plain_text_def)
  define kb where "kb = (of_int (sgn (sint (c_memsz (plat E) (rom E) (regs0 E))) *
      (\<bar>sint (c_memsz (plat E) (rom E) (regs0 E))\<bar> div 1024)) :: u32)"
  define st5 where "st5 = ?st\<lparr>con_out := con_out ?st @ o1\<rparr>"
  define o2 where "o2 = console_text ?p (bytes_of ''Available RAM: '' @ decimal kb @ bytes_of '' kB\<newline>'')"
  have "printf ?p ?sp st5 (''Available RAM: '' @ CHR ''%'' # CHR ''d'' # '' kB\<newline>'') [kb] =
      Some (st5\<lparr>con_out := con_out st5 @ o2\<rparr>)"
    unfolding o2_def by (rule printf_text_d) (simp_all add: plain_text_def)
  then have o2: "printf ?p ?sp st5 ''Available RAM: %d kB\<newline>'' [kb] = Some (st5\<lparr>con_out := con_out st5 @ o2\<rparr>)" by simp
  define st6 where "st6 = st5\<lparr>con_out := con_out st5 @ o2\<rparr>"
  obtain o3 where o3: "printf ?p ?sp st6 ''Available files:\<newline>'' [] = Some (st6\<lparr>con_out := con_out st6 @ o3\<rparr>)"
    using printf_plain [of "''Available files:\<newline>''" ?p ?sp st6] by (auto simp: plain_text_def)
  define st7 where "st7 = st6\<lparr>con_out := con_out st6 @ o3\<rparr>"
  have "listable ?p ?sp (FLASH_BASE ?p) es"
    using layout_printf [OF lay] layout_nonzero(1,7) [OF lay] names by (simp add: listable_def)
  moreover have "mem st7 = ?m" by (simp add: st7_def st6_def st5_def)
  ultimately have fd: "flash_directory ?p ?sp st7 = Some (st7\<lparr>con_out := con_out st7 @ listing ?p es\<rparr>)"
    using flash_directory_loop_lists [of ?p st7 0 es ?sp] dir by (simp add: flash_directory_def)
  have "start_bootloader E st = Some (st7\<lparr>con_out := con_out st7 @ listing ?p es\<rparr>, True)"
    unfolding start_bootloader_eq if_not_P [OF flash] kb_def [symmetric] o1 bind.simps st5_def [symmetric]
      o2 st6_def [symmetric] o3 st7_def [symmetric] fd ..
  then show "\<exists>out. start_bootloader E st = Some (st\<lparr>mem := ?m, con_out := con_out st @ out @ listing ?p es\<rparr>, True)"
    by (intro exI [of _ "[73, 76, 79] @ o1 @ o2 @ o3"]) (simp add: st7_def st6_def st5_def)
qed

section \<open>Mistyped names\<close>

text \<open>The keys \<open>cs\<close> and the end of line \<open>e\<close> enter the name \<open>line\<close>, which fits the kernel name.\<close>

definition enters :: "platform \<Rightarrow> u8 list \<Rightarrow> u8 \<Rightarrow> u8 list \<Rightarrow> bool" where
  "enters p cs e line \<longleftrightarrow>
     ends_line e \<and> list_all (\<lambda>c. \<not> ends_line c) cs \<and> typed_line p [] cs = Some line \<and> length cs < 128 \<and>
     length line \<le> 47 \<and> 0 \<notin> set line \<and> 32 \<notin> set line"

lemma prompt_again:
  assumes ok: "prompt_ok E es (mem st)" and typed: "enters (plat E) cs e line" and inp: "con_in st = cs @ e # rest"
    and none: "map_of es line = None"
  shows "\<exists>st' out. boot_step E (Prompt st) (Prompt st') \<and> prompt_ok E es (mem st') \<and> con_in st' = rest \<and>
    con_out st' = out @ console_text (plat E)
      (bytes_of ''Unable to find \"'' @ line @ bytes_of ''\" on the specified filesystem.\<newline>'')"
proof -
  obtain st1 k st2 m where l: "printf (plat E) (printf_at (frm E)) st ''\<newline>Enter filename to boot:\<newline>> '' [] = Some st1"
    "c_gets (plat E) st1 (buf_at (frm E)) 128 = Some (k, st2)"
    "parse_line (frm E) (mem st2) (c_baud (plat E) (rom E) (regs0 E)) = Some m"
    and res: "line_result E st line (st2\<lparr>mem := m\<rparr>) line (console_setting (c_baud (plat E) (rom E) (regs0 E)))"
    and rest: "con_in st2 = rest"
    using typed_name [OF ok, of e cs line rest] typed inp by (auto simp: enters_def)
  note u = boot_prompt_unknown [OF l ok res none]
  show ?thesis
    using again [OF u(1)] u(2) rest by (intro exI conjI) (assumption | simp)+
qed

lemma prompt_mistakes:
  assumes "list_all (\<lambda>(cs, e, line). enters (plat E) cs e line \<and> map_of es line = None) tries"
    and "prompt_ok E es (mem st)" and "con_in st = concat (map (\<lambda>(cs, e, line). cs @ [e]) tries) @ rest"
  shows "\<exists>st'. (boot_step E)\<^sup>*\<^sup>* (Prompt st) (Prompt st') \<and> prompt_ok E es (mem st') \<and> con_in st' = rest"
  using assms
proof (induction tries arbitrary: st)
  case (Cons a tries)
  obtain cs e line where t: "a = (cs, e, line)" by (cases a)
  have "con_in st = cs @ e # (concat (map (\<lambda>(cs, e, line). cs @ [e]) tries) @ rest)"
    using Cons.prems(3) by (simp add: t)
  then obtain st1 where st1: "boot_step E (Prompt st) (Prompt st1)" "prompt_ok E es (mem st1)"
      "con_in st1 = concat (map (\<lambda>(cs, e, line). cs @ [e]) tries) @ rest"
    using prompt_again [OF Cons.prems(2), of cs e line] Cons.prems(1) by (auto simp: t)
  from Cons.IH [OF _ st1(2,3)] Cons.prems(1) obtain st' where
    st': "(boot_step E)\<^sup>*\<^sup>* (Prompt st1) (Prompt st')" "prompt_ok E es (mem st')" "con_in st' = rest" by auto
  have "(boot_step E)\<^sup>*\<^sup>* (Prompt st) (Prompt st')" by (rule converse_rtranclp_into_rtranclp [OF st1(1) st'(1)])
  then show ?case using st'(2,3) by (intro exI conjI)
qed auto

section \<open>From power-on to the kernel\<close>

text \<open>A file in flash that the 32-bit loader takes, with its segments clear of each other and of the
  command line.\<close>

definition bootable :: "env \<Rightarrow> (u8 list \<times> u8 list) list \<Rightarrow> u8 list \<Rightarrow> u8 list \<Rightarrow> bool" where
  "bootable E es name data \<longleftrightarrow>
     map_of es name = Some data \<and> \<not> mentions name ''lzm'' \<and>
     elf32_loadable (frm E) (entry_addr (plat E) (FLASH_BASE (plat E)) es name + fs_ent_size (plat E)) data \<and>
     sorted_wrt segments_apart (elf32_segments data) \<and>
     (\<forall>ph \<in> set (elf32_segments data). apart (ph_paddr ph) (unat (ph_memsz ph)) MEMORY_BASE 256)"

definition kernel_runs :: "env \<Rightarrow> u8 list \<Rightarrow> boot_state \<Rightarrow> bool" where
  "kernel_runs E data s \<longleftrightarrow> (\<exists>st.
     s = Kernel st (eh_entry (elf32_header_of BE data)) (c_memsz (plat E) (rom E) (regs0 E)) MEMORY_BASE \<and>
     (\<forall>ph \<in> set (elf32_segments data). mem_read (mem st) (ph_paddr ph) (unat (ph_memsz ph)) = segment_image data ph) \<and>
     cstr (mem st) MEMORY_BASE (console_setting (c_baud (plat E) (rom E) (regs0 E))))"

lemma power_on_prompt:
  assumes "prompt_ok E es (mem st)" and "\<forall>(name, data) \<in> set es. length name < unat (filename_width (plat E))" and "es \<noteq> []"
  shows "\<exists>st'. boot_step E (Reset st) (Prompt st') \<and> prompt_ok E es (mem st') \<and> con_in st' = con_in st"
proof -
  from start_with_flash [OF assms(1,3,2)] obtain out where
    "start_bootloader E st = Some (st\<lparr>mem := first_stores (frm E) (mem st), con_out := con_out st @ out @ listing (plat E) es\<rparr>, True)"
    "prompt_ok E es (first_stores (frm E) (mem st))" by blast
  then show ?thesis using to_prompt [of E st] by fastforce
qed

lemma bootable_runs:
  assumes "prompt_ok E es (mem st)" and "enters (plat E) cs e line" and "bootable E es line data" and "con_in st = cs @ e # rest"
  shows "\<exists>s. boot_step E (Prompt st) s \<and> kernel_runs E data s"
proof -
  obtain st3 where st3: "boot_prompt E undefined st = Some (st3, Jump (eh_entry (elf32_header_of BE data))
      (c_memsz (plat E) (rom E) (regs0 E)) MEMORY_BASE)"
    "\<forall>ph \<in> set (elf32_segments data). mem_read (mem st3) (ph_paddr ph) (unat (ph_memsz ph)) = segment_image data ph"
    "cstr (mem st3) MEMORY_BASE (console_setting (c_baud (plat E) (rom E) (regs0 E)))"
    using boot_prompt_runs [OF assms(1), of e cs line rest data undefined] assms(2-4)
    unfolding enters_def bootable_def by blast
  then show ?thesis using boot [OF st3(1)] unfolding kernel_runs_def by blast
qed

lemma power_on_boots:
  assumes ok: "prompt_ok E es (mem st)" and names: "\<forall>(name, data) \<in> set es. length name < unat (filename_width (plat E))"
    and tries: "list_all (\<lambda>(cs, e, line). enters (plat E) cs e line \<and> map_of es line = None) tries"
    and good: "enters (plat E) cs e line" "bootable E es line data"
    and inp: "con_in st = concat (map (\<lambda>(cs, e, line). cs @ [e]) tries) @ cs @ e # rest"
  shows "\<exists>s. (boot_step E)\<^sup>*\<^sup>* (Reset st) s \<and> kernel_runs E data s"
proof -
  have "es \<noteq> []" using good(2) by (auto simp: bootable_def)
  from power_on_prompt [OF ok names this] obtain st1 where
    st1: "boot_step E (Reset st) (Prompt st1)" "prompt_ok E es (mem st1)" "con_in st1 = con_in st" by blast
  obtain st2 where st2: "(boot_step E)\<^sup>*\<^sup>* (Prompt st1) (Prompt st2)" "prompt_ok E es (mem st2)" "con_in st2 = cs @ e # rest"
    using prompt_mistakes [OF tries st1(2), of "cs @ e # rest"] st1(3) inp by auto
  obtain s where s: "boot_step E (Prompt st2) s" "kernel_runs E data s" using bootable_runs [OF st2(2) good st2(3)] by blast
  have "(boot_step E)\<^sup>*\<^sup>* (Reset st) s"
    by (rule converse_rtranclp_into_rtranclp [OF st1(1) rtranclp.rtrancl_into_rtrancl [OF st2(1) s(1)]])
  then show ?thesis using s(2) by blast
qed

section \<open>The machine of the examples\<close>

definition sample_start :: "u8 list \<Rightarrow> machine" where
  "sample_start keys = \<lparr>mem = sample_mem, con_in = keys, con_out = []\<rparr>"

lemma sample_enters: "enters (plat sample_env) [107] 13 [107]" "enters (plat sample_env) [120] 13 [120]"
  by (simp_all add: enters_def ends_line_def typed_def erases_def)

lemma sample_bootable: "bootable sample_env [([107], sample_kernel)] [107] sample_kernel"
proof -
  have "elf32_loadable (frm sample_env) (entry_addr (plat sample_env) (FLASH_BASE (plat sample_env))
      [([107], sample_kernel)] [107] + fs_ent_size (plat sample_env)) sample_kernel"
    using sample_loadable by (simp add: sample_env_def)
  moreover have "\<not> mentions [107] ''lzm''" by (auto simp: mentions_def Cons_eq_append_conv)
  ultimately show ?thesis by (simp add: bootable_def sample_segments apart_def MEMORY_BASE_def)
qed

lemma sample_power_on:
  "\<exists>s. (boot_step sample_env)\<^sup>*\<^sup>* (Reset (sample_start [120, 13, 107, 13])) s \<and> kernel_runs sample_env sample_kernel s"
  using power_on_boots [of sample_env "[([107], sample_kernel)]" "sample_start [120, 13, 107, 13]" "[([120], 13, [120])]"
      "[107]" 13 "[107]" sample_kernel "[]"] sample_prompt sample_enters sample_bootable
  by (simp add: sample_start_def sample_env_def)

lemma sample_empty_flash: "check_flash (plat sample_env) (first_stores (frm sample_env) (\<lambda>_. 0)) = 0"
proof -
  have "first_stores (frm sample_env) (\<lambda>_. 0) = (\<lambda>_. 0)" by (rule ext) (simp add: first_stores_def)
  then show ?thesis by (simp add: check_flash_def sample_env_def fs_ent_magic_def be32_def)
qed

section \<open>Properties\<close>

text \<open>From power-on, through the listing of the flash and any number of names that are not in
  it, to the kernel whose name is typed then: it is entered with its segments in place, the size
  of the memory and the console setting.\<close>

theorem power_on_to_kernel:
  assumes "prompt_ok E es (mem st)" and "\<forall>(name, data) \<in> set es. length name < unat (filename_width (plat E))"
    and "list_all (\<lambda>(cs, e, line). enters (plat E) cs e line \<and> map_of es line = None) tries"
    and "enters (plat E) cs e line" and "bootable E es line data"
    and "con_in st = concat (map (\<lambda>(cs, e, line). cs @ [e]) tries) @ cs @ e # rest"
  shows "\<exists>s. (boot_step E)\<^sup>*\<^sup>* (Reset st) s \<and> kernel_runs E data s"
  by (rule power_on_boots [OF assms])

lemma power_on_to_kernel_witness:
  "\<exists>s. (boot_step sample_env)\<^sup>*\<^sup>* (Reset (sample_start [120, 13, 107, 13])) s \<and> kernel_runs sample_env sample_kernel s"
  using power_on_to_kernel [of sample_env "[([107], sample_kernel)]" "sample_start [120, 13, 107, 13]" "[([120], 13, [120])]"
      "[107]" 13 "[107]" sample_kernel "[]"] sample_prompt sample_enters sample_bootable
  by (simp add: sample_start_def sample_env_def)



text \<open>C22: without a flash file system the program stops: it reaches no prompt and no kernel, and has
  stored nothing outside its own two arrays.\<close>

theorem no_flash_no_kernel:
  assumes "check_flash (plat E) (first_stores (frm E) (mem st)) = 0"
  shows "(\<exists>st'. boot_step E (Reset st) (Stopped st')) \<and>
    (\<forall>s. (boot_step E)\<^sup>*\<^sup>* (Reset st) s \<longrightarrow> s = Reset st \<or> (\<exists>st'. s = Stopped st' \<and> mem st' = first_stores (frm E) (mem st)))"
proof -
  obtain out where start: "start_bootloader E st =
      Some (st\<lparr>mem := first_stores (frm E) (mem st), con_out := con_out st @ out\<rparr>, False)"
    using start_without_flash [OF assms] by blast
  have "s = Reset st \<or> (\<exists>st'. s = Stopped st' \<and> mem st' = first_stores (frm E) (mem st))" if "(boot_step E)\<^sup>*\<^sup>* (Reset st) s" for s
    using that start by (induction rule: rtranclp_induct) (auto elim: boot_resetE)
  then show ?thesis using no_flash [OF start] by blast
qed

lemma no_flash_no_kernel_witness:
  "\<exists>st'. boot_step sample_env (Reset \<lparr>mem = (\<lambda>_. 0), con_in = [107, 13], con_out = []\<rparr>) (Stopped st')"
  using no_flash_no_kernel [of sample_env "\<lparr>mem = (\<lambda>_. 0), con_in = [107, 13], con_out = []\<rparr>"] sample_empty_flash by simp




definition stale_mem :: mem where
  "stale_mem = mem_write (mem_write (mem_write (\<lambda>_. 0) 0x80010000 [107, 32, 114, 0]) 0x80010500 [99, 111, 110, 115, 111, 108, 101, 0])
     0x80010100 [120, 121, 122]"


end
