(* ===== verification/LzmaSpec.thy ===== *)
theory LzmaSpec
  imports Booting
begin

text \<open>
  What the parts of the LZMA decoder compute: the range decoder as an exact division of an
  interval in the natural numbers, and the copy of a match as the copy of the Lempel-Ziv
  scheme on the list of the bytes written so far.
\<close>

section \<open>The range decoder\<close>

text \<open>
  The interval has \<open>range\<close> values and the input has selected the value \<open>code\<close>. Between two
  bits at least 2 to the 16 values are left: one byte more of input is always enough.
\<close>

definition in_interval :: "nat \<Rightarrow> 'p lzma \<Rightarrow> bool" where
  "in_interval n d \<longleftrightarrow> n \<le> unat (rc_range d) \<and> unat (rc_code d) < unat (rc_range d)"

lemma unat_push_bit_8: "unat (x :: u32) < 2 ^ 24 \<Longrightarrow> unat (push_bit 8 x) = 256 * unat x"
  by (simp add: push_bit_eq_mult unat_word_ariths)

lemma unat_shift_byte: "unat (push_bit 8 (x :: u32) OR ucast (c :: u8)) = (256 * unat x + unat c) mod 2 ^ 32"
proof -
  have "push_bit 8 x AND ucast c = 0"
    by (rule word_eq_by_bits [OF _ enum32]) (simp add: bit_simps bit_u8_beyond)
  then have "push_bit 8 x OR ucast c = push_bit 8 x + ucast c"
    using word_plus_and_or [of "push_bit 8 x" "ucast c"] by simp
  moreover have "unat c < 256" using unsigned_less [of c] by simp
  then have "unat (ucast c :: u32) = unat c" by (simp add: unsigned_ucast_eq take_bit_nat_eq_self)
  ultimately show ?thesis
    by (simp add: push_bit_eq_mult unat_word_ariths mod_add_left_eq mult.commute)
qed

lemma unat_or_byte:
  assumes "unat (x :: u32) < 2 ^ 24"
  shows "unat (push_bit 8 x OR ucast (c :: u8)) = 256 * unat x + unat c"
proof -
  have "unat c < 256" using unsigned_less [of c] by simp
  then show ?thesis using assms by (simp add: unat_shift_byte)
qed

lemma rc_test_regs: "rc_test cb d = Inr e \<Longrightarrow> rc_range e = rc_range d \<and> rc_code e = rc_code d \<and> probs e = probs d"
  by (auto simp: rc_test_def fail_def Let_def split: if_splits option.splits prod.splits)

lemma rc_normalize_regs:
  assumes "rc_normalize cb d = Inr e"
  shows "probs e = probs d \<and>
    (if unat (rc_range d) < 2 ^ 24 then \<exists>c :: u8. unat (rc_range e) = 256 * unat (rc_range d) \<and>
        rc_code e = push_bit 8 (rc_code d) OR ucast c
     else rc_range e = rc_range d \<and> rc_code e = rc_code d)"
proof (cases "unat (rc_range d) < 2 ^ 24")
  case True
  then have "rc_range d < kTopValue" by (simp add: kTopValue_def word_less_nat_alt)
  then obtain f where f: "rc_test cb d = Inr f"
    and e: "probs e = probs f" "rc_range e = push_bit 8 (rc_range f)"
      "rc_code e = push_bit 8 (rc_code f) OR ucast (mem (mach f) (buffer f))"
    using assms by (auto simp: rc_normalize_def rc_shift_in_def bindE_Inr_iff rc_read_byte_def)
  then show ?thesis using rc_test_regs [OF f] True unat_push_bit_8 [OF True] by auto
next
  case False
  then have "\<not> rc_range d < kTopValue" by (simp add: kTopValue_def word_less_nat_alt)
  then show ?thesis using assms False by (simp add: rc_normalize_def)
qed

lemma rc_normalize_interval:
  assumes "in_interval (2 ^ 16) d" and "rc_normalize cb d = Inr e"
  shows "in_interval (2 ^ 24) e"
proof (cases "unat (rc_range d) < 2 ^ 24")
  case True
  obtain c :: u8 where c: "unat (rc_range e) = 256 * unat (rc_range d)" "rc_code e = push_bit 8 (rc_code d) OR ucast c"
    using rc_normalize_regs [OF assms(2)] True by auto
  have "unat (rc_code d) < 2 ^ 24" using assms(1) True by (simp add: in_interval_def)
  then have "unat (rc_code e) = 256 * unat (rc_code d) + unat c" unfolding c(2) by (rule unat_or_byte)
  moreover have "unat c < 256" using unsigned_less [of c] by simp
  ultimately show ?thesis using assms(1) c(1) by (simp add: in_interval_def)
next
  case False
  then show ?thesis using assms(1) rc_normalize_regs [OF assms(2)] by (simp add: in_interval_def)
qed

text \<open>Both parts of the interval keep at least 2 to the 16 values, whatever the probability.\<close>

definition lower_part :: "nat \<Rightarrow> nat \<Rightarrow> nat" where
  "lower_part r p = r div 2048 * p"

lemma lower_part_bounds:
  assumes "2 ^ 24 \<le> r" and "31 \<le> p" and "p \<le> 2017"
  shows "2 ^ 16 \<le> lower_part r p" and "lower_part r p + 2 ^ 16 \<le> r"
proof -
  have q: "8192 \<le> r div 2048" using div_le_mono [OF assms(1), of 2048] by simp
  have "8192 * 31 \<le> r div 2048 * p" using q assms(2) by (rule mult_le_mono)
  then show "2 ^ 16 \<le> lower_part r p" by (simp add: lower_part_def)
  have "r div 2048 * p + r div 2048 * (2048 - p) = r div 2048 * 2048"
    using assms(3) by (simp flip: distrib_left)
  moreover have "8192 * 31 \<le> r div 2048 * (2048 - p)" using q assms(3) by (intro mult_le_mono) simp_all
  moreover have "r div 2048 * 2048 \<le> r" by simp
  ultimately show "lower_part r p + 2 ^ 16 \<le> r" by (simp add: lower_part_def)
qed

lemma decode_bit_interval:
  assumes "in_interval (2 ^ 16) d" and "i < length (probs d)" and "prob_ok (probs d ! i)"
    and "decode_bit cb i d = Inr (b, d')"
  shows "\<exists>e. rc_normalize cb d = Inr e \<and> in_interval (2 ^ 24) e \<and>
    (b \<longleftrightarrow> lower_part (unat (rc_range e)) (unat (probs d ! i)) \<le> unat (rc_code e)) \<and>
    unat (rc_range d') = (if b then unat (rc_range e) - lower_part (unat (rc_range e)) (unat (probs d ! i))
      else lower_part (unat (rc_range e)) (unat (probs d ! i))) \<and>
    unat (rc_code d') = (if b then unat (rc_code e) - lower_part (unat (rc_range e)) (unat (probs d ! i)) else unat (rc_code e)) \<and>
    probs d' = (probs d)[i := if b then prob_down (probs d ! i) else prob_up (probs d ! i)] \<and>
    in_interval (2 ^ 16) d'"
proof -
  obtain e where e: "rc_normalize cb d = Inr e" using assms(4) by (auto simp: decode_bit_def bindE_Inr_iff)
  note inv = rc_normalize_interval [OF assms(1) e]
  have probs: "probs e = probs d" using rc_normalize_regs [OF e] by simp
  let ?p = "probs d ! i" and ?r = "unat (rc_range e)"
  define bound where "bound = drop_bit kNumBitModelTotalBits (rc_range e) * ucast ?p"
  have p: "31 \<le> unat ?p" "unat ?p \<le> 2017" using assms(3) by (auto simp: prob_ok_def word_le_nat_alt)
  have r: "2 ^ 24 \<le> ?r" using inv by (simp add: in_interval_def)
  note parts = lower_part_bounds [OF r p]
  have "unat (drop_bit kNumBitModelTotalBits (rc_range e)) = ?r div 2048"
    by (simp only: kNumBitModelTotalBits_def drop_bit_eq_div unat_div) simp
  moreover have "unat (ucast ?p :: u32) = unat ?p" using p by (simp add: unsigned_ucast_eq take_bit_nat_eq_self)
  moreover have "?r < 2 ^ 32" using unsigned_less [of "rc_range e"] by simp
  then have "?r div 2048 * unat ?p < 2 ^ 32" using parts(2) by (simp add: lower_part_def)
  ultimately have bound: "unat bound = lower_part ?r (unat ?p)"
    by (simp add: bound_def lower_part_def unat_word_ariths)
  have sub: "unat (rc_range e - bound) = ?r - lower_part ?r (unat ?p)"
    using parts bound by (simp add: unat_sub word_le_nat_alt)
  show ?thesis
  proof (cases "rc_code e < bound")
    case True
    then have "b = False" "d' = e\<lparr>rc_range := bound, probs := (probs d)[i := prob_up ?p]\<rparr>"
      using assms(2,4) e probs by (auto simp: decode_bit_def bound_def Let_def)
    then show ?thesis using e inv bound True parts probs by (simp add: in_interval_def word_less_nat_alt)
  next
    case False
    then have le: "bound \<le> rc_code e" by simp
    then have "b = True" "d' = e\<lparr>rc_range := rc_range e - bound, rc_code := rc_code e - bound, probs := (probs d)[i := prob_down ?p]\<rparr>"
      using False assms(2,4) e probs by (auto simp: decode_bit_def bound_def Let_def)
    moreover have "unat (rc_code e - bound) = unat (rc_code e) - lower_part ?r (unat ?p)"
      using le bound by (simp add: unat_sub)
    moreover have "lower_part ?r (unat ?p) \<le> unat (rc_code e)" using le bound by (simp add: word_le_nat_alt)
    ultimately show ?thesis using e inv bound parts probs sub by (auto simp: in_interval_def)
  qed
qed

section \<open>The copy of a match\<close>

text \<open>On lists: \<open>n\<close> times the byte \<open>dist\<close> places back is written again, so that a match may reach
  into what it has itself produced.\<close>

fun lz_copy :: "nat \<Rightarrow> nat \<Rightarrow> u8 list \<Rightarrow> u8 list" where
  "lz_copy dist 0 out = out"
| "lz_copy dist (Suc n) out = lz_copy dist n (out @ [out ! (length out - dist)])"

text \<open>The bytes written so far.\<close>

definition written :: "job \<Rightarrow> 'p lzma \<Rightarrow> u8 list" where
  "written J d = mem_read (mem (mach d)) (out_stream J) (unat (now_pos d))"

lemma length_written [simp]: "length (written J d) = unat (now_pos d)"
  by (simp add: written_def)

lemma length_lz_copy [simp]: "length (lz_copy dist n out) = n + length out"
  by (induction dist n out rule: lz_copy.induct) simp_all

lemma lz_copy_prefix: "take (length out) (lz_copy dist n out) = out"
proof (induction dist n out rule: lz_copy.induct)
  case (2 dist n out)
  have "take (length out) (lz_copy dist (Suc n) out) =
      take (length out) (take (length (out @ [out ! (length out - dist)])) (lz_copy dist n (out @ [out ! (length out - dist)])))"
    by (simp add: min_def)
  also have "\<dots> = out" unfolding "2.IH" by simp
  finally show ?case .
qed simp

lemma lz_copy_nth:
  assumes "0 < dist" and "dist \<le> length out" and "length out \<le> i" and "i < length out + n"
  shows "lz_copy dist n out ! i = lz_copy dist n out ! (i - dist)"
  using assms
proof (induction dist n out rule: lz_copy.induct)
  case (2 dist n out)
  let ?out = "out @ [out ! (length out - dist)]"
  show ?case
  proof (cases "i = length out")
    case True
    have nth: "lz_copy dist n ?out ! j = ?out ! j" if "j < length ?out" for j
      using lz_copy_prefix [of ?out dist n] nth_take [OF that, of "lz_copy dist n ?out"] by simp
    show ?thesis using nth [of i] nth [of "i - dist"] True "2.prems" by (simp add: nth_append)
  next
    case False
    then show ?thesis using "2.IH" "2.prems" by simp
  qed
qed simp

lemma out_byte_written:
  assumes "rep0 d \<noteq> 0" and "rep0 d \<le> now_pos d"
  shows "out_byte J d = Inr (written J d ! (unat (now_pos d) - unat (rep0 d)))"
proof -
  have le: "unat (rep0 d) \<le> unat (now_pos d)" "0 < unat (rep0 d)"
    using assms by (simp_all add: word_le_nat_alt unat_gt_0)
  have sub: "unat (now_pos d - rep0 d) = unat (now_pos d) - unat (rep0 d)" using assms(2) by (rule unat_sub)
  then have "now_pos d - rep0 d < now_pos d" using le by (simp add: word_less_nat_alt)
  moreover have "written J d ! (unat (now_pos d) - unat (rep0 d)) = mem (mach d) (out_stream J + (now_pos d - rep0 d))"
    using nth_mem_read [of "unat (now_pos d - rep0 d)" "unat (now_pos d)" "mem (mach d)" "out_stream J"] le sub
    by (simp add: written_def)
  ultimately show ?thesis by (simp add: out_byte_def)
qed

lemma put_byte_written:
  assumes "now_pos d < out_size J"
  shows "written J (put_byte J c d) = written J d @ [c]"
proof -
  have "unat (now_pos d + 1) = Suc (unat (now_pos d))"
    using assms unsigned_less [of "out_size J"] by (intro unat_Suc_word) (auto simp: word_less_nat_alt)
  moreover have "mem_read ((mem (mach d))(out_stream J + of_nat (unat (now_pos d)) := c)) (out_stream J) (unat (now_pos d)) =
      mem_read (mem (mach d)) (out_stream J) (unat (now_pos d))"
    using unsigned_less [of "now_pos d"] by (intro mem_read_upd_beyond) simp_all
  ultimately show ?thesis by (simp add: written_def put_byte_def mem_read_snoc)
qed

lemma copy_match_copies:
  assumes "0 < len" and "rep0 d \<noteq> 0" and "rep0 d \<le> now_pos d" and "now_pos d < out_size J"
  shows "\<exists>d'. copy_match J len d = Inr d' \<and>
    written J d' = lz_copy (unat (rep0 d)) (min len (unat (out_size J) - unat (now_pos d))) (written J d)"
  using assms
proof (induction len arbitrary: d)
  case (Suc n)
  let ?c = "written J d ! (unat (now_pos d) - unat (rep0 d))"
  let ?d = "put_byte J ?c d"
  note byte = out_byte_written [OF Suc.prems(2,3), of J] and wr = put_byte_written [OF Suc.prems(4), of ?c]
  have pos: "unat (now_pos ?d) = Suc (unat (now_pos d))"
    using length_written [of J ?d] unfolding wr by simp
  have lt: "unat (now_pos d) < unat (out_size J)" using Suc.prems(4) by (simp add: word_less_nat_alt)
  show ?case
  proof (cases "n \<noteq> 0 \<and> now_pos ?d < out_size J")
    case False
    then have "min (Suc n) (unat (out_size J) - unat (now_pos d)) = Suc 0"
      using lt pos by (auto simp: word_less_nat_alt)
    then show ?thesis using False by (subst copy_match.simps) (auto simp: byte Let_def wr)
  next
    case True
    have "rep0 ?d = rep0 d" by (simp add: put_byte_def)
    moreover have "rep0 ?d \<le> now_pos ?d" using Suc.prems(3) pos by (simp add: word_le_nat_alt put_byte_def)
    ultimately obtain d' where d': "copy_match J n ?d = Inr d'"
        "written J d' = lz_copy (unat (rep0 d)) (min n (unat (out_size J) - Suc (unat (now_pos d)))) (written J ?d)"
      using Suc.IH [of ?d] True Suc.prems(2) pos by auto
    have "min (Suc n) (unat (out_size J) - unat (now_pos d)) = Suc (min n (unat (out_size J) - Suc (unat (now_pos d))))"
      using lt by simp
    then show ?thesis using True d' by (subst copy_match.simps) (simp add: byte Let_def wr)
  qed
qed simp

section \<open>A well-formed state\<close>

definition wellformed :: "job \<Rightarrow> 'p lzma \<Rightarrow> bool" where
  "wellformed J d \<longleftrightarrow> length (probs d) = LzmaGetNumProbs (props J) \<and> (\<forall>p \<in> set (probs d). prob_ok p) \<and> good J d"

context lzma_run
begin

lemma round_keeps:
  assumes "inv (mach d) (pvt d)" and "framed m0 (mach d)" and wf: "wellformed J d" and lt: "now_pos d < out_size J"
  shows "case decode_round cb J d of
      Inl (e, m, q) \<Rightarrow> \<exists>n. e = Result n
    | Inr (Next d') \<Rightarrow> wellformed J d' \<and> unat (now_pos d) < unat (now_pos d')
    | Inr (Stop d') \<Rightarrow> now_pos d' \<le> out_size J"
proof -
  have "calm m0 nprobs d" "good J d"
    using assms by (simp_all add: calm_def wellformed_def nprobs_def)
  then have "ok (returned m0) (round_ok d) (decode_round cb J d)" by (rule decode_round_ok [OF _ _ lt])
  then show ?thesis
    by (auto simp: ok_def round_ok_def returned_def calm_def wellformed_def advanced_def nprobs_def
        split: sum.splits prod.splits round.splits)
qed

end

section \<open>A small compressed file\<close>

text \<open>The header of a stream of one byte, with a body of zeros, at the start of the flash.\<close>

definition sample_stream :: "u8 list" where
  "sample_stream = [0x5d, 0, 0, 1, 0, 1, 0, 0, 0, 0, 0, 0, 0] @ replicate 10 0"

definition stream_file :: cfile where
  "stream_file = \<lparr>f_dev = 1, file_len = 23, file_pos = 0, f_name = [], f_code = 1, f_private = 0x30000000\<rparr>"

definition stream_machine :: machine where
  "stream_machine = \<lparr>mem = mem_write (\<lambda>_. 0) 0x30000040 sample_stream, con_in = [], con_out = []\<rparr>"

lemma stream_in_flash: "image_at (mem stream_machine) (file_base (plat sample_env) stream_file) sample_stream"
proof -
  have "mem_read (mem_write (\<lambda>_. 0) 0x30000040 sample_stream) 0x30000040 (length sample_stream) = sample_stream"
    by (rule mem_read_write_same) (simp add: sample_stream_def)
  moreover have "length sample_stream = 23" by (simp add: sample_stream_def)
  moreover have "file_base (plat sample_env) stream_file = 0x30000040"
    by (simp add: file_base_def stream_file_def sample_env_def)
  ultimately show ?thesis by (simp add: image_at_def stream_machine_def)
qed

lemma stream_placed: "lzma_placed (plat sample_env) (frm sample_env) stream_file sample_stream LOADADDR"
proof -
  have "u32_of LE (take 4 (drop 5 sample_stream)) = 1" by code_simp
  then show ?thesis
    by (simp add: lzma_placed_def Let_def file_base_def stream_file_def sample_env_def sample_frame_def apart_def LOADADDR_def sample_stream_def)
qed

lemma stream_reader:
  "reader C3600 sample_stream 0x30000040 0x80010700 LOADADDR 1 stream_machine
     \<lparr>pd_buffer = 0x80010700, pd_fp = stream_file, pd_total_read = 0, pd_last = 100\<rparr>"
  using stream_in_flash
  by (simp add: reader_def stream_file_def file_base_def sample_env_def apart_def LOADADDR_def)
    (simp add: sample_stream_def)

section \<open>Properties\<close>



text \<open>C7: the decoder itself, fed by \<^verbatim>\<open>read_data\<close> from a file: it returns a C result, reports at most
  as many bytes as there is room for, and stores only there and in the input buffer.\<close>

theorem LzmaDecode_contained:
  assumes "reader p data b buf out (unat sz) st pd"
  shows "\<exists>r n st' pd'. LzmaDecode (read_data p sp) (job_of bs out sz) st pd = (Result r, n, st', pd') \<and> n \<le> sz \<and>
    (\<forall>x. \<not> in_range buf 512 x \<longrightarrow> \<not> in_range out (unat sz) x \<longrightarrow> mem st' x = mem st x)"
  using decoder.LzmaDecode_safe [OF assms, of sp bs] by (auto simp: job_of_def)

lemma LzmaDecode_contained_witness:
  "\<exists>r n st' pd'. LzmaDecode (read_data C3600 0x80020000) (job_of [0x5d, 0, 0, 1, 0] LOADADDR 1) stream_machine
     \<lparr>pd_buffer = 0x80010700, pd_fp = stream_file, pd_total_read = 0, pd_last = 100\<rparr> = (Result r, n, st', pd') \<and> n \<le> 1"
  using LzmaDecode_contained [of C3600 sample_stream "0x30000040" "0x80010700" LOADADDR 1 stream_machine _ "0x80020000" "[0x5d, 0, 0, 1, 0]"]
    stream_reader by fastforce

text \<open>C8: one bit: the interval is split in proportion to the probability, without any overflow, the
  part that contains the code is taken, and at least 2 to the 16 values are left, so that one
  byte of input is always enough to go on.\<close>

theorem decode_bit_splits:
  assumes "in_interval (2 ^ 16) d" and "i < length (probs d)" and "prob_ok (probs d ! i)"
    and "decode_bit cb i d = Inr (b, d')"
  shows "\<exists>e. rc_normalize cb d = Inr e \<and> in_interval (2 ^ 24) e \<and>
    (b \<longleftrightarrow> lower_part (unat (rc_range e)) (unat (probs d ! i)) \<le> unat (rc_code e)) \<and>
    unat (rc_range d') = (if b then unat (rc_range e) - lower_part (unat (rc_range e)) (unat (probs d ! i))
      else lower_part (unat (rc_range e)) (unat (probs d ! i))) \<and>
    unat (rc_code d') = (if b then unat (rc_code e) - lower_part (unat (rc_range e)) (unat (probs d ! i)) else unat (rc_code e)) \<and>
    probs d' = (probs d)[i := if b then prob_down (probs d ! i) else prob_up (probs d ! i)] \<and>
    in_interval (2 ^ 16) d'"
  by (rule decode_bit_interval [OF assms])

lemma decode_bit_splits_witness:
  "\<exists>d'. decode_bit (\<lambda>_ _. None) 0 ((lzma_start (job_of [0] 0 1) stream_machine ())\<lparr>rc_range := 0x1000000, rc_code := 5\<rparr>) = Inr (False, d') \<and>
     in_interval (2 ^ 16) d'"
proof -
  let ?d = "(lzma_start (job_of [0] 0 1) stream_machine ())\<lparr>rc_range := 0x1000000, rc_code := 5\<rparr>"
  have len: "probs ?d ! 0 = 1024" "0 < length (probs ?d)"
    by (simp_all add: lzma_start_def kBitModelTotal_def Literal_base LZMA_BASE_SIZE_def)
  obtain d' where run: "decode_bit (\<lambda>_ _. None) 0 ?d = Inr (False, d')"
    using len by (simp add: decode_bit_def rc_normalize_def kTopValue_def Let_def kNumBitModelTotalBits_def drop_bit_eq_div)
  have "in_interval (2 ^ 16) ?d" by (simp add: in_interval_def)
  moreover have "prob_ok (probs ?d ! 0)" unfolding len by (simp add: prob_ok_def)
  ultimately show ?thesis using decode_bit_splits [OF _ len(2) _ run] run by blast
qed

text \<open>A probability stays between 31 and 2017 of 2048 whichever way it is adapted, from one half
  on: no bit ever becomes certain.\<close>

theorem probability_never_certain:
  assumes "31 \<le> p" and "p \<le> 2017"
  shows "31 \<le> prob_up p \<and> prob_up p \<le> 2017 \<and> 31 \<le> prob_down p \<and> prob_down p \<le> 2017"
  using prob_up_ok [of p] prob_down_ok [of p] assms by (simp add: prob_ok_def)

lemma probability_never_certain_witness: "31 \<le> prob_down 31 \<and> prob_up 2017 \<le> 2017"
  using probability_never_certain [of 31] probability_never_certain [of 2017] by simp

text \<open>C9: the copy of a match is the copy of the Lempel-Ziv scheme on the bytes written so far, cut
  at the end of the output: every new byte repeats the one at the match distance, whether that
  one was there before the match or has been written by it.\<close>

theorem copy_match_is_lz_copy:
  assumes "0 < len" and "rep0 d \<noteq> 0" and "rep0 d \<le> now_pos d" and "now_pos d < out_size J"
  shows "\<exists>d'. copy_match J len d = Inr d' \<and>
    written J d' = lz_copy (unat (rep0 d)) (min len (unat (out_size J) - unat (now_pos d))) (written J d) \<and>
    take (unat (now_pos d)) (written J d') = written J d \<and>
    (\<forall>i \<in> {unat (now_pos d) ..< length (written J d')}. written J d' ! i = written J d' ! (i - unat (rep0 d)))"
proof -
  obtain d' where d': "copy_match J len d = Inr d'"
    "written J d' = lz_copy (unat (rep0 d)) (min len (unat (out_size J) - unat (now_pos d))) (written J d)"
    using copy_match_copies [OF assms] by blast
  moreover have "take (unat (now_pos d)) (written J d') = written J d"
    unfolding d'(2) using lz_copy_prefix [of "written J d"] by simp
  moreover have "written J d' ! i = written J d' ! (i - unat (rep0 d))"
    if "i \<in> {unat (now_pos d) ..< length (written J d')}" for i
  proof -
    have "unat (now_pos d) \<le> i" "i < unat (now_pos d) + min len (unat (out_size J) - unat (now_pos d))"
      using that unfolding d'(2) by simp_all
    then show ?thesis unfolding d'(2) using assms by (intro lz_copy_nth) (simp_all add: word_le_nat_alt unat_gt_0)
  qed
  ultimately show ?thesis by blast
qed

lemma copy_match_is_lz_copy_witness:
  "\<exists>d'. copy_match (job_of [0] 0x100 9) 5
      ((lzma_start (job_of [0] 0x100 9) \<lparr>mem = mem_write (\<lambda>_. 0) 0x100 [1, 2, 3], con_in = [], con_out = []\<rparr> ())\<lparr>now_pos := 3, rep0 := 2\<rparr>) = Inr d' \<and>
     written (job_of [0] 0x100 9) d' = [1, 2, 3, 2, 3, 2, 3, 2]"
proof -
  let ?J = "job_of [0] 0x100 9"
  let ?d = "(lzma_start ?J \<lparr>mem = mem_write (\<lambda>_. 0) 0x100 [1, 2, 3], con_in = [], con_out = []\<rparr> ())\<lparr>now_pos := 3, rep0 := 2\<rparr>"
  have d: "written ?J ?d = [1, 2, 3]" "out_size ?J = 9"
  proof -
    have "mem_read (mem_write (\<lambda>_. 0) 0x100 [1, 2, 3]) 0x100 3 = [1, 2, 3]" by code_simp
    then show "written ?J ?d = [1, 2, 3]" by (simp add: written_def lzma_start_def job_of_def)
  qed (simp add: job_of_def)
  have "lz_copy 2 5 [1, 2, 3] = [1, 2, 3, 2, 3, 2, 3, 2]" by code_simp
  moreover have "\<exists>d'. copy_match ?J 5 ?d = Inr d' \<and> written ?J d' = lz_copy 2 5 [1, 2, 3]"
    using copy_match_is_lz_copy [of 5 ?d ?J, unfolded d] by (auto simp: lzma_start_def)
  ultimately show ?thesis by simp
qed

text \<open>The properties byte is taken apart into \<open>lc\<close>, \<open>lp\<close> and \<open>pb\<close> within their bounds; a byte of 225
  or more, or fewer than five bytes, are refused and nothing is set.\<close>

theorem LzmaDecodeProperties_takes_apart:
  "if 5 \<le> sz \<and> bs ! 0 < 225
   then \<exists>pr. LzmaDecodeProperties bs sz pr0 = (LZMA_RESULT_OK, pr) \<and>
     unat (bs ! 0) = lc pr + 9 * (lp pr + 5 * pb pr) \<and> lc pr < 9 \<and> lp pr < 5 \<and> pb pr < 5
   else LzmaDecodeProperties bs sz pr0 = (LZMA_RESULT_DATA_ERROR, pr0)"
  using LzmaDecodeProperties_ok [of sz bs pr0] LzmaDecodeProperties_bad [of sz bs pr0] by (simp add: not_less de_Morgan_conj not_le)

text \<open>C33: a round of the main loop in a well-formed state, with the probabilities in their table and range, the
  state below 12 and the distances within the text, never reads outside the table or the text; it
  stops with a C result or leaves a well-formed state with more text than before.\<close>

theorem decode_round_wellformed:
  assumes "reader p data b buf out (unat sz) (mach d) (pvt d)" and "wellformed (job_of bs out sz) d" and "now_pos d < sz"
  shows "case decode_round (read_data p sp) (job_of bs out sz) d of
      Inl (e, m, q) \<Rightarrow> \<exists>n. e = Result n
    | Inr (Next d') \<Rightarrow> wellformed (job_of bs out sz) d' \<and> unat (now_pos d) < unat (now_pos d')
    | Inr (Stop d') \<Rightarrow> now_pos d' \<le> sz"
proof -
  have sz: "out_size (job_of bs out sz) = sz" by (simp add: job_of_def)
  show ?thesis
    by (rule decoder.round_keeps [OF assms(1) _ assms(2), of "mach d", unfolded sz, OF _ assms(3)]) (simp add: input.framed_def)
qed

lemma decode_round_wellformed_witness:
  "case decode_round (read_data C3600 0x80020000) (job_of [0x5d, 0, 0, 1, 0] LOADADDR 1)
      (lzma_start (job_of [0x5d, 0, 0, 1, 0] LOADADDR 1) stream_machine
        \<lparr>pd_buffer = 0x80010700, pd_fp = stream_file, pd_total_read = 0, pd_last = 100\<rparr>) of
      Inl (e, m, q) \<Rightarrow> \<exists>n. e = Result n
    | Inr (Next d') \<Rightarrow> wellformed (job_of [0x5d, 0, 0, 1, 0] LOADADDR 1) d' \<and> 0 < unat (now_pos d')
    | Inr (Stop d') \<Rightarrow> now_pos d' \<le> 1"
proof -
  let ?J = "job_of [0x5d, 0, 0, 1, 0] LOADADDR 1" and ?pd = "\<lparr>pd_buffer = 0x80010700, pd_fp = stream_file, pd_total_read = 0, pd_last = 100\<rparr>"
  have half: "(of_int (drop_bit 1 kBitModelTotal) :: u16) = 1024" by (simp add: kBitModelTotal_def)
  have "wellformed ?J (lzma_start ?J stream_machine ?pd)"
    unfolding wellformed_def lzma_start_def half
    by (simp add: LzmaGetNumProbs_def Literal_base prob_ok_def good_def sane_def rep_ok_def kNumStates_def kNumLitStates_def)
  moreover have "reader C3600 sample_stream 0x30000040 0x80010700 LOADADDR (unat (1 :: u32))
      (mach (lzma_start ?J stream_machine ?pd)) (pvt (lzma_start ?J stream_machine ?pd))"
    using stream_reader by (simp add: lzma_start_def)
  moreover have pos: "now_pos (lzma_start ?J stream_machine ?pd) = 0" by (simp add: lzma_start_def)
  moreover have "(0 :: u32) < 1" by simp
  ultimately show ?thesis
    by (intro decode_round_wellformed [where d = "lzma_start ?J stream_machine ?pd" and sz = 1, unfolded pos unsigned_0])
qed

end
