(* ===== verification/LzmaBooting.thy ===== *)
theory LzmaBooting
  imports Reaching LzmaSpec
begin

text \<open>
  The boot loader with a compressed kernel: a name in which the search finds \<^verbatim>\<open>lzma\<close> sends the file
  to \<open>load_lzma\<close>, whatever it holds.
\<close>

section \<open>From the prompt to the decoder\<close>

text \<open>Where the three arrays of \<^verbatim>\<open>load_lzma\<close> and the output lie: clear of the file and of the command
  line.\<close>

definition lzma_clear :: "env \<Rightarrow> (u8 list \<times> u8 list) list \<Rightarrow> u8 list \<Rightarrow> u8 list \<Rightarrow> bool" where
  "lzma_clear E es name data \<longleftrightarrow>
     lzma_placed (plat E) (frm E) \<lparr>f_dev = 1, file_len = of_nat (length data), file_pos = 0, f_name = [], f_code = 1,
       f_private = entry_addr (plat E) (FLASH_BASE (plat E)) es name\<rparr> data LOADADDR \<and>
     apart MEMORY_BASE 256 (lzma_props_at (frm E)) 5 \<and> apart MEMORY_BASE 256 (lzma_size_at (frm E)) 4 \<and>
     apart MEMORY_BASE 256 (lzma_buffer_at (frm E)) 512 \<and>
     apart MEMORY_BASE 256 LOADADDR (unat (u32_of LE (take 4 (drop 5 data))))"

lemma lzma_placed_cong:
  "file_base p fp = file_base p fp' \<Longrightarrow> file_len fp = file_len fp' \<Longrightarrow> lzma_placed p fr fp data out = lzma_placed p fr fp' data out"
  by (simp add: lzma_placed_def Let_def)

lemma load_kernel_lzma:
  assumes name: "cstr (mem st) (kernel_at (frm E)) (pre @ bytes_of ''lzm'' @ post)" "108 \<notin> set pre" "kernel_at (frm E) + of_nat (length pre) \<noteq> 0"
    and lz: "cstr (mem st) (lzma_at (frm E)) (bytes_of ''lzma'')"
  shows "\<exists>o1. load_kernel E st fp = load_lzma E (st\<lparr>con_out := con_out st @ o1\<rparr>) fp LOADADDR MEMORY_BASE"
proof -
  have needle: "butlast (bytes_of ''lzma'') = bytes_of ''lzm''" "hd (bytes_of ''lzma'') = 108" by simp_all
  have found: "strstr (mem st) (kernel_at (frm E)) (lzma_at (frm E)) = Some (kernel_at (frm E) + of_nat (length pre))"
    by (rule strstr_finds [OF name(1) [folded needle(1)] lz]) (use name(2) in simp_all)
  obtain o1 where o1: "printf (plat E) (printf_at (frm E)) st ''Loading LZMA-compressed kernel image.\<newline>'' [] =
      Some (st\<lparr>con_out := con_out st @ o1\<rparr>)"
    using printf_plain [of "''Loading LZMA-compressed kernel image.\<newline>''" "plat E" "printf_at (frm E)" st] by (auto simp: plain_text_def)
  then show ?thesis
    using name(3) unfolding load_kernel_def Let_def found option.case o1 bind.simps by (intro exI [of _ o1]) simp
qed

text \<open>The typed name leads to the decoder, which finds the file in flash and the command line in place.\<close>

lemma boot_prompt_reaches_lzma:
  assumes ok: "prompt_ok E es (mem st)" and typed: "enters (plat E) cs e line" "con_in st = cs @ e # rest"
    and line: "line = pre @ bytes_of ''lzm'' @ post" "108 \<notin> set pre"
    and found: "map_of es line = Some data" and clear: "lzma_clear E es line data"
  shows "\<exists>st5 fp. image_at (mem st5) (file_base (plat E) fp) data \<and> lzma_placed (plat E) (frm E) fp data LOADADDR \<and>
    cstr (mem st5) MEMORY_BASE (console_setting (c_baud (plat E) (rom E) (regs0 E))) \<and>
    prompt_ok E es (mem st5) \<and> con_in st5 = rest \<and>
    (\<forall>st4 fp4 r. load_lzma E st5 fp LOADADDR MEMORY_BASE = Some (st4, fp4, r) \<longrightarrow>
       (\<exists>o2. boot_prompt E fp0 st = Some (st4\<lparr>con_out := con_out st4 @ o2\<rparr>, r)))"
proof -
  obtain st1 k st2 m where l: "printf (plat E) (printf_at (frm E)) st ''\<newline>Enter filename to boot:\<newline>> '' [] = Some st1"
    "c_gets (plat E) st1 (buf_at (frm E)) 128 = Some (k, st2)"
    "parse_line (frm E) (mem st2) (c_baud (plat E) (rom E) (regs0 E)) = Some m"
    and res: "line_result E st line (st2\<lparr>mem := m\<rparr>) line (console_setting (c_baud (plat E) (rom E) (regs0 E)))"
    and inp: "con_in st2 = rest"
    using typed_name [OF ok, of e cs line rest] typed by (auto simp: enters_def)
  have name: "cstr m (kernel_at (frm E)) line" "length line \<le> 48" and cmd: "cstr m MEMORY_BASE (console_setting (c_baud (plat E) (rom E) (regs0 E)))"
    and frame: "prompt_frame (frm E) (mem st) m"
    using res by (simp_all add: line_result_def)
  have ok': "prompt_ok E es m" by (rule prompt_ok_frame [OF ok frame])
  then have lay: "layout_ok (frm E) (FLASH_BASE (plat E)) (dir_span (plat E) es)" and lz: "cstr m (lzma_at (frm E)) (bytes_of ''lzma'')"
    by (simp_all add: prompt_ok_def)
  obtain fp where fp: "cilo_open (plat E) m fp0 (kernel_at (frm E)) = Some fp" "f_code fp = 1" "backed (plat E) m fp data"
      "file_base (plat E) fp = entry_addr (plat E) (FLASH_BASE (plat E)) es line + fs_ent_size (plat E)"
    using kernel_file [OF ok' name, of fp0] found by auto
  have len: "length pre \<le> 48" using name(2) line(1) by simp
  have at: "kernel_at (frm E) + of_nat (length pre) \<noteq> 0"
  proof (rule base_offset_nonzero [of _ 49])
    show "unat (kernel_at (frm E)) + 49 < 2 ^ 32" using lay by (simp add: layout_ok_def regions_def)
  qed (use layout_nonzero [OF lay] len in simp_all)
  have placed: "lzma_placed (plat E) (frm E) fp data LOADADDR"
    using clear fp(3,4) lzma_placed_cong [of "plat E" fp] unfolding lzma_clear_def
    by (subst lzma_placed_cong [of "plat E" fp]) (auto simp: backed_def file_base_def)
  obtain o1 where ld: "load_kernel E (st2\<lparr>mem := m\<rparr>) fp =
      load_lzma E (st2\<lparr>mem := m, con_out := con_out st2 @ o1\<rparr>) fp LOADADDR MEMORY_BASE"
    using load_kernel_lzma [of "st2\<lparr>mem := m\<rparr>" E pre post fp] name(1) line lz at by auto
  let ?st = "st2\<lparr>mem := m, con_out := con_out st2 @ o1\<rparr>"
  have "\<exists>o2. boot_prompt E fp0 st = Some (st4\<lparr>con_out := con_out st4 @ o2\<rparr>, r)"
    if run: "load_lzma E ?st fp LOADADDR MEMORY_BASE = Some (st4, fp4, r)" for st4 fp4 r
  proof (cases r)
    case Returned
    obtain o2 where "printf (plat E) (printf_at (frm E)) st4 ''Fatal error while loading kernel. Aborting.\<newline>'' [] =
        Some (st4\<lparr>con_out := con_out st4 @ o2\<rparr>)"
      using printf_plain [of "''Fatal error while loading kernel. Aborting.\<newline>''" "plat E" "printf_at (frm E)" st4]
      by (auto simp: plain_text_def)
    then show ?thesis using fp(2) Returned unfolding boot_prompt_parsed [OF l fp(1)] ld run
      by (intro exI [of _ o2]) simp
  next
    case (Jump a sz args)
    then show ?thesis using fp(2) unfolding boot_prompt_parsed [OF l fp(1)] ld run
      by (intro exI [of _ "[]"]) simp
  qed
  then show ?thesis using placed cmd fp(3) ok' inp by (intro exI [of _ ?st] exI [of _ fp]) (simp add: backed_def)
qed

text \<open>The command line stays in place: the loader stores elsewhere.\<close>

lemma lzma_keeps_command_line:
  assumes clear: "lzma_clear E es line data" and cmd: "cstr m MEMORY_BASE (console_setting b)"
    and keep: "\<And>x. \<not> in_range (lzma_props_at (frm E)) 5 x \<Longrightarrow> \<not> in_range (lzma_size_at (frm E)) 4 x \<Longrightarrow>
       \<not> in_range (lzma_buffer_at (frm E)) 512 x \<Longrightarrow> \<not> in_range LOADADDR (unat (u32_of LE (take 4 (drop 5 data)))) x \<Longrightarrow> m' x = m x"
  shows "cstr m' MEMORY_BASE (console_setting b)"
proof (rule kept_cstr [OF cmd, where N = 256])
  fix x assume "in_range MEMORY_BASE 256 x"
  then show "m' x = m x" using clear keep apart_not_in_range unfolding lzma_clear_def by blast
qed (use console_setting_bytes(2) [of b] in simp_all)

lemma boot_prompt_lzma:
  assumes "prompt_ok E es (mem st)" and "enters (plat E) cs e line" "con_in st = cs @ e # rest"
    and "line = pre @ bytes_of ''lzm'' @ post" "108 \<notin> set pre"
    and "map_of es line = Some data" and clear: "lzma_clear E es line data"
  shows "\<exists>st' r. boot_prompt E fp0 st = Some (st', r) \<and>
    (r = Returned \<or> r = Jump LOADADDR (c_memsz (plat E) (rom E) (regs0 E)) MEMORY_BASE) \<and>
    cstr (mem st') MEMORY_BASE (console_setting (c_baud (plat E) (rom E) (regs0 E)))"
proof -
  obtain st5 fp where img: "image_at (mem st5) (file_base (plat E) fp) data" "lzma_placed (plat E) (frm E) fp data LOADADDR"
    and cmd: "cstr (mem st5) MEMORY_BASE (console_setting (c_baud (plat E) (rom E) (regs0 E)))"
    and run: "\<And>st4 fp4 r. load_lzma E st5 fp LOADADDR MEMORY_BASE = Some (st4, fp4, r) \<Longrightarrow>
       \<exists>o2. boot_prompt E fp0 st = Some (st4\<lparr>con_out := con_out st4 @ o2\<rparr>, r)"
    using boot_prompt_reaches_lzma [OF assms, of fp0] by blast
  obtain st4 fp4 r where load: "load_lzma E st5 fp LOADADDR MEMORY_BASE = Some (st4, fp4, r)"
    and r: "r = Returned \<or> r = Jump LOADADDR (c_memsz (plat E) (rom E) (regs0 E)) MEMORY_BASE"
    and keep: "\<And>x. \<not> in_range (lzma_props_at (frm E)) 5 x \<Longrightarrow> \<not> in_range (lzma_size_at (frm E)) 4 x \<Longrightarrow>
       \<not> in_range (lzma_buffer_at (frm E)) 512 x \<Longrightarrow> \<not> in_range LOADADDR (unat (u32_of LE (take 4 (drop 5 data)))) x \<Longrightarrow>
       mem st4 x = mem st5 x"
    using load_lzma_safe [OF img refl refl, of MEMORY_BASE] by blast
  have "cstr (mem st4) MEMORY_BASE (console_setting (c_baud (plat E) (rom E) (regs0 E)))"
    by (rule lzma_keeps_command_line [OF clear cmd keep])
  then show ?thesis using run [OF load] r by auto
qed

section \<open>A flash with a compressed file\<close>

definition lzma_name :: "u8 list" where "lzma_name = bytes_of ''k.lzma''"

definition lzma_flash :: "u8 list" where
  "lzma_flash = [0xba, 0xd0, 0x0b, 0x1e, 0, 0, 0, 23, 0, 0, 0, 0, 0, 0, 0, 0] @ lzma_name @ replicate 42 0
     @ sample_stream @ [0, 0, 0, 0]"

definition lzma_mem :: mem where
  "lzma_mem = mem_write (mem_write (mem_write (\<lambda>_. 0) 0x30000000 lzma_flash)
     0x80010500 [99, 111, 110, 115, 111, 108, 101, 0]) 0x80010510 [108, 122, 109, 97, 0]"

lemma lzma_flash_read:
  assumes "k + n \<le> 91"
  shows "mem_read lzma_mem (0x30000000 + of_nat k) n = take n (drop k lzma_flash)"
proof -
  have len: "length lzma_flash = 91" by (simp add: lzma_flash_def lzma_name_def sample_stream_def)
  have "mem_read lzma_mem 0x30000000 91 = mem_read (mem_write (\<lambda>_. 0) 0x30000000 lzma_flash) 0x30000000 91"
    unfolding lzma_mem_def
    using mem_read_write_apart [of "0x30000000" 91 "0x80010510" "[108, 122, 109, 97, 0]"]
      mem_read_write_apart [of "0x30000000" 91 "0x80010500" "[99, 111, 110, 115, 111, 108, 101, 0]"]
    by (simp add: apart_def del: mem_write.simps)
  also have "\<dots> = lzma_flash" using mem_read_write_same [of lzma_flash "\<lambda>_. 0" "0x30000000"] len by simp
  finally show ?thesis using sub_mem_read [OF assms, of lzma_mem "0x30000000"] by simp
qed

lemma lzma_prompt: "prompt_ok sample_env [(lzma_name, sample_stream)] lzma_mem"
proof -
  have len: "length sample_stream = 23" by (simp add: sample_stream_def)
  have dir: "dir_span C3600 [(lzma_name, sample_stream)] = 91" by (simp add: len)
  have "flash_dir C3600 lzma_mem 0x30000000 [(lzma_name, sample_stream)]"
    using lzma_flash_read [of 0 4] lzma_flash_read [of 4 4] lzma_flash_read [of 16 48]
      lzma_flash_read [of 64 23] lzma_flash_read [of 87 4]
    by (simp add: fs_ent_magic_def fs_ent_length_def field_str_def lzma_flash_def lzma_name_def len be32_def)
  moreover have "cstr lzma_mem 0x80010510 (bytes_of ''lzma'')" unfolding lzma_mem_def by simp
  moreover have "cstr lzma_mem 0x80010500 (bytes_of ''console'')" unfolding lzma_mem_def by simp
  moreover have "plat sample_env = C3600" "frm sample_env = sample_frame"
    "console_at sample_frame = 0x80010500" "lzma_at sample_frame = 0x80010510"
    by (simp_all add: sample_env_def sample_frame_def)
  moreover have "layout_ok sample_frame 0x30000000 91"
    by (simp add: layout_ok_def regions_def sample_frame_def region_apart_def apart_def MEMORY_BASE_def)
  ultimately show ?thesis by (simp add: prompt_ok_def dir del: dir_span.simps flash_dir.simps)
qed

lemma lzma_sample_clear: "lzma_clear sample_env [(lzma_name, sample_stream)] lzma_name sample_stream"
proof -
  have "u32_of LE (take 4 (drop 5 sample_stream)) = 1" by code_simp
  moreover have "length sample_stream = 23" by (simp add: sample_stream_def)
  ultimately show ?thesis
    by (simp add: lzma_clear_def lzma_placed_def Let_def file_base_def sample_env_def sample_frame_def apart_def LOADADDR_def MEMORY_BASE_def)
qed

section \<open>Properties\<close>

text \<open>Typing a name in which \<^verbatim>\<open>lzma\<close> is found, of any file in flash: the pass from the prompt ends, with
  the kernel entered at the load address or back at the prompt with an error, and the command
  line is in place.\<close>

theorem lzma_kernel_boots_or_returns:
  assumes "prompt_ok E es (mem st)" and "enters (plat E) cs e line" and "con_in st = cs @ e # rest"
    and "line = pre @ bytes_of ''lzm'' @ post" and "108 \<notin> set pre"
    and "map_of es line = Some data" and "lzma_clear E es line data"
  shows "\<exists>st' r. boot_prompt E fp0 st = Some (st', r) \<and>
    (r = Returned \<or> r = Jump LOADADDR (c_memsz (plat E) (rom E) (regs0 E)) MEMORY_BASE) \<and>
    cstr (mem st') MEMORY_BASE (console_setting (c_baud (plat E) (rom E) (regs0 E)))"
  by (rule boot_prompt_lzma [OF assms])

lemma lzma_kernel_boots_or_returns_witness:
  "\<forall>fp0. \<exists>st' r. boot_prompt sample_env fp0 \<lparr>mem = lzma_mem, con_in = lzma_name @ [13], con_out = []\<rparr> = Some (st', r)"
proof
  fix fp0 :: cfile
  let ?st = "\<lparr>mem = lzma_mem, con_in = lzma_name @ [13], con_out = []\<rparr>"
  have "enters (plat sample_env) lzma_name 13 lzma_name"
    by (simp add: enters_def lzma_name_def ends_line_def typed_def erases_def)
  moreover have "lzma_name = [107, 46] @ bytes_of ''lzm'' @ [97]" by (simp add: lzma_name_def)
  ultimately show "\<exists>st' r. boot_prompt sample_env fp0 ?st = Some (st', r)"
    using lzma_kernel_boots_or_returns [of sample_env "[(lzma_name, sample_stream)]" ?st lzma_name 13 lzma_name "[]" "[107, 46]" "[97]" sample_stream fp0]
      lzma_prompt lzma_sample_clear by auto
qed

end
