(* ===== verification/RangeCode.thy ===== *)
theory RangeCode
  imports LzmaSpec
begin

text \<open>
  The range code as intervals of natural numbers. A sequence of bits, each coded under the
  probability at an index of the table or under one half, belongs to an interval of the byte
  strings: \<open>code_interval\<close> computes it, in the way an encoder does. A decoder whose input
  lies in the interval reads exactly these bits.
\<close>

section \<open>Byte strings as numbers\<close>

fun bytes_num :: "u8 list \<Rightarrow> nat" where
  "bytes_num [] = 0"
| "bytes_num (b # bs) = unat b * 256 ^ length bs + bytes_num bs"

fun num_bytes :: "nat \<Rightarrow> nat \<Rightarrow> u8 list" where
  "num_bytes 0 v = []"
| "num_bytes (Suc k) v = of_nat (v div 256 ^ k) # num_bytes k v"

lemma length_num_bytes [simp]: "length (num_bytes k v) = k"
  by (induction k) simp_all

lemma bytes_num_less: "bytes_num bs < 256 ^ length bs"
proof (induction bs)
  case (Cons b bs)
  have "unat b < 256" using unsigned_less [of b] by simp
  then have "(unat b + 1) * 256 ^ length bs \<le> 256 * 256 ^ length bs" by (intro mult_le_mono1) linarith
  with Cons have "unat b * 256 ^ length bs + bytes_num bs < 256 * 256 ^ length bs"
    by (simp only: distrib_right)
  then show ?case by simp
qed simp

lemma bytes_num_num_bytes: "bytes_num (num_bytes k v) = v mod 256 ^ k"
proof (induction k)
  case (Suc k)
  have "unat (of_nat (v div 256 ^ k) :: u8) = v div 256 ^ k mod 256" by (simp add: unat_of_nat)
  then show ?case using Suc mod_mult2_eq [of v "256 ^ k" 256] by (simp add: mult.commute)
qed simp

lemma bytes_num_append: "bytes_num (as @ bs) = bytes_num as * 256 ^ length bs + bytes_num bs"
  by (induction as) (simp_all add: power_add algebra_simps)

section \<open>The interval of a sequence of bits\<close>

datatype code_op = Bit nat bool | Direct bool

text \<open>The width of the interval, and whether one more byte is needed.\<close>

definition renorm :: "nat \<Rightarrow> nat \<times> nat" where
  "renorm r = (if r < 2 ^ 24 then (256 * r, 1) else (r, 0))"

fun narrow :: "nat \<Rightarrow> u16 list \<Rightarrow> code_op \<Rightarrow> nat \<times> nat \<times> u16 list" where
  "narrow r P (Bit i b) =
     (let low = lower_part r (unat (P ! i))
      in if b then (low, r - low, P[i := prob_down (P ! i)]) else (0, low, P[i := prob_up (P ! i)]))"
| "narrow r P (Direct b) = (if b then r div 2 else 0, r div 2, P)"

text \<open>The lower end and the width of the interval, and the number of bytes that select a place in it.\<close>

fun code_interval :: "nat \<Rightarrow> u16 list \<Rightarrow> code_op list \<Rightarrow> nat \<times> nat \<times> nat" where
  "code_interval r P [] = (0, r, 0)"
| "code_interval r P (x # ops) =
     (case renorm r of (r1, k) \<Rightarrow> case narrow r1 P x of (off, r2, P2) \<Rightarrow>
        case code_interval r2 P2 ops of (lo, w, n) \<Rightarrow> (off * 256 ^ n + lo, w, k + n))"

definition table_ok :: "nat \<Rightarrow> u16 list \<Rightarrow> bool" where
  "table_ok L P \<longleftrightarrow> length P = L \<and> (\<forall>p \<in> set P. prob_ok p)"

fun op_within :: "nat \<Rightarrow> code_op \<Rightarrow> bool" where
  "op_within L (Bit i b) \<longleftrightarrow> i < L"
| "op_within L (Direct b) \<longleftrightarrow> True"

definition within :: "nat \<Rightarrow> code_op list \<Rightarrow> bool" where
  "within L ops \<longleftrightarrow> list_all (op_within L) ops"

lemma within_simps [simp]:
  "within L []" "within L (x # ops) \<longleftrightarrow> op_within L x \<and> within L ops"
  "within L (xs @ ys) \<longleftrightarrow> within L xs \<and> within L ys"
  by (simp_all add: within_def)

lemma narrow_fits:
  assumes "table_ok L P" and "op_within L x" and r: "2 ^ 24 \<le> r" and "narrow r P x = (off, r2, P2)"
  shows "off + r2 \<le> r \<and> 2 ^ 16 \<le> r2 \<and> table_ok L P2"
proof (cases x)
  case (Bit i b)
  have p: "prob_ok (P ! i)" using assms(1,2) Bit by (simp add: table_ok_def)
  then have "31 \<le> unat (P ! i)" "unat (P ! i) \<le> 2017" by (auto simp: prob_ok_def word_le_nat_alt)
  note parts = lower_part_bounds [OF r this]
  have "table_ok L (P[i := prob_down (P ! i)])" "table_ok L (P[i := prob_up (P ! i)])"
    using assms(1) prob_down_ok [OF p] prob_up_ok [OF p]
    by (auto simp: table_ok_def dest!: set_update_subset_insert [THEN subsetD])
  then show ?thesis using assms(4) parts Bit by (auto simp: Let_def split: if_splits)
next
  case (Direct b)
  have "2 ^ 16 \<le> r div 2" using r by simp
  then show ?thesis using assms(1,4) Direct by (auto split: if_splits)
qed

lemma renorm_fits:
  assumes "2 ^ 16 \<le> r" and "renorm r = (r1, k)"
  shows "2 ^ 24 \<le> r1 \<and> r1 = r * 256 ^ k"
  using assms by (auto simp: renorm_def split: if_splits)

lemma code_interval_fits:
  "table_ok L P \<Longrightarrow> within L ops \<Longrightarrow> 2 ^ 16 \<le> r \<Longrightarrow> code_interval r P ops = (lo, w, n) \<Longrightarrow>
     lo + w \<le> r * 256 ^ n \<and> 2 ^ 16 \<le> w"
proof (induction ops arbitrary: r P lo w n)
  case (Cons x ops)
  obtain r1 k where r1: "renorm r = (r1, k)" by (cases "renorm r")
  obtain off r2 P2 where nw: "narrow r1 P x = (off, r2, P2)" by (cases "narrow r1 P x")
  obtain lo' w' n' where ci: "code_interval r2 P2 ops = (lo', w', n')" by (cases "code_interval r2 P2 ops")
  note big = renorm_fits [OF Cons.prems(3) r1]
  have x: "op_within L x" "within L ops" using Cons.prems(2) by simp_all
  have fits: "off + r2 \<le> r1" "2 ^ 16 \<le> r2" "table_ok L P2"
    using narrow_fits [OF Cons.prems(1) x(1) _ nw] big by auto
  have "lo' + w' \<le> r2 * 256 ^ n'" "2 ^ 16 \<le> w'" using Cons.IH [OF fits(3) x(2) fits(2) ci] by auto
  moreover have "(off + r2) * 256 ^ n' \<le> r1 * 256 ^ n'" using fits(1) by (rule mult_le_mono1)
  moreover have "lo = off * 256 ^ n' + lo'" "w = w'" "n = k + n'" using Cons.prems(4) by (simp_all add: r1 nw ci)
  moreover have "r1 = r * 256 ^ k" using big by simp
  ultimately show ?case by (simp add: distrib_right power_add)
qed simp

text \<open>Every bit needs at most one byte.\<close>

lemma code_interval_bytes: "code_interval r P ops = (lo, w, n) \<Longrightarrow> n \<le> length ops"
proof (induction ops arbitrary: r P lo w n)
  case (Cons x ops)
  obtain r1 k where r1: "renorm r = (r1, k)" by (cases "renorm r")
  obtain off r2 P2 where nw: "narrow r1 P x = (off, r2, P2)" by (cases "narrow r1 P x")
  obtain lo' w' n' where ci: "code_interval r2 P2 ops = (lo', w', n')" by (cases "code_interval r2 P2 ops")
  have "k \<le> 1" using r1 by (auto simp: renorm_def split: if_splits)
  moreover have "n' \<le> length ops" by (rule Cons.IH [OF ci])
  ultimately show ?case using Cons.prems by (simp add: r1 nw ci)
qed simp

text \<open>A place in the interval: \<open>code\<close> is the part read so far, \<open>inp\<close> the bytes to come, of which
  one and \<open>spare\<close> more are left over.\<close>

definition selects :: "nat \<Rightarrow> nat \<Rightarrow> u8 list \<Rightarrow> nat \<times> nat \<times> nat \<Rightarrow> bool" where
  "selects spare code inp = (\<lambda>(lo, w, n). length inp = Suc (n + spare) \<and>
     lo \<le> code * 256 ^ n + bytes_num (take n inp) \<and> code * 256 ^ n + bytes_num (take n inp) < lo + w)"

text \<open>The first bit of such a sequence: after the byte that may be needed, the part of the interval that
  belongs to the bit contains the code, and the rest of the input selects in it.\<close>

lemma selects_renorm:
  assumes "selects spare code inp (code_interval r P (x # ops))" and r1: "renorm r = (r1, k)"
    and nw: "narrow r1 P x = (off, r2, P2)"
  shows "k < length inp" and "selects spare (code * 256 ^ k + bytes_num (take k inp)) (drop k inp)
    (case code_interval r2 P2 ops of (lo, w, n) \<Rightarrow> (off * 256 ^ n + lo, w, n))"
proof -
  obtain lo w n where ci: "code_interval r2 P2 ops = (lo, w, n)" by (cases "code_interval r2 P2 ops")
  let ?V = "code * 256 ^ (k + n) + bytes_num (take (k + n) inp)"
  have s: "length inp = Suc (k + n + spare)" "off * 256 ^ n + lo \<le> ?V" "?V < off * 256 ^ n + lo + w"
    using assms(1) by (simp_all add: r1 nw ci selects_def)
  have "length (take n (drop k inp)) = n" using s(1) by simp
  then have "?V = (code * 256 ^ k + bytes_num (take k inp)) * 256 ^ n + bytes_num (take n (drop k inp))"
    by (simp add: take_add bytes_num_append power_add algebra_simps)
  then show "k < length inp" "selects spare (code * 256 ^ k + bytes_num (take k inp)) (drop k inp)
    (case code_interval r2 P2 ops of (lo, w, n) \<Rightarrow> (off * 256 ^ n + lo, w, n))"
    using s by (auto simp: ci selects_def)
qed

lemma selects_narrow:
  assumes s: "selects spare code inp (case code_interval r2 P2 ops of (lo, w, n) \<Rightarrow> (off * 256 ^ n + lo, w, n))"
    and P2: "table_ok L P2" "within L ops" "2 ^ 16 \<le> r2"
  shows "off \<le> code \<and> code < off + r2 \<and> selects spare (code - off) inp (code_interval r2 P2 ops)"
proof -
  obtain lo w n where ci: "code_interval r2 P2 ops = (lo, w, n)" by (cases "code_interval r2 P2 ops")
  let ?b = "bytes_num (take n inp)"
  have V: "length inp = Suc (n + spare)" "off * 256 ^ n + lo \<le> code * 256 ^ n + ?b" "code * 256 ^ n + ?b < off * 256 ^ n + lo + w"
    using s by (simp_all add: ci selects_def)
  have fits: "lo + w \<le> r2 * 256 ^ n" using code_interval_fits [OF P2 ci] by simp
  have b: "?b < 256 ^ n" using bytes_num_less [of "take n inp"] V(1) by simp
  have "off * 256 ^ n < (code + 1) * 256 ^ n" using V(2) b by simp
  then have le: "off \<le> code" unfolding mult_less_cancel2 by simp
  have "code * 256 ^ n < (off + r2) * 256 ^ n" using V(3) fits by (simp add: algebra_simps)
  then have "code < off + r2" unfolding mult_less_cancel2 by simp
  moreover have "code * 256 ^ n = (code - off) * 256 ^ n + off * 256 ^ n" using le by (simp flip: distrib_right)
  ultimately show ?thesis using V le by (simp add: ci selects_def)
qed

section \<open>A decoder on such input\<close>

lemma decode_bit_after:
  assumes "rc_normalize cb d = Inr e" and "i < length (probs e)"
  shows "\<exists>b x y. decode_bit cb i d = Inr (b, e\<lparr>rc_range := x, rc_code := y,
    probs := (probs e)[i := if b then prob_down (probs e ! i) else prob_up (probs e ! i)]\<rparr>)"
proof -
  let ?bound = "drop_bit kNumBitModelTotalBits (rc_range e) * ucast (probs e ! i)"
  show ?thesis
  proof (cases "rc_code e < ?bound")
    case True
    then have "decode_bit cb i d = Inr (False, e\<lparr>rc_range := ?bound, rc_code := rc_code e, probs := (probs e)[i := prob_up (probs e ! i)]\<rparr>)"
      using assms by (simp add: decode_bit_def Let_def)
    then show ?thesis by (intro exI [of _ False] exI [of _ ?bound] exI [of _ "rc_code e"]) simp
  next
    case False
    then have "decode_bit cb i d = Inr (True, e\<lparr>rc_range := rc_range e - ?bound, rc_code := rc_code e - ?bound,
        probs := (probs e)[i := prob_down (probs e ! i)]\<rparr>)"
      using assms by (simp add: decode_bit_def Let_def)
    then show ?thesis by (intro exI [of _ True] exI [of _ "rc_range e - ?bound"] exI [of _ "rc_code e - ?bound"]) simp
  qed
qed

text \<open>
  A callback that hands out a byte string piece by piece: \<open>rest\<close> is what it still has to give.
  The pieces lie where the callback may store, and the decoder stores elsewhere.
\<close>

locale lzma_feed = lzma_input cb inv touch dest
  for cb :: "machine \<Rightarrow> 'p \<Rightarrow> (int \<times> addr \<times> u32 \<times> machine \<times> 'p) option"
    and inv :: "machine \<Rightarrow> 'p \<Rightarrow> bool"
    and touch :: "addr \<Rightarrow> bool"
    and dest :: "addr \<Rightarrow> bool" +
  fixes rest :: "machine \<Rightarrow> 'p \<Rightarrow> u8 list" and spare :: nat
  assumes feed: "inv m p \<Longrightarrow> rest m p \<noteq> [] \<Longrightarrow> \<exists>b n m' p'. cb m p = Some (LZMA_RESULT_OK, b, n, m', p') \<and>
      0 < unat n \<and> mem_read (mem m') b (unat n) @ rest m' p' = rest m p \<and> (\<forall>x. in_range b (unat n) x \<longrightarrow> touch x)"
    and rest_store: "inv m p \<Longrightarrow> dest x \<Longrightarrow> rest (store_at m x c) p = rest m p"
    and touch_dest: "inv m p \<Longrightarrow> touch x \<Longrightarrow> \<not> dest x"
begin

text \<open>All the input that is left: the rest of the current piece and what the callback has.\<close>

definition input :: "'p lzma \<Rightarrow> u8 list" where
  "input d = mem_read (mem (mach d)) (buffer d) (unat (buffer_lim d - buffer d)) @ rest (mach d) (pvt d)"

definition fed :: "machine \<Rightarrow> nat \<Rightarrow> 'p lzma \<Rightarrow> bool" where
  "fed m0 L d \<longleftrightarrow> calm m0 L d \<and> (\<forall>x. in_range (buffer d) (unat (buffer_lim d - buffer d)) x \<longrightarrow> touch x)"

text \<open>Reading input changes neither the decoder's variables nor the memory it writes to.\<close>

definition kept :: "'p lzma \<Rightarrow> 'p lzma \<Rightarrow> bool" where
  "kept d e \<longleftrightarrow> same d e \<and> (\<forall>x. dest x \<longrightarrow> mem (mach e) x = mem (mach d) x)"

lemma kept_refl [simp]: "kept d d"
  by (simp add: kept_def)

lemma kept_trans: "kept a b \<Longrightarrow> kept b c \<Longrightarrow> kept a c"
  by (auto simp: kept_def intro: same_trans)

lemma kept_coder [simp]:
  "kept d (e\<lparr>rc_range := x\<rparr>) \<longleftrightarrow> kept d e" "kept d (e\<lparr>rc_range := x, rc_code := y\<rparr>) \<longleftrightarrow> kept d e"
  "kept d (e\<lparr>rc_range := x, rc_code := y, probs := P\<rparr>) \<longleftrightarrow> kept d e"
  by (simp_all add: kept_def same_def)

lemma input_coder [simp]:
  "input (d\<lparr>rc_range := x\<rparr>) = input d" "input (d\<lparr>rc_range := x, rc_code := y\<rparr>) = input d"
  "input (d\<lparr>rc_range := x, rc_code := y, probs := P\<rparr>) = input d"
  by (simp_all add: input_def)

lemma fed_coder [simp]:
  "fed m0 L (d\<lparr>rc_range := x\<rparr>) \<longleftrightarrow> fed m0 L d" "fed m0 L (d\<lparr>rc_range := x, rc_code := y\<rparr>) \<longleftrightarrow> fed m0 L d"
  "fed m0 L (d\<lparr>rc_range := x, rc_code := y, probs := P\<rparr>) \<longleftrightarrow> fed m0 L d" if "table_ok L P" "table_ok L (probs d)"
  using that by (auto simp: fed_def calm_def table_ok_def)

lemma fed_table: "fed m0 L d \<Longrightarrow> table_ok L (probs d)"
  by (simp add: fed_def calm_def table_ok_def)

lemma rc_test_fed:
  assumes d: "fed m0 L d" and inp: "input d \<noteq> []"
  shows "\<exists>e. rc_test cb d = Inr e \<and> fed m0 L e \<and> input e = input d \<and> kept d e \<and> buffer e \<noteq> buffer_lim e \<and>
    rc_range e = rc_range d \<and> rc_code e = rc_code d \<and> probs e = probs d"
proof (cases "buffer d = buffer_lim d")
  case True
  then have inv: "inv (mach d) (pvt d)" and rest: "input d = rest (mach d) (pvt d)"
    using d by (simp_all add: fed_def calm_def input_def)
  obtain b n m' p' where cb: "cb (mach d) (pvt d) = Some (LZMA_RESULT_OK, b, n, m', p')" "0 < unat n"
    and gives: "mem_read (mem m') b (unat n) @ rest m' p' = rest (mach d) (pvt d)"
    and at: "\<forall>x. in_range b (unat n) x \<longrightarrow> touch x"
    using feed [OF inv] inp rest by auto
  have m': "inv m' p'" "\<forall>x. \<not> touch x \<longrightarrow> mem m' x = mem (mach d) x"
    using cb_returns [OF inv] cb by auto
  let ?e = "d\<lparr>mach := m', pvt := p', buffer := b, buffer_lim := b + n\<rparr>"
  have n: "n \<noteq> 0" using cb(2) by auto
  have "rc_test cb d = Inr ?e" using True n by (simp add: rc_test_def cb(1) Let_def)
  moreover have "fed m0 L ?e" using d m' at by (auto simp: fed_def calm_def framed_def)
  moreover have "input ?e = input d" using gives rest by (simp add: input_def)
  moreover have "kept d ?e" using m'(2) touch_dest [OF inv] by (auto simp: kept_def same_def)
  ultimately show ?thesis using n by (intro exI [of _ ?e]) simp
next
  case False
  then show ?thesis using d by (simp add: rc_test_def)
qed

lemma rc_shift_in_fed:
  assumes d: "fed m0 L d" and inp: "input d = c # cs"
  shows "\<exists>e. rc_shift_in cb d = Inr e \<and> fed m0 L e \<and> input e = cs \<and> kept d e \<and>
    rc_range e = rc_range d \<and> rc_code e = push_bit 8 (rc_code d) OR ucast c \<and> probs e = probs d"
proof -
  obtain e where e: "rc_test cb d = Inr e" "fed m0 L e" "input e = c # cs" "kept d e" "buffer e \<noteq> buffer_lim e"
    "rc_range e = rc_range d" "rc_code e = rc_code d" "probs e = probs d"
    using rc_test_fed [OF d] inp by auto
  have left: "unat (buffer_lim e - buffer e) = Suc (unat (buffer_lim e - (buffer e + 1)))"
    using e(5) by (intro unat_diff_Suc) simp
  have c: "mem (mach e) (buffer e) = c" and cs: "input (e\<lparr>buffer := buffer e + 1\<rparr>) = cs"
    using e(3) by (simp_all add: input_def left mem_read_Suc)
  let ?e = "e\<lparr>buffer := buffer e + 1, rc_code := push_bit 8 (rc_code d) OR ucast c\<rparr>"
  have "rc_shift_in cb d = Inr ?e" using c e(7) by (simp add: rc_shift_in_def e(1) rc_read_byte_def)
  moreover have "in_range (buffer e) (unat (buffer_lim e - buffer e)) x"
    if "in_range (buffer e + 1) (unat (buffer_lim e - (buffer e + 1))) x" for x
    using that unat_diff_Suc [of x "buffer e"] left by (cases "x = buffer e") (simp_all add: in_range_def)
  then have "fed m0 L ?e" using e(2) by (auto simp: fed_def calm_def)
  moreover have "input ?e = cs" using cs by (simp add: input_def)
  moreover have "kept d ?e" using e(4) by (simp add: kept_def same_def)
  ultimately show ?thesis using e(6,8) by (intro exI [of _ ?e]) simp
qed

text \<open>A decoder about to read \<open>ops\<close>: the input selects a place in their interval.\<close>

definition primed :: "machine \<Rightarrow> nat \<Rightarrow> code_op list \<Rightarrow> 'p lzma \<Rightarrow> bool" where
  "primed m0 L ops d \<longleftrightarrow> fed m0 L d \<and> within L ops \<and> 2 ^ 16 \<le> unat (rc_range d) \<and>
     selects spare (unat (rc_code d)) (input d) (code_interval (unat (rc_range d)) (probs d) ops)"

lemma primed_below:
  assumes "primed m0 L ops d"
  shows "in_interval (2 ^ 16) d"
proof -
  obtain lo w n where ci: "code_interval (unat (rc_range d)) (probs d) ops = (lo, w, n)"
    by (cases "code_interval (unat (rc_range d)) (probs d) ops")
  have "lo + w \<le> unat (rc_range d) * 256 ^ n"
    using code_interval_fits [OF fed_table _ _ ci] assms unfolding primed_def by blast
  moreover have "unat (rc_code d) * 256 ^ n < lo + w" using assms by (simp add: primed_def ci selects_def)
  ultimately have "unat (rc_code d) * 256 ^ n < unat (rc_range d) * 256 ^ n" by linarith
  then have "unat (rc_code d) < unat (rc_range d)" unfolding mult_less_cancel2 by simp
  then show ?thesis using assms by (simp add: in_interval_def primed_def)
qed

lemma primed_normalize:
  assumes d: "primed m0 L (x # ops) d"
  shows "\<exists>e. rc_normalize cb d = Inr e \<and> fed m0 L e \<and> kept d e \<and> probs e = probs d \<and> in_interval (2 ^ 24) e \<and>
    (\<forall>off r2 P2. narrow (unat (rc_range e)) (probs d) x = (off, r2, P2) \<longrightarrow>
       selects spare (unat (rc_code e)) (input e) (case code_interval r2 P2 ops of (lo, w, n) \<Rightarrow> (off * 256 ^ n + lo, w, n)))"
proof -
  let ?r = "unat (rc_range d)" and ?c = "unat (rc_code d)"
  have fed: "fed m0 L d" and sel: "selects spare ?c (input d) (code_interval ?r (probs d) (x # ops))"
    using d by (simp_all add: primed_def)
  note inv = primed_below [OF d]
  show ?thesis
  proof (cases "?r < 2 ^ 24")
    case True
    then have r1: "renorm ?r = (256 * ?r, 1)" by (simp add: renorm_def)
    obtain off r2 P2 where "narrow (256 * ?r) (probs d) x = (off, r2, P2)" by (rule prod_cases3)
    from selects_renorm(1) [OF sel r1 this] have "input d \<noteq> []" by auto
    then obtain c cs where inp: "input d = c # cs" by (cases "input d") auto
    obtain e where e: "rc_shift_in cb d = Inr e" "fed m0 L e" "input e = cs" "kept d e" "rc_range e = rc_range d"
      "rc_code e = push_bit 8 (rc_code d) OR ucast c" "probs e = probs d"
      using rc_shift_in_fed [OF fed inp] by blast
    let ?e = "e\<lparr>rc_range := push_bit 8 (rc_range e)\<rparr>"
    have norm: "rc_normalize cb d = Inr ?e"
      using True by (simp add: rc_normalize_def e(1) kTopValue_def word_less_nat_alt)
    have "?c < 2 ^ 24" using inv True by (simp add: in_interval_def)
    then have code: "unat (rc_code ?e) = ?c * 256 ^ 1 + bytes_num (take 1 (input d))"
      using unat_or_byte by (simp add: e(6) inp)
    have range: "unat (rc_range ?e) = 256 * ?r" using unat_push_bit_8 [OF True] by (simp add: e(5))
    have "selects spare (unat (rc_code ?e)) (input ?e) (case code_interval r2 P2 ops of (lo, w, n) \<Rightarrow> (off * 256 ^ n + lo, w, n))"
      if "narrow (unat (rc_range ?e)) (probs d) x = (off, r2, P2)" for off r2 P2
      using selects_renorm(2) [OF sel r1, OF that [unfolded range]] unfolding code [symmetric] by (simp add: inp e(3))
    then show ?thesis using norm e rc_normalize_interval [OF inv norm] fed_table [OF e(2)]
      by (intro exI [of _ ?e]) (simp add: fed_coder)
  next
    case False
    then have r1: "renorm ?r = (?r, 0)" by (simp add: renorm_def)
    have norm: "rc_normalize cb d = Inr d"
      using False by (simp add: rc_normalize_def kTopValue_def word_less_nat_alt)
    then show ?thesis using fed rc_normalize_interval [OF inv norm] selects_renorm(2) [OF sel r1] by auto
  qed
qed

text \<open>Reading one bit.\<close>

lemma decode_bit_primed:
  assumes d: "primed m0 L (Bit i b # ops) d"
  shows "\<exists>e. decode_bit cb i d = Inr (b, e) \<and> primed m0 L ops e \<and> kept d e"
proof -
  obtain e where e: "rc_normalize cb d = Inr e" "fed m0 L e" "kept d e" "probs e = probs d" "in_interval (2 ^ 24) e"
    and sel: "\<And>off r2 P2. narrow (unat (rc_range e)) (probs d) (Bit i b) = (off, r2, P2) \<Longrightarrow>
       selects spare (unat (rc_code e)) (input e) (case code_interval r2 P2 ops of (lo, w, n) \<Rightarrow> (off * 256 ^ n + lo, w, n))"
    using primed_normalize [OF d] by auto
  let ?p = "probs d ! i" and ?r = "unat (rc_range e)"
  let ?low = "lower_part ?r (unat ?p)"
  let ?off = "if b then ?low else 0" and ?r2 = "if b then ?r - ?low else ?low"
    and ?P2 = "(probs d)[i := if b then prob_down ?p else prob_up ?p]"
  have tab: "table_ok L (probs d)" and ops: "i < L" "within L ops" using d fed_table by (auto simp: primed_def)
  then have i: "i < length (probs d)" "prob_ok ?p" by (auto simp: table_ok_def)
  have nw: "narrow ?r (probs d) (Bit i b) = (?off, ?r2, ?P2)" by (simp add: Let_def)
  have "2 ^ 24 \<le> ?r" using e(5) by (simp add: in_interval_def)
  from narrow_fits [OF tab _ this nw] ops have fits: "2 ^ 16 \<le> ?r2" "table_ok L ?P2" by simp_all
  note place = selects_narrow [OF sel [OF nw] fits(2) ops(2) fits(1)]
  obtain b' x y where run: "decode_bit cb i d = Inr (b', e\<lparr>rc_range := x, rc_code := y,
      probs := (probs d)[i := if b' then prob_down ?p else prob_up ?p]\<rparr>)"
    using decode_bit_after [OF e(1), unfolded e(4), OF i(1)] by blast
  let ?d = "e\<lparr>rc_range := x, rc_code := y, probs := (probs d)[i := if b' then prob_down ?p else prob_up ?p]\<rparr>"
  have split: "b' \<longleftrightarrow> ?low \<le> unat (rc_code e)" "unat x = (if b' then ?r - ?low else ?low)"
    "unat y = (if b' then unat (rc_code e) - ?low else unat (rc_code e))"
    using decode_bit_interval [OF primed_below [OF d] i run] e(1) by auto
  have b: "b' = b" using split(1) place by (cases b) auto
  have "fed m0 L ?d" using e(2) fits(2) fed_table [OF e(2)] by (simp add: b fed_coder)
  then have "primed m0 L ops ?d"
    using place fits ops split b by (auto simp: primed_def)
  then show ?thesis using run e(3) b by auto
qed

text \<open>A bit of one half.\<close>

lemma direct_bit_primed:
  assumes d: "primed m0 L (Direct b # ops) d"
  shows "\<exists>e. rc_normalize cb d = Inr e \<and> (b \<longleftrightarrow> drop_bit 1 (rc_range e) \<le> rc_code e) \<and>
    (let half = drop_bit 1 (rc_range e); d' = (if b then e\<lparr>rc_range := half, rc_code := rc_code e - half\<rparr> else e\<lparr>rc_range := half\<rparr>)
     in primed m0 L ops d' \<and> kept d d')"
proof -
  obtain e where e: "rc_normalize cb d = Inr e" "fed m0 L e" "kept d e" "probs e = probs d" "in_interval (2 ^ 24) e"
    and sel: "\<And>off r2 P2. narrow (unat (rc_range e)) (probs d) (Direct b) = (off, r2, P2) \<Longrightarrow>
       selects spare (unat (rc_code e)) (input e) (case code_interval r2 P2 ops of (lo, w, n) \<Rightarrow> (off * 256 ^ n + lo, w, n))"
    using primed_normalize [OF d] by auto
  let ?r = "unat (rc_range e)" and ?half = "drop_bit 1 (rc_range e)"
  have half: "unat ?half = ?r div 2" by (simp only: drop_bit_eq_div unat_div) simp
  have tab: "table_ok L (probs d)" and ops: "within L ops" using d fed_table by (auto simp: primed_def)
  have "2 ^ 24 \<le> ?r" using e(5) by (simp add: in_interval_def)
  then have big: "2 ^ 16 \<le> ?r div 2" by simp
  have nw: "narrow ?r (probs d) (Direct b) = (if b then ?r div 2 else 0, ?r div 2, probs d)" by simp
  note place = selects_narrow [OF sel [OF nw] tab ops big]
  have b: "b \<longleftrightarrow> ?half \<le> rc_code e" unfolding word_le_nat_alt half using place by (cases b) auto
  let ?d = "if b then e\<lparr>rc_range := ?half, rc_code := rc_code e - ?half\<rparr> else e\<lparr>rc_range := ?half\<rparr>"
  have "unat (rc_code e - ?half) = unat (rc_code e) - ?r div 2" if b
    using b that half by (simp add: unat_sub)
  then have "primed m0 L ops ?d"
    using place e(2,4) tab ops big half fed_table [OF e(2)] by (cases b) (simp_all add: primed_def fed_coder)
  moreover have "kept d ?d" using e(3) by simp
  ultimately show ?thesis unfolding Let_def using e(1) b by (intro exI [of _ e] conjI)
qed

end

end
