(* ===== verification/LzmaSymbols.thy ===== *)
theory LzmaSymbols
  imports RangeCode
begin

text \<open>
  The symbols of an LZMA stream as bits of the range code: trees of bits, literals, lengths and
  distances. For each there is the sequence of bits an encoder writes, and the proof that the
  decoder's routine reads the symbol back.
\<close>

section \<open>The bits of a symbol\<close>

text \<open>A tree of \<open>n\<close> bits, the most significant first, and one with the least significant first.\<close>

primrec tree_ops :: "nat \<Rightarrow> nat \<Rightarrow> nat \<Rightarrow> nat \<Rightarrow> code_op list" where
  "tree_ops base 0 res v = []"
| "tree_ops base (Suc n) res v = Bit (base + res) (bit v n) # tree_ops base n (2 * res + of_bool (bit v n)) v"

primrec rev_ops :: "nat \<Rightarrow> nat \<Rightarrow> nat \<Rightarrow> nat \<Rightarrow> code_op list" where
  "rev_ops base 0 mi v = []"
| "rev_ops base (Suc n) mi v = Bit (base + mi) (odd v) # rev_ops base n (2 * mi + of_bool (odd v)) (v div 2)"

primrec direct_ops :: "nat \<Rightarrow> nat \<Rightarrow> code_op list" where
  "direct_ops 0 v = []"
| "direct_ops (Suc n) v = Direct (bit v n) # direct_ops n v"

text \<open>A byte after a match: as long as its bits agree with those of the byte \<open>mb\<close>, that one selects
  the probabilities.\<close>

primrec matched_ops :: "nat \<Rightarrow> nat \<Rightarrow> nat \<Rightarrow> nat \<Rightarrow> nat \<Rightarrow> code_op list" where
  "matched_ops base 0 mb s c = []"
| "matched_ops base (Suc n) mb s c =
     Bit (base + 0x100 + (if bit mb n then 0x100 else 0) + s) (bit c n) #
     (let s' = 2 * s + of_bool (bit c n)
      in if bit c n = bit mb n then matched_ops base n mb s' c else tree_ops base n s' c)"

text \<open>A length, counted from the shortest one.\<close>

definition len_ops :: "nat \<Rightarrow> nat \<Rightarrow> nat \<Rightarrow> code_op list" where
  "len_ops base posState l =
     (if l < 8 then Bit (base + LenChoice) False # tree_ops (base + LenLow + posState * 8) 3 1 l
      else if l < 16 then Bit (base + LenChoice) True # Bit (base + LenChoice2) False # tree_ops (base + LenMid + posState * 8) 3 1 (l - 8)
      else Bit (base + LenChoice) True # Bit (base + LenChoice2) True # tree_ops (base + LenHigh) 8 1 (l - 16))"

text \<open>A distance, counted from 0: its slot gives the position of the highest bit and the bit after it.\<close>

fun high_bit :: "nat \<Rightarrow> nat" where
  "high_bit v = (if v < 2 then 0 else Suc (high_bit (v div 2)))"

declare high_bit.simps [simp del]

definition dist_slot :: "nat \<Rightarrow> nat" where
  "dist_slot v = (if v < 4 then v else 2 * high_bit v + of_bool (bit v (high_bit v - 1)))"

definition foot_ops :: "nat \<Rightarrow> code_op list" where
  "foot_ops v =
     (if v < 4 then []
      else let n = high_bit v - 1
        in if dist_slot v < 14 then rev_ops (SpecPos + (v - v mod 2 ^ n) - dist_slot v - 1) n 1 v
           else direct_ops (n - 4) (v div 16) @ rev_ops Align 4 1 v)"

definition dist_ops :: "nat \<Rightarrow> nat \<Rightarrow> code_op list" where
  "dist_ops l v = tree_ops (PosSlot + (if l < 4 then l else 3) * 64) 6 1 (dist_slot v) @ foot_ops v"

section \<open>Arithmetic\<close>

lemma mod_Suc_bit: "v mod 2 ^ Suc n = of_bool (bit v n) * 2 ^ n + v mod 2 ^ n" for v :: nat
  using mod_mult2_eq [of v "2 ^ n" 2] by (simp add: bit_iff_odd mult.commute odd_iff_mod_2_eq_one)

lemma double_or_one: "push_bit 1 r OR 1 = 2 * r + (1 :: 'a :: len word)"
  by (simp add: or.commute [of _ 1] one_or_eq push_bit_eq_mult mult.commute)

lemma and_0x100: "x AND 0x100 = (if bit x 8 then 0x100 else 0)" for x :: nat
proof -
  have "x AND 2 ^ 8 = (if bit x 8 then 2 ^ 8 else 0)" by (rule bit_eqI) (auto simp: bit_and_iff bit_exp_iff simp del: power_numeral)
  then show ?thesis by simp
qed

lemma high_bit_bounds: "0 < v \<Longrightarrow> 2 ^ high_bit v \<le> v \<and> v < 2 * 2 ^ high_bit v"
proof (induction v rule: high_bit.induct)
  case (1 v)
  show ?case
  proof (cases "v < 2")
    case False
    then have "2 ^ high_bit (v div 2) \<le> v div 2" "v div 2 < 2 * 2 ^ high_bit (v div 2)" using "1.IH" by auto
    then show ?thesis using False by (subst (1 2) high_bit.simps) auto
  qed (use 1 in \<open>subst (1 2) high_bit.simps, simp\<close>)
qed

lemma two_or_three: "2 \<le> q \<Longrightarrow> q < 4 \<Longrightarrow> q = 2 + q mod 2" for q :: nat
  by presburger

text \<open>The parts of a distance from 4 on.\<close>

lemma dist_parts:
  assumes "4 \<le> v" and "v < 2 ^ 32"
  defines "n \<equiv> high_bit v - 1" and "t \<equiv> of_bool (bit v (high_bit v - 1)) :: nat"
  shows "dist_slot v = 2 * (n + 1) + t" and "v div 2 ^ n = 2 + t" and "1 \<le> n" and "n \<le> 30" and "t < 2"
proof -
  have h: "2 ^ high_bit v \<le> v" "v < 2 * 2 ^ high_bit v" using high_bit_bounds [of v] assms(1) by auto
  have "high_bit v \<noteq> 0" "high_bit v \<noteq> 1" using h(2) assms(1) by (auto intro: ccontr)
  then have n: "high_bit v = Suc n" and "1 \<le> n" by (auto simp: n_def)
  then show "1 \<le> n" by simp
  show "dist_slot v = 2 * (n + 1) + t" using assms(1) n by (simp add: dist_slot_def t_def n_def)
  have "(2 :: nat) ^ Suc n < 2 ^ 32" using h(1) assms(2) unfolding n by (rule le_less_trans)
  then show "n \<le> 30" by (simp only: power_strict_increasing_iff)
  have "2 * 2 ^ n \<le> v" "v < 4 * 2 ^ n" using h n by simp_all
  then have "2 \<le> v div 2 ^ n" "v div 2 ^ n < 4" by (simp_all add: less_eq_div_iff_mult_less_eq div_less_iff_less_mult)
  then have "v div 2 ^ n = 2 + v div 2 ^ n mod 2" by (rule two_or_three)
  also have "v div 2 ^ n mod 2 = t" by (simp add: t_def n_def bit_iff_odd mod_2_eq_odd)
  finally show "v div 2 ^ n = 2 + t" .
  show "t < 2" by (simp add: t_def)
qed

lemma dist_slot_less: "v < 2 ^ 32 \<Longrightarrow> dist_slot v < 64"
  using dist_parts [of v] by (cases "v < 4") (simp add: dist_slot_def, auto)

text \<open>A number from its upper part and its lower bits.\<close>

lemma push_bit_or_low:
  assumes "v < 2 ^ 32"
  shows "push_bit n (of_nat (v div 2 ^ n)) OR of_nat (v mod 2 ^ n) = (of_nat v :: u32)"
proof -
  have "push_bit n (v div 2 ^ n) OR v mod 2 ^ n = v"
    by (rule bit_eqI) (auto simp: bit_simps simp flip: drop_bit_eq_div take_bit_eq_mod)
  then have "(of_nat (push_bit n (v div 2 ^ n) OR v mod 2 ^ n) :: u32) = of_nat v" by (rule arg_cong)
  then show ?thesis by (simp only: of_nat_or_eq of_nat_push_bit)
qed

lemma dist_upper:
  assumes "4 \<le> v" and "v < 2 ^ 32"
  defines "n \<equiv> high_bit v - 1"
  shows "4 \<le> dist_slot v" and "dist_slot v div 2 - 1 = n"
    and "2 OR (of_nat (dist_slot v) AND 1) = (of_nat (v div 2 ^ n) :: u32)"
    and "push_bit n (of_nat (v div 2 ^ n)) = (of_nat (v - v mod 2 ^ n) :: u32)"
    and "unat (of_nat (v - v mod 2 ^ n) :: u32) = v - v mod 2 ^ n"
proof -
  define t where "t = (of_bool (bit v (high_bit v - 1)) :: nat)"
  have slot: "dist_slot v = 2 * (n + 1) + t" and top: "v div 2 ^ n = 2 + t" and n: "1 \<le> n" and t: "t < 2"
    using dist_parts [OF assms(1,2)] by (simp_all add: n_def t_def)
  show "4 \<le> dist_slot v" "dist_slot v div 2 - 1 = n" using slot n t by simp_all
  have "dist_slot v AND 1 = t" using t by (simp add: slot and_one_eq)
  then have "(of_nat (dist_slot v) AND 1 :: u32) = of_nat t" by (metis of_nat_1 of_nat_and_eq)
  then show "2 OR (of_nat (dist_slot v) AND 1) = (of_nat (v div 2 ^ n) :: u32)"
    unfolding top using t by (auto simp: less_2_cases_iff)
  show "push_bit n (of_nat (v div 2 ^ n)) = (of_nat (v - v mod 2 ^ n) :: u32)"
    by (simp add: push_bit_eq_mult minus_mod_eq_div_mult)
  show "unat (of_nat (v - v mod 2 ^ n) :: u32) = v - v mod 2 ^ n"
    using assms(2) by (intro unat_of_nat_small) simp
qed

text \<open>The symbol of a literal starts with a one; \<open>k\<close> of its bits are still to come.\<close>

definition partial :: "nat \<Rightarrow> nat \<Rightarrow> bool" where
  "partial k s \<longleftrightarrow> 0x100 \<le> s * 2 ^ k \<and> Suc s * 2 ^ k \<le> 0x200"

lemma partial_0: "partial 0 s \<Longrightarrow> \<not> s < 0x100"
  by (simp add: partial_def)

lemma partial_Suc:
  assumes "partial (Suc k) s"
  shows "s < 0x100" and "partial k (2 * s + of_bool b)"
proof -
  have s: "0x100 \<le> 2 * s * 2 ^ k" "Suc s * 2 ^ k \<le> 0x100" using assms by (simp_all add: partial_def)
  have "Suc s * 1 \<le> Suc s * 2 ^ k" by (intro mult_le_mono2) simp
  then have "Suc s \<le> Suc s * 2 ^ k" by (simp only: mult_1_right)
  from this s(2) have "Suc s \<le> 0x100" by (rule le_trans)
  then show "s < 0x100" by simp
  have "2 * s * 2 ^ k \<le> (2 * s + of_bool b) * 2 ^ k" "Suc (2 * s + of_bool b) * 2 ^ k \<le> 2 * (Suc s * 2 ^ k)"
    by (simp, cases b) simp_all
  with s show "partial k (2 * s + of_bool b)" unfolding partial_def by linarith
qed

section \<open>The bits lie within the table\<close>

lemma within_tree: "res < 2 * 2 ^ k \<Longrightarrow> base + 2 ^ (k + n) \<le> L \<Longrightarrow> within L (tree_ops base n res v)"
proof (induction n arbitrary: k res)
  case (Suc n)
  have "(2 :: nat) * 2 ^ k \<le> 2 ^ (k + Suc n)" by (simp add: power_add)
  then have "base + res < L" using Suc.prems by linarith
  moreover have "within L (tree_ops base n (2 * res + of_bool (bit v n)) v)"
    using Suc.prems by (intro Suc.IH [of _ "Suc k"]) (cases "bit v n"; simp)+
  ultimately show ?case by simp
qed simp

lemma within_rev: "mi < 2 * 2 ^ k \<Longrightarrow> base + 2 ^ (k + n) \<le> L \<Longrightarrow> within L (rev_ops base n mi v)"
proof (induction n arbitrary: k mi v)
  case (Suc n)
  have "(2 :: nat) * 2 ^ k \<le> 2 ^ (k + Suc n)" by (simp add: power_add)
  then have "base + mi < L" using Suc.prems by linarith
  moreover have "within L (rev_ops base n (2 * mi + of_bool (odd v)) (v div 2))"
    using Suc.prems by (intro Suc.IH [of _ "Suc k"]) (cases "odd v"; simp)+
  ultimately show ?case by simp
qed simp

lemma within_direct: "within L (direct_ops n v)"
  by (induction n) simp_all

lemma within_literal: "partial k s \<Longrightarrow> base + 0x100 \<le> L \<Longrightarrow> within L (tree_ops base k s c)"
proof (induction k arbitrary: s)
  case (Suc k)
  then show ?case using partial_Suc [OF Suc.prems(1)] by simp
qed simp

lemma within_matched: "partial k s \<Longrightarrow> base + 0x300 \<le> L \<Longrightarrow> within L (matched_ops base k mb s c)"
proof (induction k arbitrary: s)
  case (Suc k)
  then show ?case using partial_Suc [OF Suc.prems(1)] within_literal [of k _ base L c] by (simp add: Let_def)
qed simp

lemma within_len:
  assumes "base + kNumLenProbs \<le> L" and "posState < 16"
  shows "within L (len_ops base posState l)"
  using assms within_tree [of 1 0 _ 3 L] within_tree [of 1 0 _ 8 L]
  by (simp add: len_ops_def layout_consts)

lemma within_dist:
  assumes "1846 \<le> L" and "v < 2 ^ 32"
  shows "within L (dist_ops l v)"
proof -
  have "within L (foot_ops v)"
  proof (cases "v < 4")
    case False
    let ?n = "high_bit v - 1"
    have "4 \<le> v" using False by simp
    note up = dist_upper [OF this assms(2)]
    have "within L (rev_ops (SpecPos + (v - v mod 2 ^ ?n) - dist_slot v - 1) ?n 1 v)" if "dist_slot v < 14"
      using spec_pos_bound [OF up(1) that] assms(1) unfolding up(2,3,4,5)
      by (intro within_rev [where k = 0]) simp_all
    moreover have "within L (rev_ops Align 4 1 v)"
      using assms(1) by (intro within_rev [where k = 0]) (simp_all add: layout_consts)
    ultimately show ?thesis using False within_direct by (simp add: foot_ops_def Let_def)
  qed (simp add: foot_ops_def)
  moreover have "within L (tree_ops (PosSlot + (if l < 4 then l else 3) * 64) 6 1 (dist_slot v))"
    using assms(1) by (intro within_tree [where k = 0]) (simp_all add: layout_consts)
  ultimately show ?thesis by (simp add: dist_ops_def)
qed

section \<open>The decoder reads them back\<close>

lemma bindE_assoc: "bindE (bindE r f) g = bindE r (\<lambda>x. bindE (f x) g)"
  by (cases r) simp_all

lemma bindE_cong: "r = r' \<Longrightarrow> (\<And>x. r' = Inr x \<Longrightarrow> f x = f' x) \<Longrightarrow> bindE r f = bindE r' f'"
  by (cases r') simp_all

context lzma_feed
begin

text \<open>\<open>decodes m0 L xs f v\<close>: whatever comes after them, the routine \<open>f\<close> takes the bits \<open>xs\<close> for \<open>v\<close>.\<close>

definition decodes :: "machine \<Rightarrow> nat \<Rightarrow> code_op list \<Rightarrow> ('p lzma \<Rightarrow> ('p, 'a \<times> 'p lzma) run) \<Rightarrow> 'a \<Rightarrow> bool" where
  "decodes m0 L xs f v \<longleftrightarrow>
     (\<forall>ops d. primed m0 L (xs @ ops) d \<longrightarrow> (\<exists>e. f d = Inr (v, e) \<and> primed m0 L ops e \<and> kept d e))"

lemma decodesD:
  assumes "decodes m0 L xs f v" and "primed m0 L (xs @ ops) d"
  obtains e where "f d = Inr (v, e)" and "primed m0 L ops e" and "kept d e"
  using assms unfolding decodes_def by blast

lemma decodes_return: "decodes m0 L [] (\<lambda>d. Inr (v, d)) v"
  by (simp add: decodes_def)

lemma decodes_bind:
  assumes "decodes m0 L xs f v" and "decodes m0 L ys (g v) w"
  shows "decodes m0 L (xs @ ys) (\<lambda>d. bindE (f d) (\<lambda>(x, d). g x d)) w"
  unfolding decodes_def
proof (intro allI impI)
  fix ops d assume d: "primed m0 L ((xs @ ys) @ ops) d"
  obtain e where e: "f d = Inr (v, e)" "primed m0 L (ys @ ops) e" "kept d e"
    using decodesD [OF assms(1)] d by (metis append.assoc)
  obtain d' where d': "g v e = Inr (w, d')" "primed m0 L ops d'" "kept e d'"
    using decodesD [OF assms(2) e(2)] by blast
  then show "\<exists>d'. bindE (f d) (\<lambda>(x, d). g x d) = Inr (w, d') \<and> primed m0 L ops d' \<and> kept d d'"
    using e kept_trans by auto
qed

lemma decodes_bit: "decodes m0 L [Bit i b] (decode_bit cb i) b"
  using decode_bit_primed by (auto simp: decodes_def)

lemma decodes_bit_bind:
  assumes "decodes m0 L ys (g b) w"
  shows "decodes m0 L (Bit i b # ys) (\<lambda>d. bindE (decode_bit cb i d) (\<lambda>(x, d). g x d)) w"
  using decodes_bind [where g = g, OF decodes_bit assms] by simp

lemma decodes_map:
  assumes "decodes m0 L xs f v"
  shows "decodes m0 L xs (\<lambda>d. bindE (f d) (\<lambda>(x, d). Inr (h x, d))) (h v)"
  using decodes_bind [OF assms decodes_return] by simp

lemma decodes_tree_loop:
  "decodes m0 L (tree_ops base n res v) (bit_tree_loop cb base n res) (res * 2 ^ n + v mod 2 ^ n)"
proof (induction n arbitrary: res)
  case 0
  then show ?case using decodes_return by simp
next
  case (Suc n)
  let ?res = "2 * res + of_bool (bit v n)"
  have val: "res * 2 ^ Suc n + v mod 2 ^ Suc n = ?res * 2 ^ n + v mod 2 ^ n"
    unfolding mod_Suc_bit by (simp add: algebra_simps)
  have step: "bit_tree_loop cb base (Suc n) res =
      (\<lambda>d. bindE (decode_bit cb (base + res) d) (\<lambda>(b, d). bit_tree_loop cb base n (2 * res + of_bool b) d))"
    by (rule ext) simp
  show ?case unfolding step val tree_ops.simps by (rule decodes_bit_bind) (rule Suc.IH)
qed

lemma decodes_tree:
  assumes "v < 2 ^ n"
  shows "decodes m0 L (tree_ops base n 1 v) (bit_tree cb base n) v"
  using decodes_map [OF decodes_tree_loop [of m0 L base n 1 v], of "\<lambda>r. r - 2 ^ n"] assms
  by (simp add: bit_tree_def [abs_def])

lemma decodes_lit_loop:
  "k \<le> n \<Longrightarrow> partial k s \<Longrightarrow> decodes m0 L (tree_ops base k s c) (lit_loop cb base n s) (s * 2 ^ k + c mod 2 ^ k)"
proof (induction n arbitrary: k s)
  case 0
  then show ?case using decodes_return by simp
next
  case (Suc n)
  show ?case
  proof (cases k)
    case 0
    then show ?thesis using Suc.prems partial_0 decodes_return by simp
  next
    case (Suc j)
    let ?s = "2 * s + of_bool (bit c j)"
    have s: "s < 0x100" "partial j ?s" using partial_Suc Suc.prems(2) Suc by auto
    have val: "s * 2 ^ Suc j + c mod 2 ^ Suc j = ?s * 2 ^ j + c mod 2 ^ j"
      unfolding mod_Suc_bit by (simp add: algebra_simps)
    have step: "lit_loop cb base (Suc n) s =
        (\<lambda>d. bindE (decode_bit cb (base + s) d) (\<lambda>(b, d). lit_loop cb base n (2 * s + of_bool b) d))"
      using s(1) by (intro ext) simp
    show ?thesis unfolding Suc step val tree_ops.simps
      using Suc.IH [of j ?s] Suc.prems(1) s(2) Suc by (intro decodes_bit_bind) simp
  qed
qed

lemma decodes_matched_loop:
  assumes "n \<le> 8" and "mb < 256" and "partial n s"
  shows "decodes m0 L (matched_ops base n mb s c)
    (\<lambda>d. bindE (matched_loop cb base n (mb * 2 ^ (8 - n)) s d) (\<lambda>(s, d). lit_loop cb base 8 s d)) (s * 2 ^ n + c mod 2 ^ n)"
  using assms
proof (induction n arbitrary: s)
  case 0
  then show ?case using decodes_lit_loop [of 0 8 s] by simp
next
  case (Suc n)
  let ?s = "2 * s + of_bool (bit c n)"
  note part = partial_Suc [OF Suc.prems(3)]
  have val: "s * 2 ^ Suc n + c mod 2 ^ Suc n = ?s * 2 ^ n + c mod 2 ^ n"
    unfolding mod_Suc_bit by (simp add: algebra_simps)
  have "8 - n = Suc (8 - Suc n)" using Suc.prems(1) by simp
  then have mb: "2 * (mb * 2 ^ (8 - Suc n)) = mb * 2 ^ (8 - n)" by simp
  have "bit (mb * 2 ^ (8 - n)) 8 \<longleftrightarrow> bit mb n"
    using Suc.prems(1) by (simp add: bit_push_bit_iff flip: push_bit_eq_mult)
  then have sel: "mb * 2 ^ (8 - n) AND 0x100 = (if bit mb n then 0x100 else 0)" by (simp add: and_0x100)
  let ?i = "base + 0x100 + (if bit mb n then 0x100 else 0) + s"
  have step: "(\<lambda>d. bindE (matched_loop cb base (Suc n) (mb * 2 ^ (8 - Suc n)) s d) (\<lambda>(s, d). lit_loop cb base 8 s d)) =
      (\<lambda>d. bindE (decode_bit cb ?i d) (\<lambda>(b, d).
         if b = bit mb n \<and> 2 * s + of_bool b < 0x100
         then bindE (matched_loop cb base n (mb * 2 ^ (8 - n)) (2 * s + of_bool b) d) (\<lambda>(s, d). lit_loop cb base 8 s d)
         else lit_loop cb base 8 (2 * s + of_bool b) d))"
    unfolding matched_loop.simps Let_def mb sel by (intro ext) (auto simp: bindE_assoc intro!: bindE_cong split: prod.splits)
  show ?case unfolding step val matched_ops.simps
  proof (rule decodes_bit_bind)
    show "decodes m0 L (let s' = ?s in if bit c n = bit mb n then matched_ops base n mb s' c else tree_ops base n s' c)
      (\<lambda>d. if bit c n = bit mb n \<and> ?s < 0x100
         then bindE (matched_loop cb base n (mb * 2 ^ (8 - n)) ?s d) (\<lambda>(s, d). lit_loop cb base 8 s d)
         else lit_loop cb base 8 ?s d) (?s * 2 ^ n + c mod 2 ^ n)"
    proof (cases "bit c n = bit mb n \<and> ?s < 0x100")
      case True
      have "n \<le> 8" using Suc.prems(1) by simp
      from Suc.IH [OF this Suc.prems(2) part(2)] show ?thesis
        unfolding Let_def if_P [OF True] if_P [OF conjunct1 [OF True]] .
    next
      case False
      have "n = 0" if "\<not> ?s < 0x100" using that part(2) partial_Suc(1) by (cases n) auto
      then have "(let s' = ?s in if bit c n = bit mb n then matched_ops base n mb s' c else tree_ops base n s' c) = tree_ops base n ?s c"
        using False by auto
      then show ?thesis using False decodes_lit_loop [of n 8 ?s] Suc.prems(1) part(2) by (simp only: if_False)
    qed
  qed
qed

lemma decodes_direct:
  "decodes m0 L (direct_ops n v) (direct_bits cb n r) (r * 2 ^ n + of_nat (v mod 2 ^ n))"
proof (induction n arbitrary: r)
  case 0
  then show ?case using decodes_return by simp
next
  case (Suc n)
  show ?case unfolding decodes_def
  proof (intro allI impI)
    fix ops d assume "primed m0 L (direct_ops (Suc n) v @ ops) d"
    then have d: "primed m0 L (Direct (bit v n) # (direct_ops n v @ ops)) d" by simp
    obtain e where e: "rc_normalize cb d = Inr e" "bit v n \<longleftrightarrow> drop_bit 1 (rc_range e) \<le> rc_code e"
      "let half = drop_bit 1 (rc_range e); d' = (if bit v n then e\<lparr>rc_range := half, rc_code := rc_code e - half\<rparr> else e\<lparr>rc_range := half\<rparr>)
       in primed m0 L (direct_ops n v @ ops) d' \<and> kept d d'"
      using direct_bit_primed [OF d] by blast
    define f where "f = (if bit v n then e\<lparr>rc_range := drop_bit 1 (rc_range e), rc_code := rc_code e - drop_bit 1 (rc_range e)\<rparr>
      else e\<lparr>rc_range := drop_bit 1 (rc_range e)\<rparr>)"
    have f: "primed m0 L (direct_ops n v @ ops) f" "kept d f" using e(3) unfolding f_def Let_def by (rule conjunct1, rule conjunct2)
    let ?r = "2 * r + of_bool (bit v n)"
    have "?r * 2 ^ n + of_nat (v mod 2 ^ n) = r * 2 ^ Suc n + of_nat (v mod 2 ^ Suc n)"
      unfolding mod_Suc_bit by (simp add: algebra_simps)
    then obtain d' where d': "direct_bits cb n ?r f = Inr (r * 2 ^ Suc n + of_nat (v mod 2 ^ Suc n), d')"
        "primed m0 L ops d'" "kept f d'"
      using decodesD [OF Suc.IH f(1), of ?r] by metis
    have "direct_bits cb (Suc n) r d = direct_bits cb n ?r f"
      using e(1,2) double_or_one [of r] by (simp add: f_def Let_def push_bit_eq_mult mult.commute)
    then show "\<exists>d'. direct_bits cb (Suc n) r d = Inr (r * 2 ^ Suc n + of_nat (v mod 2 ^ Suc n), d') \<and>
        primed m0 L ops d' \<and> kept d d'"
      using d' kept_trans [OF f(2)] by auto
  qed
qed

lemma or_low_step:
  "(if odd v then r OR push_bit k 1 else r) OR push_bit (Suc k) (of_nat (v div 2 mod 2 ^ n)) =
     r OR (push_bit k (of_nat (v mod 2 ^ Suc n)) :: u32)"
proof -
  have "v mod 2 ^ Suc n = of_bool (odd v) + 2 * (v div 2 mod 2 ^ n)"
    using mod_mult2_eq [of v 2 "2 ^ n"] by (simp add: mod_2_eq_odd)
  also have "\<dots> = of_bool (odd v) OR push_bit 1 (v div 2 mod 2 ^ n)"
    by (cases "odd v") (simp_all add: push_bit_eq_mult Suc_0_or_eq)
  finally have "(of_nat (v mod 2 ^ Suc n) :: u32) = of_bool (odd v) OR push_bit 1 (of_nat (v div 2 mod 2 ^ n))"
    by (simp add: of_nat_or_eq of_nat_push_bit)
  then show ?thesis by (simp add: push_bit_or or.assoc)
qed

lemma decodes_reverse:
  "decodes m0 L (rev_ops base n mi v) (reverse_tree cb base n mi (push_bit k 1) r) (r OR push_bit k (of_nat (v mod 2 ^ n)))"
proof (induction n arbitrary: mi k r v)
  case 0
  then show ?case using decodes_return by simp
next
  case (Suc n)
  have step: "reverse_tree cb base (Suc n) mi (push_bit k 1) r =
      (\<lambda>d. bindE (decode_bit cb (base + mi) d) (\<lambda>(b, d).
         reverse_tree cb base n (2 * mi + of_bool b) (push_bit (Suc k) 1) (if b then r OR push_bit k 1 else r) d))"
    unfolding reverse_tree.simps push_bit_push_bit plus_1_eq_Suc by (rule ext) simp
  show ?case unfolding step or_low_step [symmetric] rev_ops.simps
    by (rule decodes_bit_bind) (rule Suc.IH)
qed

lemma decodes_len:
  assumes "l < 272"
  shows "decodes m0 L (len_ops base posState l) (decode_len cb base posState) l"
proof -
  have tree: "decodes m0 L (tree_ops b n 1 v) (bit_tree cb b n) v"
    "decodes m0 L (tree_ops b n 1 v) (\<lambda>d. bindE (bit_tree cb b n d) (\<lambda>(x, d). Inr (x + k, d))) (v + k)"
    if "v < 2 ^ n" for b n v k
    using decodes_tree [OF that] decodes_map [OF decodes_tree [OF that], of _ _ _ "\<lambda>x. x + k"] by auto
  consider "l < 8" | "\<not> l < 8" "l < 16" | "\<not> l < 8" "\<not> l < 16" by blast
  then show ?thesis
  proof cases
    case 1
    then show ?thesis unfolding decode_len_def [abs_def] len_ops_def
      by (simp only: if_True) (intro decodes_bit_bind, simp only: not_False_eq_True if_True, rule tree(1), simp)
  next
    case 2
    then show ?thesis using tree(2) [of "l - 8" 3 _ 8] unfolding decode_len_def [abs_def] len_ops_def
      by (simp only: if_True if_False) (intro decodes_bit_bind, simp, intro decodes_bit_bind, simp)
  next
    case 3
    then show ?thesis using tree(2) [of "l - 16" 8 _ 16] assms unfolding decode_len_def [abs_def] len_ops_def
      by (simp only: if_True if_False) (intro decodes_bit_bind, simp, intro decodes_bit_bind, simp)
  qed
qed

text \<open>Distances: the slot, and the bits below the highest two.\<close>

lemma decodes_foot:
  assumes "v < 2 ^ 32"
  shows "decodes m0 L (foot_ops v) (distance_bits cb (dist_slot v)) (of_nat v)"
proof (cases "v < 4")
  case True
  then have "dist_slot v = v" by (simp add: dist_slot_def)
  then show ?thesis using True decodes_return by (simp add: foot_ops_def distance_bits_def [abs_def])
next
  case False
  define n where "n = high_bit v - 1"
  have four: "4 \<le> v" using False by simp
  note nd = dist_upper(2) [OF four assms, folded n_def] and r = dist_upper(3) [OF four assms, folded n_def]
    and high = dist_upper(4,5) [OF four assms, folded n_def]
  show ?thesis
  proof (cases "dist_slot v < 14")
    case True
    have "distance_bits cb (dist_slot v) = reverse_tree cb (SpecPos + (v - v mod 2 ^ n) - dist_slot v - 1) n 1 (push_bit 0 1) (push_bit n (of_nat (v div 2 ^ n)))"
      using True dist_upper(1) [OF four assms] by (intro ext) (simp only: distance_bits_def Let_def nd r high if_True push_bit_0_id id_apply)
    moreover have "foot_ops v = rev_ops (SpecPos + (v - v mod 2 ^ n) - dist_slot v - 1) n 1 v"
      using False True by (simp add: foot_ops_def Let_def n_def)
    ultimately show ?thesis
      using decodes_reverse [of m0 L "SpecPos + (v - v mod 2 ^ n) - dist_slot v - 1" n 1 v 0 "push_bit n (of_nat (v div 2 ^ n))"]
        push_bit_or_low [OF assms, of n] by simp
  next
    case big: False
    have n4: "4 \<le> n" using big nd by linarith
    have q: "v div 16 div 2 ^ (n - 4) = v div 2 ^ n"
      using n4 power_add [of "2 :: nat" 4 "n - 4"] by (simp flip: div_mult2_eq)
    have "(of_nat (v div 16) :: u32) = of_nat (v div 16 div 2 ^ (n - 4) * 2 ^ (n - 4) + v div 16 mod 2 ^ (n - 4))"
      by (simp only: div_mult_mod_eq)
    then have dir: "of_nat (v div 2 ^ n) * 2 ^ (n - 4) + of_nat (v div 16 mod 2 ^ (n - 4)) = (of_nat (v div 16) :: u32)"
      unfolding q by (simp only: of_nat_add of_nat_mult of_nat_power of_nat_numeral)
    have step: "distance_bits cb (dist_slot v) = (\<lambda>d. bindE (direct_bits cb (n - 4) (of_nat (v div 2 ^ n)) d)
        (\<lambda>(r, d). reverse_tree cb Align 4 1 (push_bit 0 1) (push_bit 4 r) d))"
      using big dist_upper(1) [OF four assms] by (intro ext) (simp only: distance_bits_def Let_def nd r if_True if_False push_bit_0_id id_apply)
    have "push_bit 4 (of_nat (v div 16)) OR of_nat (v mod 2 ^ 4) = (of_nat v :: u32)"
      using push_bit_or_low [OF assms, of 4] by simp
    then have "decodes m0 L (direct_ops (n - 4) (v div 16) @ rev_ops Align 4 1 v) (distance_bits cb (dist_slot v)) (of_nat v)"
      unfolding step using decodes_reverse [of m0 L Align 4 1 v 0 "push_bit 4 (of_nat (v div 16))"]
      by (intro decodes_bind [OF decodes_direct [of m0 L "n - 4" "v div 16" "of_nat (v div 2 ^ n)", unfolded dir]]) simp
    then show ?thesis using False big by (simp add: foot_ops_def Let_def n_def)
  qed
qed

lemma decodes_distance:
  assumes "v < 2 ^ 32"
  shows "decodes m0 L (dist_ops l v) (decode_distance cb l) (of_nat v)"
proof -
  have "dist_slot v < 2 ^ 6" using dist_slot_less [OF assms] by simp
  from decodes_bind [where g = "distance_bits cb", OF decodes_tree [OF this] decodes_foot [OF assms]]
  show ?thesis unfolding dist_ops_def decode_distance_def [abs_def] by blast
qed

end

end
