(* ===== verification/LzmaPackets.thy ===== *)
theory LzmaPackets
  imports LzmaSymbols
begin

text \<open>
  An LZMA stream as a list of packets: a byte, a copy from a new distance, a copy from one of
  the four recent distances, or a single byte from the most recent one. \<open>apply_packet\<close> says what a
  packet means for the text written so far, \<open>packet_ops\<close> which bits of the range code stand for it,
  \<open>lzma_encode\<close> gives the bytes. The decoder, fed with them, writes the text.
\<close>

section \<open>Packets\<close>

datatype packet = Byte u8 | Match nat nat | Rep nat nat | Short

text \<open>The text, the state of the coder and the recent distances, the last one first.\<close>

record lz_coder =
  lz_text :: "u8 list"
  lz_st :: nat
  lz_dists :: "nat list"

definition lz_start :: lz_coder where
  "lz_start = \<lparr>lz_text = [], lz_st = 0, lz_dists = [1, 1, 1, 1]\<rparr>"

definition move_front :: "nat \<Rightarrow> nat list \<Rightarrow> nat list" where
  "move_front i ds = ds ! i # take i ds @ drop (Suc i) ds"

fun apply_packet :: "packet \<Rightarrow> lz_coder \<Rightarrow> lz_coder" where
  "apply_packet (Byte c) s =
     s\<lparr>lz_text := lz_text s @ [c], lz_st := if lz_st s < 4 then 0 else if lz_st s < 10 then lz_st s - 3 else lz_st s - 6\<rparr>"
| "apply_packet (Match dist n) s =
     s\<lparr>lz_text := lz_copy dist n (lz_text s), lz_st := state_after 7 10 (lz_st s), lz_dists := dist # take 3 (lz_dists s)\<rparr>"
| "apply_packet (Rep i n) s =
     s\<lparr>lz_text := lz_copy (lz_dists s ! i) n (lz_text s), lz_st := state_after 8 11 (lz_st s), lz_dists := move_front i (lz_dists s)\<rparr>"
| "apply_packet Short s =
     s\<lparr>lz_text := lz_copy (lz_dists s ! 0) 1 (lz_text s), lz_st := state_after 9 11 (lz_st s)\<rparr>"

text \<open>A copy refers to text already written and has a length from 2 to 273.\<close>

fun packet_ok :: "lz_coder \<Rightarrow> packet \<Rightarrow> bool" where
  "packet_ok s (Byte c) \<longleftrightarrow> True"
| "packet_ok s (Match dist n) \<longleftrightarrow> 0 < dist \<and> dist \<le> length (lz_text s) \<and> 2 \<le> n \<and> n \<le> 273"
| "packet_ok s (Rep i n) \<longleftrightarrow> i < 4 \<and> lz_dists s ! i \<le> length (lz_text s) \<and> 2 \<le> n \<and> n \<le> 273"
| "packet_ok s Short \<longleftrightarrow> lz_dists s ! 0 \<le> length (lz_text s)"

text \<open>What can be sent at all: a copy may also refer to bytes before the start of the text, and the
  distance \<open>2 ^ 32\<close> is the mark for the end of the stream.\<close>

fun sendable :: "packet \<Rightarrow> bool" where
  "sendable (Match dist n) \<longleftrightarrow> 0 < dist \<and> dist \<le> 2 ^ 32 \<and> 2 \<le> n \<and> n \<le> 273"
| "sendable (Rep i n) \<longleftrightarrow> i < 4 \<and> 2 \<le> n \<and> n \<le> 273"
| "sendable p \<longleftrightarrow> True"

fun end_mark :: "packet \<Rightarrow> bool" where
  "end_mark (Match dist n) \<longleftrightarrow> dist = 2 ^ 32"
| "end_mark p \<longleftrightarrow> False"

text \<open>A copy ends where the output ends.\<close>

fun fit_packet :: "nat \<Rightarrow> lz_coder \<Rightarrow> packet \<Rightarrow> packet" where
  "fit_packet lim s (Match dist n) = Match dist (min n (lim - length (lz_text s)))"
| "fit_packet lim s (Rep i n) = Rep i (min n (lim - length (lz_text s)))"
| "fit_packet lim s p = p"

section \<open>Their bits\<close>

definition pos_state :: "lzma_props \<Rightarrow> lz_coder \<Rightarrow> nat" where
  "pos_state pr s = length (lz_text s) mod 2 ^ pb pr"

definition prev_of :: "u8 list \<Rightarrow> u8" where
  "prev_of out = (if out = [] then 0 else last out)"

definition byte_base :: "lzma_props \<Rightarrow> lz_coder \<Rightarrow> nat" where
  "byte_base pr s = Literal + LZMA_LIT_SIZE *
     ((length (lz_text s) mod 2 ^ lp pr) * 2 ^ lc pr + unat (prev_of (lz_text s)) div 2 ^ (8 - lc pr))"

definition byte_ops :: "lzma_props \<Rightarrow> lz_coder \<Rightarrow> u8 \<Rightarrow> code_op list" where
  "byte_ops pr s c =
     (if lz_st s < kNumLitStates then tree_ops (byte_base pr s) 8 1 (unat c)
      else matched_ops (byte_base pr s) 8 (unat (lz_text s ! (length (lz_text s) - lz_dists s ! 0))) 1 (unat c))"

definition rep_ops :: "nat \<Rightarrow> nat \<Rightarrow> nat \<Rightarrow> code_op list" where
  "rep_ops st ps i =
     (if i = 0 then [Bit (IsRepG0 + st) False, Bit (IsRep0Long + st * 16 + ps) True]
      else if i = 1 then [Bit (IsRepG0 + st) True, Bit (IsRepG1 + st) False]
      else [Bit (IsRepG0 + st) True, Bit (IsRepG1 + st) True, Bit (IsRepG2 + st) (i \<noteq> 2)])"

fun packet_ops :: "lzma_props \<Rightarrow> lz_coder \<Rightarrow> packet \<Rightarrow> code_op list" where
  "packet_ops pr s (Byte c) = Bit (IsMatch + lz_st s * 16 + pos_state pr s) False # byte_ops pr s c"
| "packet_ops pr s (Match dist n) =
     Bit (IsMatch + lz_st s * 16 + pos_state pr s) True # Bit (IsRep + lz_st s) False #
     len_ops LenCoder (pos_state pr s) (n - 2) @ dist_ops (n - 2) (dist - 1)"
| "packet_ops pr s (Rep i n) =
     Bit (IsMatch + lz_st s * 16 + pos_state pr s) True # Bit (IsRep + lz_st s) True #
     rep_ops (lz_st s) (pos_state pr s) i @ len_ops RepLenCoder (pos_state pr s) (n - 2)"
| "packet_ops pr s Short =
     [Bit (IsMatch + lz_st s * 16 + pos_state pr s) True, Bit (IsRep + lz_st s) True,
      Bit (IsRepG0 + lz_st s) False, Bit (IsRep0Long + lz_st s * 16 + pos_state pr s) False]"

text \<open>A list of packets: its text, whether its copies are in order, its bits.\<close>

primrec run_packets :: "packet list \<Rightarrow> lz_coder \<Rightarrow> lz_coder" where
  "run_packets [] s = s"
| "run_packets (p # ps) s = run_packets ps (apply_packet p s)"

primrec packets_ok :: "packet list \<Rightarrow> lz_coder \<Rightarrow> bool" where
  "packets_ok [] s \<longleftrightarrow> True"
| "packets_ok (p # ps) s \<longleftrightarrow> packet_ok s p \<and> packets_ok ps (apply_packet p s)"

primrec packets_ops :: "lzma_props \<Rightarrow> packet list \<Rightarrow> lz_coder \<Rightarrow> code_op list" where
  "packets_ops pr [] s = []"
| "packets_ops pr (p # ps) s = packet_ops pr s p @ packets_ops pr ps (apply_packet p s)"

definition first_interval :: "lzma_props \<Rightarrow> packet list \<Rightarrow> nat \<times> nat \<times> nat" where
  "first_interval pr ps = code_interval (2 ^ 32 - 1) (replicate (LzmaGetNumProbs pr) 1024) (packets_ops pr ps lz_start)"

text \<open>The bytes: a zero, a place in the interval, and one byte that the decoder may look at in the end.\<close>

definition lzma_encode :: "lzma_props \<Rightarrow> packet list \<Rightarrow> u8 list" where
  "lzma_encode pr ps = (case first_interval pr ps of (lo, w, n) \<Rightarrow> 0 # num_bytes (4 + n) lo @ [0])"

text \<open>Any string of bytes that stands for the packets; \<open>spare\<close> of them are never looked at.\<close>

definition lzma_codes :: "nat \<Rightarrow> lzma_props \<Rightarrow> packet list \<Rightarrow> u8 list \<Rightarrow> bool" where
  "lzma_codes spare pr ps body \<longleftrightarrow> packets_ok ps lz_start \<and> 5 \<le> length body \<and>
     selects spare (bytes_num (take 4 (drop 1 body))) (drop 5 body) (first_interval pr ps)"

text \<open>The same for any packets that can be sent.\<close>

definition stream_codes :: "nat \<Rightarrow> lzma_props \<Rightarrow> packet list \<Rightarrow> u8 list \<Rightarrow> bool" where
  "stream_codes spare pr ps body \<longleftrightarrow> list_all sendable ps \<and> 5 \<le> length body \<and>
     selects spare (bytes_num (take 4 (drop 1 body))) (drop 5 body) (first_interval pr ps)"

lemma lz_coder_all [simp]: "s\<lparr>lz_text := t, lz_st := a, lz_dists := ds\<rparr> = \<lparr>lz_text = t, lz_st = a, lz_dists = ds\<rparr>" for s :: lz_coder
  by (cases s) simp

section \<open>Text grows\<close>

lemma apply_packet_longer: "packet_ok s p \<Longrightarrow> length (lz_text s) < length (lz_text (apply_packet p s))"
  by (cases p) auto

lemma sendable_ok: "packet_ok s p \<Longrightarrow> length (lz_text s) \<le> 2 ^ 32 \<Longrightarrow> sendable p"
  by (cases p) auto

lemma packet_ok_no_mark: "packet_ok s p \<Longrightarrow> length (lz_text s) < 2 ^ 32 \<Longrightarrow> \<not> end_mark p"
  by (cases p) auto

lemma fit_packet_room: "length (lz_text (apply_packet p s)) \<le> lim \<Longrightarrow> fit_packet lim s p = p"
  by (cases p) auto

lemma run_packets_longer: "packets_ok ps s \<Longrightarrow> length (lz_text s) \<le> length (lz_text (run_packets ps s))"
proof (induction ps arbitrary: s)
  case (Cons p ps)
  then show ?case using apply_packet_longer [of s p] by (auto intro: less_imp_le less_le_trans)
qed simp

section \<open>The bits of a packet lie within the table\<close>

lemma byte_base_bound: "lc pr \<le> 8 \<Longrightarrow> byte_base pr s + 0x300 \<le> LzmaGetNumProbs pr"
  using lit_offset_bound [of "length (lz_text s) mod 2 ^ lp pr" "lp pr" "lc pr" "prev_of (lz_text s)"]
  by (simp add: byte_base_def LzmaGetNumProbs_def LZMA_LIT_SIZE_def Literal_base)

lemma within_packet:
  assumes "lc pr \<le> 8" and "pb pr \<le> 4" and st: "lz_st s < 12" and "sendable p"
  shows "within (LzmaGetNumProbs pr) (packet_ops pr s p)"
proof -
  let ?L = "LzmaGetNumProbs pr"
  have L: "1846 \<le> ?L" by (simp add: LzmaGetNumProbs_def LZMA_BASE_SIZE_def)
  have "pos_state pr s < 2 ^ pb pr" by (simp add: pos_state_def)
  also have "\<dots> \<le> 2 ^ 4" using assms(2) by (intro power_increasing) simp_all
  finally have ps: "pos_state pr s < 16" by simp
  have heads: "IsMatch + lz_st s * 16 + pos_state pr s < ?L" "IsRep + lz_st s < ?L" "IsRepG0 + lz_st s < ?L"
    "IsRepG1 + lz_st s < ?L" "IsRepG2 + lz_st s < ?L" "IsRep0Long + lz_st s * 16 + pos_state pr s < ?L"
    using L st ps by (simp_all add: layout_consts)
  have lens: "within ?L (len_ops LenCoder (pos_state pr s) n)" "within ?L (len_ops RepLenCoder (pos_state pr s) n)" for n
    using within_len [OF _ ps] L by (simp_all add: layout_consts)
  show ?thesis
  proof (cases p)
    case (Byte c)
    have "partial 8 1" by (simp add: partial_def)
    then have "within ?L (byte_ops pr s c)"
      using within_literal [of 8 1 "byte_base pr s" ?L] within_matched [of 8 1 "byte_base pr s" ?L] byte_base_bound [OF assms(1), of s]
      by (simp add: byte_ops_def)
    then show ?thesis using heads Byte by simp
  next
    case (Match dist n)
    then have "dist - 1 < 2 ^ 32" using assms(4) by auto
    then show ?thesis using heads lens within_dist [OF L] Match by simp
  next
    case (Rep i n)
    have "within ?L (rep_ops (lz_st s) (pos_state pr s) i)" using heads by (simp add: rep_ops_def)
    then show ?thesis using heads lens Rep by simp
  qed (use heads in simp)
qed

lemma apply_packet_st: "lz_st s < 12 \<Longrightarrow> lz_st (apply_packet p s) < 12"
  by (cases p) (auto simp: state_after_def)

lemma within_packets:
  "lc pr \<le> 8 \<Longrightarrow> pb pr \<le> 4 \<Longrightarrow> lz_st s < 12 \<Longrightarrow> list_all sendable ps \<Longrightarrow>
     within (LzmaGetNumProbs pr) (packets_ops pr ps s)"
proof (induction ps arbitrary: s)
  case (Cons p ps)
  then show ?case using within_packet [of pr s p] apply_packet_st [of s p] by simp
qed simp

lemma packets_sendable:
  "packets_ok ps s \<Longrightarrow> length (lz_text (run_packets ps s)) < 2 ^ 32 \<Longrightarrow> list_all sendable ps"
proof (induction ps arbitrary: s)
  case (Cons p ps)
  have "length (lz_text s) < length (lz_text (apply_packet p s))" using Cons.prems(1) by (simp add: apply_packet_longer)
  also have "\<dots> \<le> length (lz_text (run_packets ps (apply_packet p s)))" using Cons.prems(1) by (simp add: run_packets_longer)
  finally show ?case using sendable_ok [of s p] Cons.IH [of "apply_packet p s"] Cons.prems by simp
qed simp

lemma lzma_codes_stream:
  "lzma_codes spare pr ps body \<Longrightarrow> length (lz_text (run_packets ps lz_start)) < 2 ^ 32 \<Longrightarrow> stream_codes spare pr ps body"
  using packets_sendable [of ps lz_start] by (simp add: lzma_codes_def stream_codes_def)

section \<open>The decoder on packets\<close>

lemma unat_and_low: "unat (x AND (push_bit n 1 - 1) :: u32) = unat x mod 2 ^ n"
proof -
  have "push_bit n 1 - 1 = (mask n :: u32)" by (simp add: mask_eq_exp_minus_1 push_bit_eq_mult)
  then have "unat (x AND (push_bit n 1 - 1)) = take_bit n (unat x)"
    by (simp add: take_bit_eq_mask [symmetric] unsigned_take_bit_eq)
  then show ?thesis by (simp add: take_bit_eq_mod)
qed

lemma bindE_pair: "bindE r (\<lambda>(x, d). bindE (f x d) g) = bindE (bindE r (\<lambda>(x, d). f x d)) g"
  by (cases r) auto

locale lzma_coded = lzma_feed cb inv touch dest rest spare + lzma_run cb inv touch dest J m0
  for cb :: "machine \<Rightarrow> 'p \<Rightarrow> (int \<times> addr \<times> u32 \<times> machine \<times> 'p) option"
    and inv :: "machine \<Rightarrow> 'p \<Rightarrow> bool"
    and touch :: "addr \<Rightarrow> bool" and dest :: "addr \<Rightarrow> bool"
    and rest :: "machine \<Rightarrow> 'p \<Rightarrow> u8 list" and spare :: nat
    and J :: job and m0 :: machine
begin

text \<open>The decoder's variables for a state of the coder.\<close>

definition models :: "lz_coder \<Rightarrow> 'p lzma \<Rightarrow> bool" where
  "models s d \<longleftrightarrow> written J d = lz_text s \<and> lz_state d = lz_st s \<and> prev_byte d = prev_of (lz_text s) \<and>
     map unat [rep0 d, rep1 d, rep2 d, rep3 d] = lz_dists s \<and> now_pos d \<le> out_size J"

lemma models_pos: "models s d \<Longrightarrow> unat (now_pos d) = length (lz_text s)"
  using length_written [of J d] by (simp add: models_def)

lemma models_dists: "models s d \<Longrightarrow> lz_dists s = [unat (rep0 d), unat (rep1 d), unat (rep2 d), unat (rep3 d)]"
  by (simp add: models_def)

lemma models_fields:
  assumes "models s d"
  shows "lz_state d = lz_st s" and "unat (rep0 d) = lz_dists s ! 0" and "unat (rep1 d) = lz_dists s ! 1"
    and "unat (rep2 d) = lz_dists s ! 2" and "unat (rep3 d) = lz_dists s ! 3"
proof -
  have "lz_state d = lz_st s" using assms by (simp add: models_def)
  with models_dists [OF assms] show "lz_state d = lz_st s" "unat (rep0 d) = lz_dists s ! 0" "unat (rep1 d) = lz_dists s ! 1"
    "unat (rep2 d) = lz_dists s ! 2" "unat (rep3 d) = lz_dists s ! 3" by simp_all
qed

text \<open>The fields that do not matter to the input.\<close>

lemma primed_cong:
  "mach d' = mach d \<Longrightarrow> pvt d' = pvt d \<Longrightarrow> probs d' = probs d \<Longrightarrow> buffer d' = buffer d \<Longrightarrow> buffer_lim d' = buffer_lim d \<Longrightarrow>
    rc_range d' = rc_range d \<Longrightarrow> rc_code d' = rc_code d \<Longrightarrow> primed m L ops d' = primed m L ops d"
  by (simp add: primed_def fed_def calm_def input_def)

lemma written_kept:
  assumes "kept d e" and "now_pos d \<le> out_size J"
  shows "written J e = written J d"
proof -
  have pos: "now_pos e = now_pos d" using assms(1) by (simp add: kept_def same_def)
  have "mem (mach e) (out_stream J + of_nat i) = mem (mach d) (out_stream J + of_nat i)" if "i < unat (now_pos d)" for i
  proof -
    have "in_range (out_stream J) (unat (out_size J)) (out_stream J + of_nat i)"
      using that assms(2) unat_u32_le [of "out_size J"] by (intro in_range_offset) (auto simp: word_le_nat_alt)
    then have "dest (out_stream J + of_nat i)" by (rule room)
    then show ?thesis using assms(1) by (simp add: kept_def)
  qed
  then show ?thesis unfolding written_def pos by (intro mem_read_cong)
qed

lemma models_kept: "models s d \<Longrightarrow> kept d e \<Longrightarrow> models s e"
  using written_kept [of d e] by (auto simp: models_def kept_def same_def)

text \<open>Storing a byte does not disturb the input.\<close>

lemma put_byte_fed:
  assumes fed: "fed m1 L d" and "now_pos d < out_size J"
  shows "fed m1 L (put_byte J c d)" and "input (put_byte J c d) = input d"
proof -
  have at: "dest (out_stream J + now_pos d)"
    using assms(2) by (intro room) (simp add: in_range_def word_less_nat_alt)
  have inv: "inv (mach d) (pvt d)" using fed by (simp add: fed_def calm_def)
  have "touch (buffer d + of_nat i)" if "i < unat (buffer_lim d - buffer d)" for i
    using fed in_range_offset [OF that, of "buffer d"] unat_u32_le [of "buffer_lim d - buffer d"] by (simp add: fed_def)
  then have "buffer d + of_nat i \<noteq> out_stream J + now_pos d" if "i < unat (buffer_lim d - buffer d)" for i
    using that at touch_dest [OF inv] by metis
  then have "mem_read (mem (store_at (mach d) (out_stream J + now_pos d) c)) (buffer d) (unat (buffer_lim d - buffer d)) =
      mem_read (mem (mach d)) (buffer d) (unat (buffer_lim d - buffer d))"
    by (intro mem_read_cong) simp
  then show "input (put_byte J c d) = input d"
    using rest_store [OF inv at] by (simp add: input_def put_byte_def)
  show "fed m1 L (put_byte J c d)"
    using fed at inv_store [OF inv at] by (simp add: fed_def calm_def put_byte_def framed_def)
qed

lemma put_byte_primed:
  assumes "primed m0 L ops d" and "now_pos d < out_size J"
  shows "primed m0 L ops (put_byte J c d)"
proof -
  have "fed m0 L d" using assms(1) by (simp add: primed_def)
  note put_byte_fed [OF this assms(2), of c]
  then show ?thesis using assms(1) by (simp add: primed_def) (simp add: put_byte_def)
qed

text \<open>A copy: the text on lists, and the rest of the decoder as it was.\<close>

lemma copy_match_primed:
  assumes "primed m0 L ops d" and "0 < len" and "rep0 d \<noteq> 0" and "rep0 d \<le> now_pos d" and "now_pos d < out_size J"
  shows "\<exists>e. copy_match J len d = Inr e \<and> primed m0 L ops e \<and>
    written J e = lz_copy (unat (rep0 d)) (min len (unat (out_size J) - unat (now_pos d))) (written J d) \<and>
    prev_byte e = last (written J e) \<and> now_pos e \<le> out_size J \<and> lz_state e = lz_state d \<and>
    rep0 e = rep0 d \<and> rep1 e = rep1 d \<and> rep2 e = rep2 d \<and> rep3 e = rep3 d"
  using assms
proof (induction len arbitrary: d)
  case (Suc n)
  note lt = Suc.prems(5)
  let ?c = "written J d ! (unat (now_pos d) - unat (rep0 d))"
  let ?d = "put_byte J ?c d"
  note byte = out_byte_written [OF Suc.prems(3,4), of J] and wr = put_byte_written [OF lt, of ?c] and pos = put_byte_pos [OF lt, of ?c]
  note primed = put_byte_primed [OF Suc.prems(1) lt, of ?c]
  have room: "unat (out_size J) - unat (now_pos d) = Suc (unat (out_size J) - unat (now_pos ?d))"
    using lt pos by (simp add: word_less_nat_alt)
  show ?case
  proof (cases "n \<noteq> 0 \<and> now_pos ?d < out_size J")
    case False
    then have "min (Suc n) (unat (out_size J) - unat (now_pos d)) = Suc 0"
      unfolding room by (auto simp: word_less_nat_alt)
    then show ?thesis using False primed pos lt
      by (subst copy_match.simps) (auto simp: byte Let_def wr word_le_nat_alt word_less_nat_alt, simp_all add: put_byte_def)
  next
    case True
    have "rep0 ?d \<le> now_pos ?d" using pos Suc.prems(4) by (simp add: word_le_nat_alt)
    moreover obtain e where "copy_match J n ?d = Inr e" "primed m0 L ops e"
      "written J e = lz_copy (unat (rep0 ?d)) (min n (unat (out_size J) - unat (now_pos ?d))) (written J ?d)"
      "prev_byte e = last (written J e)" "now_pos e \<le> out_size J" "lz_state e = lz_state ?d"
      "rep0 e = rep0 ?d" "rep1 e = rep1 ?d" "rep2 e = rep2 ?d" "rep3 e = rep3 ?d"
      using Suc.IH [OF primed] True Suc.prems(3) calculation by auto
    ultimately show ?thesis using True
      by (subst copy_match.simps) (simp add: byte Let_def wr room)
  qed
qed simp

text \<open>A byte.\<close>

lemma lit_base_models: "models s d \<Longrightarrow> lit_base J d = byte_base (props J) s"
  using models_pos [of s d] unfolding lit_base_def byte_base_def Let_def unat_and_low by (simp add: models_def)

lemma literal_symbol:
  assumes d: "primed m0 nprobs (byte_ops (props J) s c @ ops) d" and good: "good J d" and s: "models s d"
  shows "\<exists>e. bindE (if lz_state d \<ge> kNumLitStates then
           bindE (out_byte J d) (\<lambda>mb. matched_loop cb (lit_base J d) 8 (unat mb) 1 d) else Inr (1, d))
        (\<lambda>(symbol, f). lit_loop cb (lit_base J d) 8 symbol f) = Inr (0x100 + unat c, e) \<and>
      primed m0 nprobs ops e \<and> kept d e"
proof -
  note base = lit_base_models [OF s]
  have c: "unat c < 256" using unsigned_less [of c] by simp
  have one: "partial 8 1" by (simp add: partial_def)
  show ?thesis
  proof (cases "lz_st s < kNumLitStates")
    case True
    then have ops: "primed m0 nprobs (tree_ops (byte_base (props J) s) 8 1 (unat c) @ ops) d"
      using d by (simp add: byte_ops_def)
    from decodesD [OF decodes_lit_loop [OF order_refl one] ops]
    show ?thesis using True models_fields(1) [OF s] c by (auto simp: base)
  next
    case False
    then have st: "kNumLitStates \<le> lz_state d" using models_fields(1) [OF s] by simp
    then have "rep0 d \<noteq> 0" "rep0 d \<le> now_pos d"
      using good rep_ok_le [of "now_pos d" "rep0 d"] by (auto simp: good_def sane_def rep_ok_def)
    note byte = out_byte_written [OF this, of J]
    let ?mb = "lz_text s ! (length (lz_text s) - lz_dists s ! 0)"
    have mb: "out_byte J d = Inr ?mb"
      using byte models_pos [OF s] models_fields(2) [OF s] s by (simp add: models_def)
    have ops: "primed m0 nprobs (matched_ops (byte_base (props J) s) 8 (unat ?mb) 1 (unat c) @ ops) d"
      using d False by (simp add: byte_ops_def)
    have "unat ?mb < 256" using unsigned_less [of ?mb] by simp
    from decodesD [OF decodes_matched_loop [OF order_refl this one] ops]
    show ?thesis using st c by (auto simp: base mb)
  qed
qed

lemma decode_literal_packet:
  assumes d: "primed m0 nprobs (byte_ops (props J) s c @ ops) d" and good: "good J d" and s: "models s d"
    and lt: "now_pos d < out_size J"
  shows "\<exists>e. decode_literal cb J d = Inr e \<and> primed m0 nprobs ops e \<and> models (apply_packet (Byte c) s) e"
proof -
  obtain e where run: "bindE (if lz_state d \<ge> kNumLitStates then
           bindE (out_byte J d) (\<lambda>mb. matched_loop cb (lit_base J d) 8 (unat mb) 1 d) else Inr (1, d))
        (\<lambda>(symbol, f). lit_loop cb (lit_base J d) 8 symbol f) = Inr (0x100 + unat c, e)"
    and e: "primed m0 nprobs ops e" "kept d e"
    using literal_symbol [OF d good s] by blast
  let ?p = "put_byte J c e"
  have se: "models s e" by (rule models_kept [OF s e(2)])
  have lt': "now_pos e < out_size J" using lt e(2) by (simp add: kept_def same_def)
  have byte: "(of_nat (0x100 + unat c) :: u8) = c" by simp
  define st where "st = (if lz_state ?p < 4 then 0 else if lz_state ?p < 10 then lz_state ?p - 3 else lz_state ?p - 6)"
  have "decode_literal cb J d = Inr (?p\<lparr>lz_state := st\<rparr>)"
    unfolding decode_literal_def Let_def bindE_pair run st_def byte bindE.simps prod.case ..
  moreover have "primed m0 nprobs ops (?p\<lparr>lz_state := st\<rparr>)"
    using put_byte_primed [OF e(1) lt', of c] by (subst primed_cong [of _ ?p]) simp_all
  moreover have "models (apply_packet (Byte c) s) (?p\<lparr>lz_state := st\<rparr>)"
    using se put_byte_written [OF lt', of c] put_byte_pos [OF lt', of c] lt'
    by (auto simp: models_def st_def prev_of_def written_def put_byte_def word_le_nat_alt word_less_nat_alt)
  ultimately show ?thesis by blast
qed

text \<open>The copy of a packet, once its distance and length are known: the text of the packet as far as
  there is room, or the data error when it reaches back too far.\<close>

definition copied :: "bool \<Rightarrow> code_op list \<Rightarrow> lz_coder \<Rightarrow> ('p, 'p round) run \<Rightarrow> bool" where
  "copied fine ops s r \<longleftrightarrow>
     (if fine then \<exists>e. r = Inr (Next e) \<and> primed m0 nprobs ops e \<and> models s e
      else \<exists>m q. r = Inl (Result LZMA_RESULT_DATA_ERROR, m, q))"

lemma copy_packet:
  assumes "primed m0 nprobs ops f" and "0 < n" and "rep0 f \<noteq> 0" and lt: "now_pos f < out_size J"
  shows "copied (unat (rep0 f) \<le> unat (now_pos f)) ops
    \<lparr>lz_text = lz_copy (unat (rep0 f)) (min n (unat (out_size J) - unat (now_pos f))) (written J f), lz_st = lz_state f,
      lz_dists = map unat [rep0 f, rep1 f, rep2 f, rep3 f]\<rparr>
    (if rep0 f > now_pos f then fail (Result LZMA_RESULT_DATA_ERROR) f else bindE (copy_match J n f) (\<lambda>d. Inr (Next d)))"
proof (cases "rep0 f \<le> now_pos f")
  case False
  then have "now_pos f < rep0 f" "\<not> unat (rep0 f) \<le> unat (now_pos f)" by (simp_all add: word_le_nat_alt word_less_nat_alt)
  then show ?thesis by (simp add: copied_def fail_def)
next
  case le: True
  let ?n = "min n (unat (out_size J) - unat (now_pos f))"
  obtain e where e: "copy_match J n f = Inr e" "primed m0 nprobs ops e" "written J e = lz_copy (unat (rep0 f)) ?n (written J f)"
    "prev_byte e = last (written J e)" "now_pos e \<le> out_size J" "lz_state e = lz_state f"
    "rep0 e = rep0 f" "rep1 e = rep1 f" "rep2 e = rep2 f" "rep3 e = rep3 f"
    using copy_match_primed [OF assms(1-3) le lt] by blast
  have "0 < ?n" using assms(2) lt by (simp add: word_less_nat_alt)
  then have "written J e \<noteq> []" unfolding e(3) by (simp flip: length_greater_0_conv)
  then have "prev_byte e = prev_of (written J e)" using e(4) by (auto simp: prev_of_def)
  moreover have "\<not> rep0 f > now_pos f" "unat (rep0 f) \<le> unat (now_pos f)" using le by (simp, simp add: word_le_nat_alt)
  ultimately show ?thesis using e by (simp add: copied_def models_def)
qed

text \<open>The rest of a packet, from its length on.\<close>

lemma decode_match_old:
  assumes d: "primed m0 nprobs (len_ops base ps (n - 2) @ ops) d" and n: "2 \<le> n" "n \<le> 273" and st: "7 \<le> lz_state d"
    and rep: "rep0 d \<noteq> 0" and lt: "now_pos d < out_size J"
  shows "copied (unat (rep0 d) \<le> unat (now_pos d)) ops
    \<lparr>lz_text = lz_copy (unat (rep0 d)) (min n (unat (out_size J) - unat (now_pos d))) (written J d), lz_st = lz_state d,
      lz_dists = map unat [rep0 d, rep1 d, rep2 d, rep3 d]\<rparr> (decode_match cb J base ps d)"
proof -
  have "n - 2 < 272" using n by simp
  from decodesD [OF decodes_len [OF this] d]
  obtain f where f: "decode_len cb base ps d = Inr (n - 2, f)" "primed m0 nprobs ops f" "kept d f" by blast
  have same: "lz_state f = lz_state d" "now_pos f = now_pos d" "rep0 f = rep0 d" "rep1 f = rep1 d" "rep2 f = rep2 d" "rep3 f = rep3 d"
    using f(3) by (simp_all add: kept_def same_def)
  have wr: "written J f = written J d" using f(3) lt by (intro written_kept) simp_all
  have len: "n - 2 + 2 = n" using n by simp
  have "\<not> lz_state f < 4" using st same by simp
  then have "decode_match cb J base ps d = (if rep0 f > now_pos f then fail (Result LZMA_RESULT_DATA_ERROR) f
      else bindE (copy_match J n f) (\<lambda>d. Inr (Next d)))"
    unfolding decode_match_def f(1) bindE.simps prod.case len by simp
  then show ?thesis using copy_packet [OF f(2), of n] n rep lt same by (simp add: wr)
qed

text \<open>A new distance is read; \<open>0\<close> stands for \<open>2 ^ 32\<close> and stops the decoder.\<close>

lemma new_distance:
  assumes d: "primed m0 nprobs (len_ops base ps (n - 2) @ dist_ops (n - 2) (dist - 1) @ ops) d" and n: "2 \<le> n" "n \<le> 273"
    and st: "lz_state d < 4" and dist: "0 < dist" "dist \<le> 2 ^ 32" and lt: "now_pos d < out_size J"
  shows "\<exists>g. decode_match cb J base ps d = (if rep0 g = 0 then Inr (Stop g)
        else if rep0 g > now_pos g then fail (Result LZMA_RESULT_DATA_ERROR) g
        else bindE (copy_match J n g) (\<lambda>d. Inr (Next d))) \<and>
      primed m0 nprobs ops g \<and> rep0 g = of_nat dist \<and> written J g = written J d \<and> lz_state g = lz_state d + 7 \<and>
      now_pos g = now_pos d \<and> rep1 g = rep1 d \<and> rep2 g = rep2 d \<and> rep3 g = rep3 d"
proof -
  have "n - 2 < 272" using n by simp
  from decodesD [OF decodes_len [OF this] d]
  obtain f where f: "decode_len cb base ps d = Inr (n - 2, f)" "primed m0 nprobs (dist_ops (n - 2) (dist - 1) @ ops) f" "kept d f"
    by blast
  let ?f = "f\<lparr>lz_state := lz_state f + kNumLitStates\<rparr>"
  have "primed m0 nprobs (dist_ops (n - 2) (dist - 1) @ ops) ?f" using f(2) by (subst primed_cong [of _ f]) simp_all
  moreover have "dist - 1 < 2 ^ 32" using dist by simp
  ultimately obtain g where g: "decode_distance cb (n - 2) ?f = Inr (of_nat (dist - 1), g)" "primed m0 nprobs ops g" "kept ?f g"
    using decodesD [OF decodes_distance] by blast
  let ?g = "g\<lparr>rep0 := of_nat dist\<rparr>"
  have inc: "of_nat (dist - 1) + 1 = (of_nat dist :: u32)" using dist(1) by (simp add: of_nat_diff)
  have same: "lz_state g = lz_state d + 7" "now_pos g = now_pos d" "rep1 g = rep1 d" "rep2 g = rep2 d" "rep3 g = rep3 d"
    using f(3) g(3) by (simp_all add: kept_def same_def kNumLitStates_def)
  have "written J g = written J ?f" "written J f = written J d"
    using lt same(2) by (intro written_kept [OF g(3)] written_kept [OF f(3)];
      use g(3) in \<open>simp add: kept_def same_def\<close>)+
  then have wr: "written J ?g = written J d" by (simp add: written_def)
  have pg: "primed m0 nprobs ops ?g" using g(2) by (subst primed_cong [of _ g]) simp_all
  have len: "n - 2 + 2 = n" using n by simp
  have "lz_state f < 4" using st f(3) by (simp add: kept_def same_def)
  then have "decode_match cb J base ps d = (if rep0 ?g = 0 then Inr (Stop ?g)
      else if rep0 ?g > now_pos ?g then fail (Result LZMA_RESULT_DATA_ERROR) ?g
      else bindE (copy_match J n ?g) (\<lambda>d. Inr (Next d)))"
    unfolding decode_match_def f(1) bindE.simps prod.case len by (simp only: if_True g(1) bindE.simps prod.case inc) simp
  then show ?thesis using pg wr same by (intro exI [of _ ?g]) simp
qed

text \<open>The kind of a copy: which of the recent distances it uses, if any.\<close>

lemma kept_state: "kept d e \<Longrightarrow> lz_state e = lz_state d \<and> now_pos e = now_pos d \<and>
    map unat [rep0 e, rep1 e, rep2 e, rep3 e] = map unat [rep0 d, rep1 d, rep2 d, rep3 d]"
  by (simp add: kept_def same_def)

definition moved :: "nat \<Rightarrow> 'p lzma \<Rightarrow> 'p lzma \<Rightarrow> bool" where
  "moved i d e \<longleftrightarrow> written J e = written J d \<and> now_pos e = now_pos d \<and> lz_state e = lz_state d \<and>
     map unat [rep0 e, rep1 e, rep2 e, rep3 e] = move_front i (map unat [rep0 d, rep1 d, rep2 d, rep3 d])"

lemma old_distance:
  assumes d: "primed m0 L (tl (rep_ops (lz_state d) ps i) @ ops) d" and i: "0 < i" "i < 4" and le: "now_pos d \<le> out_size J"
  shows "\<exists>e. decode_old_distance cb d = Inr e \<and> primed m0 L ops e \<and> moved i d e"
proof -
  have fields: "primed m0 L ops f \<and> moved i d f"
    if "primed m0 L ops e" "kept d e" "mach f = mach e" "pvt f = pvt e" "probs f = probs e" "buffer f = buffer e"
      "buffer_lim f = buffer_lim e" "rc_range f = rc_range e" "rc_code f = rc_code e" "now_pos f = now_pos e"
      "lz_state f = lz_state e" "[rep0 f, rep1 f, rep2 f, rep3 f] = (case i of Suc 0 \<Rightarrow> [rep1 e, rep0 e, rep2 e, rep3 e] |
         Suc (Suc 0) \<Rightarrow> [rep2 e, rep0 e, rep1 e, rep3 e] | _ \<Rightarrow> [rep3 e, rep0 e, rep1 e, rep2 e])" for e f
  proof -
    have "written J f = written J e" using that by (simp add: written_def)
    moreover have "i = 1 \<or> i = 2 \<or> i = 3" using i by linarith
    ultimately show ?thesis
      using that primed_cong [of f e m0 L ops] written_kept [OF that(2) le] kept_state [OF that(2)]
      by (elim disjE) (auto simp: moved_def move_front_def numeral_2_eq_2 numeral_3_eq_3)
  qed
  consider "i = 1" | "i = 2 \<or> i = 3" using i by linarith
  then show ?thesis
  proof cases
    case 1
    then have "primed m0 L (Bit (IsRepG1 + lz_state d) False # ops) d" using d by (simp add: rep_ops_def)
    from decode_bit_primed [OF this]
    obtain e where e: "decode_bit cb (IsRepG1 + lz_state d) d = Inr (False, e)" "primed m0 L ops e" "kept d e" by blast
    have "decode_old_distance cb d = Inr (e\<lparr>rep0 := rep1 e, rep1 := rep0 e\<rparr>)" by (simp add: decode_old_distance_def e(1))
    then show ?thesis using fields [OF e(2,3), of "e\<lparr>rep0 := rep1 e, rep1 := rep0 e\<rparr>"] 1 by simp
  next
    case 2
    then have "primed m0 L (Bit (IsRepG1 + lz_state d) True # Bit (IsRepG2 + lz_state d) (i \<noteq> 2) # ops) d"
      using d by (auto simp: rep_ops_def)
    from decode_bit_primed [OF this]
    obtain e where e: "decode_bit cb (IsRepG1 + lz_state d) d = Inr (True, e)" "primed m0 L (Bit (IsRepG2 + lz_state d) (i \<noteq> 2) # ops) e" "kept d e"
      by blast
    have st: "lz_state e = lz_state d" using e(3) by (simp add: kept_def same_def)
    from decode_bit_primed [OF e(2)]
    obtain f where f: "decode_bit cb (IsRepG2 + lz_state d) e = Inr (i \<noteq> 2, f)" "primed m0 L ops f" "kept e f" by blast
    have "decode_old_distance cb d = Inr (if i = 2 then f\<lparr>rep0 := rep2 f, rep1 := rep0 f, rep2 := rep1 f\<rparr>
        else f\<lparr>rep0 := rep3 f, rep1 := rep0 f, rep2 := rep1 f, rep3 := rep2 f\<rparr>)"
      using f(1) by (simp add: decode_old_distance_def e(1) st)
    moreover note fields [OF f(2) kept_trans [OF e(3) f(3)], of "if i = 2 then f\<lparr>rep0 := rep2 f, rep1 := rep0 f, rep2 := rep1 f\<rparr>
        else f\<lparr>rep0 := rep3 f, rep1 := rep0 f, rep2 := rep1 f, rep3 := rep2 f\<rparr>"]
    ultimately show ?thesis using 2 by (auto simp: numeral_2_eq_2 numeral_3_eq_3)
  qed
qed

lemma kind_rep:
  assumes d: "primed m0 L (Bit (IsRep + lz_state d) True # rep_ops (lz_state d) ps i @ ops) d" and i: "i < 4"
    and le: "now_pos d \<le> out_size J"
  shows "\<exists>e. decode_match_kind cb J ps d = Inr (WithLength RepLenCoder (e\<lparr>lz_state := state_after 8 11 (lz_state e)\<rparr>)) \<and>
    primed m0 L ops e \<and> moved i d e"
proof -
  from decode_bit_primed [OF d]
  obtain e where e: "decode_bit cb (IsRep + lz_state d) d = Inr (True, e)" "primed m0 L (rep_ops (lz_state d) ps i @ ops) e" "kept d e"
    by blast
  have st: "lz_state e = lz_state d" using e(3) by (simp add: kept_def same_def)
  show ?thesis
  proof (cases "i = 0")
    case True
    then have "primed m0 L (Bit (IsRepG0 + lz_state d) False # Bit (IsRep0Long + lz_state d * 16 + ps) True # ops) e"
      using e(2) by (simp add: rep_ops_def)
    from decode_bit_primed [OF this]
    obtain f where f: "decode_bit cb (IsRepG0 + lz_state d) e = Inr (False, f)"
      "primed m0 L (Bit (IsRep0Long + lz_state d * 16 + ps) True # ops) f" "kept e f" by blast
    from decode_bit_primed [OF f(2)]
    obtain g where g: "decode_bit cb (IsRep0Long + lz_state d * 16 + ps) f = Inr (True, g)" "primed m0 L ops g" "kept f g" by blast
    note k = kept_trans [OF e(3) kept_trans [OF f(3) g(3)]]
    have "lz_state f = lz_state d" using f(3) st by (simp add: kept_def same_def)
    then have "decode_match_kind cb J ps d = Inr (rep_match g)"
      using f(1) g(1) by (simp add: decode_match_kind_def e(1) st)
    then show ?thesis using g(2) written_kept [OF k le] kept_state [OF k] True
      by (intro exI [of _ g]) (auto simp: moved_def rep_match_def move_front_def)
  next
    case False
    then have "rep_ops (lz_state d) ps i = Bit (IsRepG0 + lz_state d) True # tl (rep_ops (lz_state d) ps i)"
      by (simp add: rep_ops_def)
    then have "primed m0 L (Bit (IsRepG0 + lz_state d) True # tl (rep_ops (lz_state d) ps i) @ ops) e"
      using e(2) by (metis append_Cons)
    from decode_bit_primed [OF this]
    obtain f where f: "decode_bit cb (IsRepG0 + lz_state d) e = Inr (True, f)"
      "primed m0 L (tl (rep_ops (lz_state d) ps i) @ ops) f" "kept e f" by blast
    note k = kept_trans [OF e(3) f(3)]
    have same: "lz_state f = lz_state d" "now_pos f = now_pos d" using k by (simp_all add: kept_def same_def)
    have "primed m0 L (tl (rep_ops (lz_state f) ps i) @ ops) f" using f(2) same by simp
    from old_distance [OF this _ i] False le same
    obtain g where g: "decode_old_distance cb f = Inr g" "primed m0 L ops g" "moved i f g" by auto
    have "decode_match_kind cb J ps d = Inr (rep_match g)"
      using f(1) g(1) by (simp add: decode_match_kind_def e(1) st)
    then show ?thesis using g(2,3) written_kept [OF k le] kept_state [OF k]
      by (intro exI [of _ g]) (auto simp: moved_def rep_match_def)
  qed
qed

text \<open>One packet is one round of the main loop: it stops at the mark, fails at a copy from before the text, and
  otherwise writes what there is room for.\<close>

definition round_rest :: "nat \<Rightarrow> 'p match_kind \<Rightarrow> ('p, 'p round) run" where
  "round_rest ps k = (case k of ShortRep d \<Rightarrow> Inr (Next d) | WithLength base d \<Rightarrow> decode_match cb J base ps d)"

definition received :: "packet \<Rightarrow> code_op list \<Rightarrow> lz_coder \<Rightarrow> ('p, 'p round) run \<Rightarrow> bool" where
  "received p ops s r \<longleftrightarrow>
     (if end_mark p then \<exists>e. r = Inr (Stop e) \<and> primed m0 nprobs ops e \<and> written J e = lz_text s \<and> now_pos e \<le> out_size J
      else copied (packet_ok s p) ops (apply_packet (fit_packet (unat (out_size J)) s p) s) r)"

lemma kind_new_packet:
  assumes d: "primed m0 nprobs (Bit (IsRep + lz_st s) False # len_ops LenCoder ps (n - 2) @ dist_ops (n - 2) (dist - 1) @ ops) d"
    and s: "models s d" and p: "sendable (Match dist n)" and lt: "now_pos d < out_size J"
  shows "received (Match dist n) ops s (bindE (decode_match_kind cb J ps d) (round_rest ps))"
proof -
  from decode_bit_primed [OF d]
  obtain e where e: "decode_bit cb (IsRep + lz_st s) d = Inr (False, e)" "kept d e"
    "primed m0 nprobs (len_ops LenCoder ps (n - 2) @ dist_ops (n - 2) (dist - 1) @ ops) e" by blast
  let ?e = "e\<lparr>rep3 := rep2 e, rep2 := rep1 e, rep1 := rep0 e, lz_state := state_after 0 3 (lz_state e)\<rparr>"
  note se = models_kept [OF s e(2)]
  note f = models_fields [OF se] and pos = models_pos [OF se]
  have kind: "bindE (decode_match_kind cb J ps d) (round_rest ps) = decode_match cb J LenCoder ps ?e"
    using models_fields(1) [OF s] e(1) by (simp add: decode_match_kind_def round_rest_def)
  have pr: "primed m0 nprobs (len_ops LenCoder ps (n - 2) @ dist_ops (n - 2) (dist - 1) @ ops) ?e"
    using e(3) by (subst primed_cong [of _ e]) simp_all
  have len: "2 \<le> n" "n \<le> 273" and dist: "0 < dist" "dist \<le> 2 ^ 32" using p by simp_all
  have lt': "now_pos ?e < out_size J" using lt e(2) by (simp add: kept_def same_def)
  have "lz_state ?e < 4" by (simp add: state_after_def)
  from new_distance [OF pr len this dist lt'] obtain g where
    g: "decode_match cb J LenCoder ps ?e = (if rep0 g = 0 then Inr (Stop g)
        else if rep0 g > now_pos g then fail (Result LZMA_RESULT_DATA_ERROR) g else bindE (copy_match J n g) (\<lambda>d. Inr (Next d)))"
      "primed m0 nprobs ops g" "rep0 g = of_nat dist" "written J g = written J ?e" "lz_state g = lz_state ?e + 7"
      "now_pos g = now_pos ?e" "rep1 g = rep1 ?e" "rep2 g = rep2 ?e" "rep3 g = rep3 ?e" by blast
  have wr: "written J ?e = lz_text s" using se by (simp add: models_def written_def)
  show ?thesis
  proof (cases "dist = 2 ^ 32")
    case True
    then have "rep0 g = 0" using g(3) by simp
    then show ?thesis using True g wr lt' by (simp add: kind received_def)
  next
    case False
    then have u: "unat (rep0 g) = dist" using g(3) dist(2) by simp
    then have nz: "rep0 g \<noteq> 0" using dist(1) by auto
    have "take 3 (lz_dists s) = map unat [rep1 ?e, rep2 ?e, rep3 ?e]" unfolding models_dists [OF se] by simp
    moreover have "lz_state ?e + 7 = state_after 7 10 (lz_st s)" using f(1) by (simp add: state_after_def)
    ultimately show ?thesis
      using copy_packet [OF g(2), of n] lt' nz len dist pos g False by (simp add: kind received_def u wr)
  qed
qed

lemma written_lz_state [simp]: "written J (e\<lparr>lz_state := x\<rparr>) = written J e"
  by (simp add: written_def)

lemma kind_rep_packet:
  assumes d: "primed m0 nprobs (Bit (IsRep + lz_st s) True # rep_ops (lz_st s) ps i @ len_ops RepLenCoder ps (n - 2) @ ops) d"
    and s: "models s d" and good: "good J d" and p: "sendable (Rep i n)" and lt: "now_pos d < out_size J"
  shows "received (Rep i n) ops s (bindE (decode_match_kind cb J ps d) (round_rest ps))"
proof -
  note f = models_fields [OF s] and pos = models_pos [OF s]
  have i: "i < 4" and le: "now_pos d \<le> out_size J" using p s by (simp_all add: models_def)
  obtain e where e: "decode_match_kind cb J ps d = Inr (WithLength RepLenCoder (e\<lparr>lz_state := state_after 8 11 (lz_state e)\<rparr>))"
    "primed m0 nprobs (len_ops RepLenCoder ps (n - 2) @ ops) e" "moved i d e"
    using kind_rep [OF d [folded f(1)] i le] by blast
  let ?e = "e\<lparr>lz_state := state_after 8 11 (lz_state e)\<rparr>"
  have pr: "primed m0 nprobs (len_ops RepLenCoder ps (n - 2) @ ops) ?e"
    using e(2) by (subst primed_cong [of _ e]) simp_all
  have dists: "map unat [rep0 ?e, rep1 ?e, rep2 ?e, rep3 ?e] = move_front i (lz_dists s)"
    and other: "written J ?e = lz_text s" "lz_state ?e = state_after 8 11 (lz_st s)" "now_pos ?e = now_pos d"
    using e(3) s by (simp_all add: moved_def models_def)
  have first: "unat (rep0 ?e) = lz_dists s ! i" using dists by (simp add: move_front_def)
  have "0 < x" if "x \<in> set (lz_dists s)" for x
  proof -
    have "set (lz_dists s) = {unat (rep0 d), unat (rep1 d), unat (rep2 d), unat (rep3 d)}"
      unfolding models_dists [OF s] by simp
    then show ?thesis using good that by (auto simp: good_def sane_def rep_ok_def unat_gt_0)
  qed
  moreover have "length (lz_dists s) = 4" unfolding models_dists [OF s] by simp
  ultimately have "0 < lz_dists s ! i" using i by simp
  then have nz: "rep0 ?e \<noteq> 0" using first by auto
  have len: "2 \<le> n" "n \<le> 273" using p by simp_all
  have st: "7 \<le> lz_state ?e" unfolding other by (simp add: state_after_def)
  have lt': "now_pos ?e < out_size J" using lt other(3) by simp
  have "copied (unat (rep0 ?e) \<le> unat (now_pos ?e)) ops
      \<lparr>lz_text = lz_copy (unat (rep0 ?e)) (min n (unat (out_size J) - unat (now_pos ?e))) (written J ?e), lz_st = lz_state ?e,
        lz_dists = map unat [rep0 ?e, rep1 ?e, rep2 ?e, rep3 ?e]\<rparr> (decode_match cb J RepLenCoder ps ?e)"
    by (rule decode_match_old [OF pr len st nz lt'])
  then show ?thesis using i len pos unfolding dists first other
    by (simp add: e(1) round_rest_def received_def)
qed

lemma kind_short_packet:
  assumes d: "primed m0 nprobs ([Bit (IsRep + lz_st s) True, Bit (IsRepG0 + lz_st s) False, Bit (IsRep0Long + lz_st s * 16 + ps) False] @ ops) d"
    and s: "models s d" and good: "good J d" and room: "now_pos d < out_size J"
  shows "received Short ops s (bindE (decode_match_kind cb J ps d) (round_rest ps))"
proof -
  from decode_bit_primed [OF d [simplified]]
  obtain e where e: "decode_bit cb (IsRep + lz_st s) d = Inr (True, e)" "kept d e"
    "primed m0 nprobs (Bit (IsRepG0 + lz_st s) False # Bit (IsRep0Long + lz_st s * 16 + ps) False # ops) e" by auto
  from decode_bit_primed [OF e(3)]
  obtain f where f: "decode_bit cb (IsRepG0 + lz_st s) e = Inr (False, f)" "kept e f"
    "primed m0 nprobs (Bit (IsRep0Long + lz_st s * 16 + ps) False # ops) f" by blast
  from decode_bit_primed [OF f(3)]
  obtain g where g: "decode_bit cb (IsRep0Long + lz_st s * 16 + ps) f = Inr (False, g)" "kept f g" "primed m0 nprobs ops g" by blast
  have se: "models s e" and sf: "models s f" and sg: "models s g" using models_kept s e(2) f(2) g(2) by blast+
  note st = models_fields(1) [OF s] models_fields(1) [OF se] models_fields(1) [OF sf] models_fields(1) [OF sg]
  have k: "kept d g" using kept_trans e(2) f(2) g(2) by blast
  have good: "good J g" using k good same_good by (auto simp: kept_def)
  let ?h = "g\<lparr>lz_state := state_after 9 11 (lz_state g)\<rparr>"
  have rep: "rep0 g \<noteq> 0" "rep_ok (now_pos g) (rep0 g)" using good by (auto simp: good_def sane_def rep_ok_def)
  have kind: "decode_match_kind cb J ps d = short_rep J g"
    using e(1) f(1) g(1) by (simp add: decode_match_kind_def st)
  show ?thesis
  proof (cases "now_pos g = 0")
    case True
    then have "lz_text s = []" using models_pos [OF sg] by simp
    moreover have "lz_dists s ! 0 \<noteq> 0" using rep(1) models_fields(2) [OF sg] by (metis unat_eq_0)
    ultimately show ?thesis using True by (simp add: kind short_rep_def received_def copied_def fail_def)
  next
    case False
    then have le: "rep0 g \<le> now_pos g" by (rule rep_ok_le [OF rep(2)])
    have wr: "written J ?h = lz_text s" and lt: "now_pos ?h < out_size J"
      using sg room k by (simp_all add: models_def written_def kept_def same_def)
    let ?c = "lz_text s ! (unat (now_pos g) - unat (rep0 g))"
    have "out_byte J ?h = Inr ?c" using out_byte_written [of ?h J] rep le wr by simp
    then have run: "decode_match_kind cb J ps d = Inr (ShortRep (put_byte J ?c ?h))"
      using False by (simp add: kind short_rep_def Let_def)
    have "primed m0 nprobs ops ?h" using g(3) by (subst primed_cong [of _ g]) simp_all
    then have "primed m0 nprobs ops (put_byte J ?c ?h)" by (rule put_byte_primed [OF _ lt])
    moreover have "models (apply_packet Short s) (put_byte J ?c ?h)"
      using sg put_byte_written [OF lt, of ?c] put_byte_pos [OF lt, of ?c] lt models_fields(2) [OF sg] models_pos [OF sg]
      unfolding wr by (simp add: models_def st numeral_2_eq_2 prev_of_def word_le_nat_alt word_less_nat_alt) (auto simp: put_byte_def)
    moreover have "packet_ok s Short" using le models_fields(2) [OF sg] models_pos [OF sg] by (simp add: word_le_nat_alt)
    ultimately show ?thesis by (simp add: run round_rest_def received_def copied_def)
  qed
qed

lemma decode_round_received:
  assumes d: "primed m0 nprobs (packet_ops (props J) s p @ ops) d" and good: "good J d" and s: "models s d"
    and p: "sendable p" and lt: "now_pos d < out_size J"
  shows "received p ops s (decode_round cb J d)"
proof -
  let ?ps = "pos_state (props J) s"
  have ps: "unat (now_pos d AND (push_bit (pb (props J)) 1 - 1)) = ?ps"
    unfolding unat_and_low pos_state_def models_pos [OF s] ..
  have run: "decode_round cb J d = bindE (decode_bit cb (IsMatch + lz_st s * 16 + ?ps) d) (\<lambda>(b, d).
        if \<not> b then bindE (decode_literal cb J d) (\<lambda>d. Inr (Next d))
        else bindE (decode_match_kind cb J ?ps d) (round_rest ?ps))"
    unfolding decode_round_def Let_def ps models_fields(1) [OF s] round_rest_def [abs_def] ..
  have first: "\<exists>e. decode_bit cb (IsMatch + lz_st s * 16 + ?ps) d = Inr (b, e) \<and> primed m0 nprobs (xs @ ops) e \<and>
      models s e \<and> good J e \<and> now_pos e < out_size J"
    if ops: "packet_ops (props J) s p = Bit (IsMatch + lz_st s * 16 + ?ps) b # xs" for b xs
  proof -
    obtain e where "decode_bit cb (IsMatch + lz_st s * 16 + ?ps) d = Inr (b, e)" "primed m0 nprobs (xs @ ops) e" "kept d e"
      using decode_bit_primed d unfolding ops append_Cons by blast
    then show ?thesis using models_kept [OF s] same_good [OF _ good] lt by (auto simp: kept_def same_def)
  qed
  show ?thesis
  proof (cases p)
    case (Byte c)
    obtain e where e: "decode_bit cb (IsMatch + lz_st s * 16 + ?ps) d = Inr (False, e)" "primed m0 nprobs (byte_ops (props J) s c @ ops) e"
      "models s e" "good J e" "now_pos e < out_size J"
      using first [of False] Byte by auto
    then show ?thesis using decode_literal_packet [OF e(2,4,3,5)] Byte by (auto simp: run received_def copied_def)
  next
    case (Match dist n)
    obtain e where e: "decode_bit cb (IsMatch + lz_st s * 16 + ?ps) d = Inr (True, e)" "models s e" "now_pos e < out_size J"
      "primed m0 nprobs (Bit (IsRep + lz_st s) False # len_ops LenCoder ?ps (n - 2) @ dist_ops (n - 2) (dist - 1) @ ops) e"
      using first [of True] Match by auto
    then show ?thesis using kind_new_packet [OF e(4,2)] p Match by (simp add: run)
  next
    case (Rep i n)
    obtain e where e: "decode_bit cb (IsMatch + lz_st s * 16 + ?ps) d = Inr (True, e)" "models s e" "good J e" "now_pos e < out_size J"
      "primed m0 nprobs (Bit (IsRep + lz_st s) True # rep_ops (lz_st s) ?ps i @ len_ops RepLenCoder ?ps (n - 2) @ ops) e"
      using first [of True] Rep by auto
    then show ?thesis using kind_rep_packet [OF e(5,2,3)] p Rep by (simp add: run)
  next
    case Short
    obtain e where e: "decode_bit cb (IsMatch + lz_st s * 16 + ?ps) d = Inr (True, e)"
      "primed m0 nprobs ([Bit (IsRep + lz_st s) True, Bit (IsRepG0 + lz_st s) False, Bit (IsRep0Long + lz_st s * 16 + ?ps) False] @ ops) e"
      "models s e" "good J e" "now_pos e < out_size J"
      using first [of True] Short by auto
    then show ?thesis using kind_short_packet [OF e(2-5)] Short by (simp add: run)
  qed
qed

lemma decode_round_good:
  assumes "primed m0 nprobs ops d" and "good J d" and "now_pos d < out_size J" and "decode_round cb J d = Inr (Next e)"
  shows "good J e"
proof -
  have "calm m0 nprobs d" using assms(1) by (simp add: primed_def fed_def)
  from decode_round_ok [OF this assms(2,3)] show ?thesis by (simp add: assms(4) round_ok_def)
qed

lemma decode_round_packet:
  assumes d: "primed m0 nprobs (packet_ops (props J) s p @ ops) d" and good: "good J d" and s: "models s d"
    and p: "packet_ok s p" and room: "length (lz_text (apply_packet p s)) \<le> unat (out_size J)"
  shows "\<exists>e. decode_round cb J d = Inr (Next e) \<and> primed m0 nprobs ops e \<and> models (apply_packet p s) e \<and> good J e"
proof -
  have "length (lz_text s) < unat (out_size J)" using apply_packet_longer [OF p] room by simp
  then have lt: "now_pos d < out_size J" and small: "length (lz_text s) < 2 ^ 32"
    using models_pos [OF s] unat_u32_lt [of "out_size J"] by (simp_all add: word_less_nat_alt)
  have "received p ops s (decode_round cb J d)"
    using sendable_ok [OF p] small by (intro decode_round_received [OF d good s _ lt]) simp
  then show ?thesis
    using packet_ok_no_mark [OF p small] p fit_packet_room [OF room] decode_round_good [OF d good lt]
    by (auto simp: received_def copied_def)
qed

lemma decode_loop_packets:
  "primed m0 nprobs (packets_ops (props J) ps s @ ops) d \<Longrightarrow> good J d \<Longrightarrow> models s d \<Longrightarrow> packets_ok ps s \<Longrightarrow>
    length (lz_text (run_packets ps s)) = unat (out_size J) \<Longrightarrow> unat (out_size J) - length (lz_text s) \<le> n \<Longrightarrow>
    \<exists>e. decode_loop cb J n d = Inr e \<and> primed m0 nprobs ops e \<and> models (run_packets ps s) e"
proof (induction ps arbitrary: n s d)
  case Nil
  then have "\<not> now_pos d < out_size J" using models_pos [OF Nil.prems(3)] by (simp add: word_less_nat_alt)
  then have "decode_loop cb J n d = Inr d" by (cases n) simp_all
  then show ?case using Nil.prems by simp
next
  case (Cons p ps)
  let ?s = "apply_packet p s"
  have p: "packet_ok s p" "packets_ok ps ?s" using Cons.prems(4) by simp_all
  have le: "length (lz_text ?s) \<le> unat (out_size J)" using run_packets_longer [OF p(2)] Cons.prems(5) by simp
  note longer = apply_packet_longer [OF p(1)]
  obtain k where n: "n = Suc k" using longer le Cons.prems(6) by (cases n) auto
  have lt: "now_pos d < out_size J"
    using longer le models_pos [OF Cons.prems(3)] by (simp add: word_less_nat_alt)
  have "primed m0 nprobs (packet_ops (props J) s p @ packets_ops (props J) ps ?s @ ops) d" using Cons.prems(1) by simp
  from decode_round_packet [OF this Cons.prems(2,3) p(1) le]
  obtain e where e: "decode_round cb J d = Inr (Next e)" "primed m0 nprobs (packets_ops (props J) ps ?s @ ops) e" "models ?s e" "good J e"
    by blast
  have "\<exists>f. decode_loop cb J k e = Inr f \<and> primed m0 nprobs ops f \<and> models (run_packets ps ?s) f"
    using longer Cons.prems(5,6) n by (intro Cons.IH [OF e(2,4,3) p(2)]) simp_all
  then show ?case using lt by (simp add: n e(1))
qed

text \<open>The decoder's last look at the input needs one more byte.\<close>

lemma rc_normalize_last:
  assumes "primed m0 L ops d"
  shows "\<exists>e. rc_normalize cb d = Inr e \<and> kept d e"
proof -
  have fed: "fed m0 L d" and "input d \<noteq> []" using assms by (auto simp: primed_def selects_def split: prod.splits)
  then obtain c cs where inp: "input d = c # cs" by (cases "input d") auto
  obtain e where "rc_shift_in cb d = Inr e" "kept d e" using rc_shift_in_fed [OF fed inp] by blast
  then show ?thesis by (simp add: rc_normalize_def)
qed

text \<open>The five bytes at the start.\<close>

lemma rc_init_loop_fed:
  "fed m0 L d \<Longrightarrow> n \<le> length (input d) \<Longrightarrow> \<exists>e. rc_init_loop cb n d = Inr e \<and> fed m0 L e \<and> input e = drop n (input d) \<and>
     kept d e \<and> rc_range e = rc_range d \<and> probs e = probs d \<and>
     unat (rc_code e) = (unat (rc_code d) * 256 ^ n + bytes_num (take n (input d))) mod 2 ^ 32"
proof (induction n arbitrary: d)
  case 0
  then show ?case using unat_u32_lt [of "rc_code d"] by simp
next
  case (Suc n)
  then obtain c cs where inp: "input d = c # cs" by (cases "input d") auto
  obtain e where e: "rc_shift_in cb d = Inr e" "fed m0 L e" "input e = cs" "kept d e" "rc_range e = rc_range d"
    "rc_code e = push_bit 8 (rc_code d) OR ucast c" "probs e = probs d"
    using rc_shift_in_fed [OF Suc.prems(1) inp] by blast
  have n: "n \<le> length (input e)" using Suc.prems(2) by (simp add: inp e(3))
  obtain f where f: "rc_init_loop cb n e = Inr f" "fed m0 L f" "input f = drop n cs" "kept e f" "rc_range f = rc_range e"
    "probs f = probs e" "unat (rc_code f) = (unat (rc_code e) * 256 ^ n + bytes_num (take n cs)) mod 2 ^ 32"
    using Suc.IH [OF e(2) n] e(3) by auto
  have "unat (rc_code e) = (256 * unat (rc_code d) + unat c) mod 2 ^ 32"
    unfolding e(6) by (rule unat_shift_byte)
  then have "unat (rc_code f) = ((256 * unat (rc_code d) + unat c) * 256 ^ n + bytes_num (take n cs)) mod 2 ^ 32"
    unfolding f(7) by (metis mod_add_left_eq mod_mult_left_eq)
  also have "(256 * unat (rc_code d) + unat c) * 256 ^ n + bytes_num (take n cs) =
      unat (rc_code d) * 256 ^ Suc n + bytes_num (take (Suc n) (input d))"
    using n by (simp add: inp e(3) algebra_simps)
  finally show ?case using e f kept_trans [OF e(4) f(4)] by (intro exI [of _ f]) (simp add: inp)
qed

text \<open>The whole call: the decoder set up and about to read the packets.\<close>

lemma rc_init_primed:
  assumes inv: "inv m0 p" and body: "stream_codes spare (props J) ps (rest m0 p)"
  shows "\<exists>e. rc_init cb (lzma_start J m0 p) = Inr e \<and> primed m0 nprobs (packets_ops (props J) ps lz_start) e \<and>
    good J e \<and> models lz_start e"
proof -
  let ?d = "(lzma_start J m0 p)\<lparr>buffer := 0, buffer_lim := 0, rc_code := 0, rc_range := 0xFFFFFFFF\<rparr>"
  let ?body = "rest m0 p" and ?ops = "packets_ops (props J) ps lz_start"
  have ok: "list_all sendable ps" "5 \<le> length ?body"
    and sel: "selects spare (bytes_num (take 4 (drop 1 ?body))) (drop 5 ?body) (first_interval (props J) ps)"
    using body by (simp_all add: stream_codes_def)
  have half: "(of_int (drop_bit 1 kBitModelTotal) :: u16) = 1024" by (simp add: kBitModelTotal_def)
  have probs: "probs ?d = replicate nprobs 1024"
    unfolding nprobs_def lzma_start_def half by (simp add: LzmaGetNumProbs_def Literal_base)
  have "fed m0 nprobs ?d"
    using inv probs by (simp add: fed_def calm_def framed_def in_range_def prob_ok_def) (simp add: lzma_start_def)
  moreover have inp: "input ?d = ?body" by (simp add: input_def lzma_start_def)
  ultimately obtain e where e: "rc_init_loop cb 5 ?d = Inr e" "fed m0 nprobs e" "input e = drop 5 ?body" "kept ?d e"
    "rc_range e = 0xFFFFFFFF" "probs e = replicate nprobs 1024" "unat (rc_code e) = bytes_num (take 5 ?body) mod 2 ^ 32"
    using rc_init_loop_fed [of nprobs ?d 5] ok(2) probs by auto
  obtain c cs where cs: "?body = c # cs" using ok(2) by (cases ?body) auto
  have "unat (rc_code e) = bytes_num (take 4 (drop 1 ?body))"
    unfolding e(7) using ok(2) bytes_num_less [of "take 4 cs"] by (simp add: cs)
  moreover have "within nprobs ?ops"
    unfolding nprobs_def using job ok(1) by (intro within_packets) (simp_all add: job_ok_def lz_start_def)
  ultimately have primed: "primed m0 nprobs ?ops e"
    using e sel by (simp add: primed_def first_interval_def nprobs_def)
  have "models lz_start ?d" by (simp add: models_def lz_start_def lzma_start_def written_def prev_of_def)
  then have s: "models lz_start e" using e(4) by (rule models_kept)
  have "good J ?d" by (simp add: good_def sane_def lzma_start_def rep_ok_def layout_consts)
  then have "good J e" using e(4) same_good unfolding kept_def by blast
  then show ?thesis using e(1) primed s by (simp add: rc_init_def)
qed

lemma decode_packets_run:
  assumes inv: "inv m0 p" and body: "lzma_codes spare (props J) ps (rest m0 p)"
    and total: "length (lz_text (run_packets ps lz_start)) = unat (out_size J)"
  shows "\<exists>e f. rc_init cb (lzma_start J m0 p) = Inr e \<and> decode_loop cb J (unat (out_size J)) e = Inr f \<and>
    primed m0 nprobs [] f \<and> models (run_packets ps lz_start) f"
proof -
  have "stream_codes spare (props J) ps (rest m0 p)"
    using lzma_codes_stream [OF body] total unat_u32_lt [of "out_size J"] by simp
  then obtain e where e: "rc_init cb (lzma_start J m0 p) = Inr e" "primed m0 nprobs (packets_ops (props J) ps lz_start @ []) e"
    "good J e" "models lz_start e" using rc_init_primed [OF inv] by auto
  moreover have "packets_ok ps lz_start" using body by (simp add: lzma_codes_def)
  ultimately show ?thesis using decode_loop_packets [OF e(2-4) _ total] by (auto simp: lz_start_def)
qed

lemma LzmaDecode_packets:
  assumes "inv m0 p" and "lzma_codes spare (props J) ps (rest m0 p)"
    and total: "length (lz_text (run_packets ps lz_start)) = unat (out_size J)"
  shows "\<exists>m p'. LzmaDecode cb J m0 p = (Result LZMA_RESULT_OK, out_size J, m, p') \<and>
    mem_read (mem m) (out_stream J) (unat (out_size J)) = lz_text (run_packets ps lz_start)"
proof -
  obtain e f where e: "rc_init cb (lzma_start J m0 p) = Inr e"
    and f: "decode_loop cb J (unat (out_size J)) e = Inr f" "primed m0 nprobs [] f" "models (run_packets ps lz_start) f"
    using decode_packets_run [OF assms] by blast
  obtain g where g: "rc_normalize cb f = Inr g" "kept f g" using rc_normalize_last [OF f(2)] by blast
  have run: "LzmaDecode cb J m0 p = (Result LZMA_RESULT_OK, now_pos g, mach g, pvt g)"
    unfolding LzmaDecode_def by (simp add: e f(1) g(1))
  note sg = models_kept [OF f(3) g(2)]
  have "unat (now_pos g) = unat (out_size J)" using models_pos [OF sg] total by simp
  then have "now_pos g = out_size J" by (simp only: word_unat_eq_iff)
  then show ?thesis using sg by (simp add: run) (simp add: models_def written_def)
qed

end

end
