(* ===== verification/LzmaKernel.thy ===== *)
theory LzmaKernel
  imports LzmaBooting LzmaPackets
begin

text \<open>
  The way back: a kernel that has been compressed is loaded as it was. The bytes an encoder
  writes stand for its packets; the callback of the loader hands them to the decoder in pieces
  of 512 bytes; the text of the packets ends up at the load address, and the kernel is entered.
\<close>

section \<open>What the encoder writes\<close>

lemma num_bytes_append: "num_bytes (k + n) v = num_bytes k (v div 256 ^ n) @ num_bytes n v"
proof (induction k)
  case (Suc k)
  have "v div 256 ^ (k + n) = v div 256 ^ n div 256 ^ k"
    by (simp add: add.commute [of k] power_add div_mult2_eq)
  with Suc show ?case by simp
qed simp

lemma selects_more:
  assumes "selects spare code inp I"
  shows "selects (spare + length extra) code (inp @ extra) I"
  using assms by (cases I) (simp add: selects_def)

lemma lzma_codes_more: "lzma_codes spare pr ps body \<Longrightarrow> lzma_codes (spare + length extra) pr ps (body @ extra)"
  using selects_more [of spare _ "drop 5 body"] by (auto simp: lzma_codes_def)

lemma lzma_encode_stream:
  assumes "lc pr \<le> 8" and "pb pr \<le> 4" and "list_all sendable ps"
  shows "stream_codes 0 pr ps (lzma_encode pr ps)"
proof -
  obtain lo w n where I: "first_interval pr ps = (lo, w, n)" by (cases "first_interval pr ps")
  have "table_ok (LzmaGetNumProbs pr) (replicate (LzmaGetNumProbs pr) 1024)"
    by (simp add: table_ok_def prob_ok_def)
  moreover have "within (LzmaGetNumProbs pr) (packets_ops pr ps lz_start)"
    using assms by (intro within_packets) (simp_all add: lz_start_def)
  ultimately have fits: "lo + w \<le> (2 ^ 32 - 1) * 256 ^ n" "2 ^ 16 \<le> w"
    using code_interval_fits [OF _ _ _ I [unfolded first_interval_def]] by simp_all
  then have "lo < 2 ^ 32 * 256 ^ n" by simp
  then have lo: "lo div 256 ^ n < 256 ^ 4" by (simp add: div_less_iff_less_mult)
  have bytes: "lzma_encode pr ps = 0 # num_bytes 4 (lo div 256 ^ n) @ num_bytes n lo @ [0]"
    unfolding lzma_encode_def I prod.case num_bytes_append by simp
  have "take 4 (drop 1 (lzma_encode pr ps)) = num_bytes 4 (lo div 256 ^ n)"
    "drop 5 (lzma_encode pr ps) = num_bytes n lo @ [0]"
    unfolding bytes by simp_all
  moreover have "lo div 256 ^ n * 256 ^ n + lo mod 256 ^ n = lo" by (rule div_mult_mod_eq)
  ultimately have "selects 0 (bytes_num (take 4 (drop 1 (lzma_encode pr ps)))) (drop 5 (lzma_encode pr ps)) (first_interval pr ps)"
    unfolding I using lo fits by (simp add: selects_def bytes_num_num_bytes)
  then show ?thesis using assms(3) by (simp add: stream_codes_def bytes)
qed

lemma lzma_encode_codes:
  assumes "lc pr \<le> 8" and "pb pr \<le> 4" and "packets_ok ps lz_start" and "length (lz_text (run_packets ps lz_start)) < 2 ^ 32"
  shows "lzma_codes 0 pr ps (lzma_encode pr ps)"
  using lzma_encode_stream [OF assms(1,2) packets_sendable [OF assms(3,4)]] assms(3)
  by (simp add: stream_codes_def lzma_codes_def)

text \<open>Plain bytes are packets: every text has an encoding.\<close>

lemma run_bytes: "lz_text (run_packets (map Byte bs) s) = lz_text s @ bs"
  by (induction bs arbitrary: s) simp_all

lemma bytes_ok: "packets_ok (map Byte bs) s"
  by (induction bs arbitrary: s) simp_all

section \<open>Feeding the decoder from a file\<close>

definition feeding ::
    "platform \<Rightarrow> u8 list \<Rightarrow> addr \<Rightarrow> addr \<Rightarrow> addr \<Rightarrow> nat \<Rightarrow> machine \<Rightarrow> private_data \<Rightarrow> bool" where
  "feeding p data b buf out n st pd \<longleftrightarrow>
     reader p data b buf out n st pd \<and> unat (file_pos (pd_fp pd)) \<le> length data \<and>
     b \<noteq> 0 \<and> unat b + length data < 2 ^ 32 \<and> buf \<noteq> 0 \<and> apart buf 512 out n"

definition left_of :: "u8 list \<Rightarrow> machine \<Rightarrow> private_data \<Rightarrow> u8 list" where
  "left_of data st pd = drop (unat (file_pos (pd_fp pd))) data"

lemma feeding_read:
  assumes "feeding p data b buf out n st pd"
  shows "\<exists>st' pd'. read_data p sp st pd = Some (LZMA_RESULT_OK, buf, piece pd, st', pd') \<and> feeding p data b buf out n st' pd' \<and>
    unat (piece pd) = min 512 (length (left_of data st pd)) \<and>
    mem_read (mem st') buf (unat (piece pd)) @ left_of data st' pd' = left_of data st pd \<and>
    (\<forall>x. \<not> in_range buf 512 x \<longrightarrow> mem st' x = mem st x)"
proof -
  let ?k = "unat (file_pos (pd_fp pd))" and ?m = "unat (piece pd)"
  have r: "reader p data b buf out n st pd" and k: "?k \<le> length data" and b: "b \<noteq> 0" "unat b + length data < 2 ^ 32" "buf \<noteq> 0"
    and ap: "apart buf 512 out n"
    using assms by (simp_all add: feeding_def)
  have small: "length data < 2 ^ 31" and len: "file_len (pd_fp pd) = of_nat (length data)" and base: "file_base p (pd_fp pd) = b"
    and img: "image_at (mem st) b data" and apb: "apart b (length data) buf 512"
    using r by (simp_all add: reader_def image_at_def)
  have ulen: "unat (file_len (pd_fp pd)) = length data" using small by (simp add: len)
  have le: "file_pos (pd_fp pd) \<le> file_len (pd_fp pd)" using k by (simp add: word_le_nat_alt ulen)
  then have left: "unat (file_len (pd_fp pd) - file_pos (pd_fp pd)) = length data - ?k" by (simp add: unat_sub ulen)
  then have m: "?m = min 512 (length data - ?k)" by (simp add: piece_def Let_def word_less_nat_alt)
  have "\<not> file_pos (pd_fp pd) > file_len (pd_fp pd)" using le by simp
  from read_data_piece [OF r this, of sp] obtain o1 l where run: "read_data p sp st pd = Some (LZMA_RESULT_OK, buf, piece pd,
      st\<lparr>con_out := con_out st @ o1, mem := fst (read_bytes p (mem st) buf (piece pd) (pd_fp pd))\<rparr>,
      pd\<lparr>pd_fp := pd_fp pd\<lparr>file_pos := file_pos (pd_fp pd) + piece pd\<rparr>,
         pd_total_read := pd_total_read pd + piece pd, pd_last := l\<rparr>)" by blast
  have fits: "?k + ?m \<le> length data" using m k by simp
  have apm: "apart b (length data) buf ?m" by (rule apart_mono [OF apb order_refl]) (simp add: m)
  have nz: "b + of_nat ?k \<noteq> 0" using b k by (intro base_offset_nonzero [of b "length data"]) simp_all
  have read: "fst (read_bytes p (mem st) buf (piece pd) (pd_fp pd)) = mem_write (mem st) buf (take ?m (drop ?k data))"
    using cio.read_at(1) [of "mem st" p "pd_fp pd" data ?k ?m buf] img base fits b(3) apm nz by simp
  have "unat (file_pos (pd_fp pd) + piece pd) = ?k + ?m"
    using fits small by (simp add: unat_word_ariths)
  let ?st = "st\<lparr>con_out := con_out st @ o1, mem := fst (read_bytes p (mem st) buf (piece pd) (pd_fp pd))\<rparr>"
    and ?pd = "pd\<lparr>pd_fp := pd_fp pd\<lparr>file_pos := file_pos (pd_fp pd) + piece pd\<rparr>,
         pd_total_read := pd_total_read pd + piece pd, pd_last := l\<rparr>"
  have pos: "unat (file_pos (pd_fp ?pd)) = ?k + ?m" using \<open>unat (file_pos (pd_fp pd) + piece pd) = ?k + ?m\<close> by simp
  have got: "mem_read (mem_write (mem st) buf (take ?m (drop ?k data))) buf ?m = take ?m (drop ?k data)"
    using mem_read_write_same [of "take ?m (drop ?k data)" "mem st" buf] fits small by simp
  have "reader p data b buf out n (st\<lparr>con_out := con_out st @ o1\<rparr>) pd" using r by (simp add: reader_def)
  note after = reader_read [OF this piece_le, simplified]
  have "feeding p data b buf out n ?st ?pd" using after(1) pos fits b ap by (simp add: feeding_def)
  moreover have "mem_read (mem ?st) buf ?m @ left_of data ?st ?pd = left_of data st pd"
    unfolding left_of_def pos by (simp add: read got) (metis append_take_drop_id drop_drop add.commute)
  moreover have "\<forall>x. \<not> in_range buf 512 x \<longrightarrow> mem ?st x = mem st x" using after(2) by simp
  ultimately show ?thesis using run m by (intro exI [of _ ?st] exI [of _ ?pd]) (simp add: left_of_def)
qed

interpretation coded: lzma_coded "read_data p sp" "feeding p data b buf out (unat sz)"
    "in_range buf 512" "in_range out (unat sz)" "left_of data" spare "job_of bs out sz" m0
  for p sp data b buf out sz spare bs m0
proof unfold_locales
  fix m pd assume f: "feeding p data b buf out (unat sz) m pd"
  note read = feeding_read [OF f, of sp]
  then show "\<exists>r c n m' pd'. read_data p sp m pd = Some (r, c, n, m', pd') \<and> feeding p data b buf out (unat sz) m' pd' \<and>
      (\<forall>x. \<not> in_range buf 512 x \<longrightarrow> mem m' x = mem m x)" by blast
  show "feeding p data b buf out (unat sz) (store_at m x c) pd" if "in_range out (unat sz) x" for x c
    using f reader_store that by (simp add: feeding_def)
  show "left_of data (store_at m x c) pd = left_of data m pd" for x c by (simp add: left_of_def)
  show "\<not> in_range out (unat sz) x" if "in_range buf 512 x" for x
    using f that apart_not_in_range by (auto simp: feeding_def)
  assume "left_of data m pd \<noteq> []"
  then have "0 < min 512 (length (left_of data m pd))" by simp
  moreover obtain m' pd' where "read_data p sp m pd = Some (LZMA_RESULT_OK, buf, piece pd, m', pd')"
    "unat (piece pd) = min 512 (length (left_of data m pd))" "mem_read (mem m') buf (unat (piece pd)) @ left_of data m' pd' = left_of data m pd"
    using read by blast
  moreover have "\<forall>x. in_range buf (unat (piece pd)) x \<longrightarrow> in_range buf 512 x"
    using in_range_mono [OF _ piece_le] by blast
  ultimately show "\<exists>c n m' pd'. read_data p sp m pd = Some (LZMA_RESULT_OK, c, n, m', pd') \<and> 0 < unat n \<and>
      mem_read (mem m') c (unat n) @ left_of data m' pd' = left_of data m pd \<and> (\<forall>x. in_range c (unat n) x \<longrightarrow> in_range buf 512 x)"
    by (intro exI [of _ buf] exI [of _ "piece pd"] exI [of _ m'] exI [of _ pd']) simp
next
  show "job_ok (job_of bs out sz)" by (rule job_of_ok)
  show "in_range (out_stream (job_of bs out sz)) (unat (out_size (job_of bs out sz))) x \<Longrightarrow> in_range out (unat sz) x" for x
    by (simp add: job_of_def)
qed

section \<open>Loading a compressed kernel\<close>

text \<open>A file in the format of \<^verbatim>\<open>lzma\<close>: five bytes of properties, the size in eight bytes, of which four
  are looked at, and bytes that stand for packets with the text \<open>krn\<close>.\<close>

definition lzma_image :: "u8 list \<Rightarrow> u8 list \<Rightarrow> bool" where
  "lzma_image data krn \<longleftrightarrow> 13 \<le> length data \<and> data ! 0 < 225 \<and> length krn < 2 ^ 32 \<and>
     u32_of LE (take 4 (drop 5 data)) = of_nat (length krn) \<and>
     (\<exists>ps spare. lzma_codes spare (props_of (take 5 data)) ps (drop 13 data) \<and> lz_text (run_packets ps lz_start) = krn)"

lemma load_lzma_image:
  assumes img: "image_at (mem st) (file_base (plat E) fp) data" and pl: "lzma_placed (plat E) (frm E) fp data out"
    and lz: "lzma_image data krn" and buf: "lzma_buffer_at (frm E) \<noteq> 0" "apart (lzma_buffer_at (frm E)) 512 out (length krn)"
  shows "\<exists>st' fp'. load_lzma E st fp out cmd_line = Some (st', fp', Jump out (c_memsz (plat E) (rom E) (regs0 E)) cmd_line) \<and>
     mem_read (mem st') out (length krn) = krn"
proof -
  let ?bs = "take 5 data" and ?sz = "u32_of LE (take 4 (drop 5 data))"
  have len: "13 \<le> length data" and first: "?bs ! 0 < 225" using lz by (simp_all add: lzma_image_def)
  have "?sz = of_nat (length krn)" "length krn < 2 ^ 32" using lz unfolding lzma_image_def by blast+
  then have sz: "unat ?sz = length krn" by simp
  obtain ps spare where ps: "lzma_codes spare (props_of ?bs) ps (drop 13 data)" "lz_text (run_packets ps lz_start) = krn"
    using lz by (auto simp: lzma_image_def)
  obtain m2 pd where r: "reader (plat E) data (file_base (plat E) fp) (lzma_buffer_at (frm E)) out (unat ?sz) (st\<lparr>mem := m2\<rparr>) pd"
    and pos: "file_pos (pd_fp pd) = 13"
    and load: "load_lzma E st fp out cmd_line =
      call_lzma E out cmd_line (LzmaDecode (read_data (plat E) (printf_at (frm E))) (job_of ?bs out ?sz) (st\<lparr>mem := m2\<rparr>) pd)"
    using load_lzma_header [OF img pl refl refl, of cmd_line] unfolding if_P [OF first] by blast
  have "feeding (plat E) data (file_base (plat E) fp) (lzma_buffer_at (frm E)) out (unat ?sz) (st\<lparr>mem := m2\<rparr>) pd"
    using r pos len pl buf sz by (simp add: feeding_def lzma_placed_def Let_def)
  moreover have "lzma_codes spare (props (job_of ?bs out ?sz)) ps (left_of data (st\<lparr>mem := m2\<rparr>) pd)"
    using ps(1) pos by (simp add: job_of_def left_of_def)
  moreover have "length (lz_text (run_packets ps lz_start)) = unat (out_size (job_of ?bs out ?sz))"
    using ps(2) sz by (simp add: job_of_def)
  ultimately obtain st3 pd3 where dec: "LzmaDecode (read_data (plat E) (printf_at (frm E))) (job_of ?bs out ?sz) (st\<lparr>mem := m2\<rparr>) pd =
      (Result LZMA_RESULT_OK, ?sz, st3, pd3)" and got: "mem_read (mem st3) out (unat ?sz) = krn"
    using coded.LzmaDecode_packets [of "plat E" data "file_base (plat E) fp" "lzma_buffer_at (frm E)" out ?sz "st\<lparr>mem := m2\<rparr>" pd spare ?bs ps "printf_at (frm E)"]
    by (auto simp: job_of_def ps(2))
  obtain o1 where "call_lzma E out cmd_line (Result LZMA_RESULT_OK, ?sz, st3, pd3) =
      Some (st3\<lparr>con_out := con_out st3 @ o1\<rparr>, pd_fp pd3, Jump out (c_memsz (plat E) (rom E) (regs0 E)) cmd_line)"
    using call_lzma_ok by blast
  then show ?thesis using got unfolding load dec sz by simp
qed

text \<open>Every kernel has such a file, by plain bytes, and every list of packets in order has one.\<close>

definition props_byte :: "lzma_props \<Rightarrow> u8" where
  "props_byte pr = of_nat (lc pr + 9 * (lp pr + 5 * pb pr))"

definition lzma_file :: "lzma_props \<Rightarrow> u8 list \<Rightarrow> packet list \<Rightarrow> u8 list" where
  "lzma_file pr dict ps =
     props_byte pr # take 4 (dict @ [0, 0, 0, 0]) @
     u32_bytes LE (of_nat (length (lz_text (run_packets ps lz_start)))) @ [0, 0, 0, 0] @ lzma_encode pr ps"

lemma digit_unique:
  fixes x y a b m :: nat
  assumes "x < m" and "y < m" and "x + m * a = y + m * b"
  shows "x = y \<and> a = b"
proof -
  have "(x + m * a) mod m = x" "(y + m * b) mod m = y" "(x + m * a) div m = a" "(y + m * b) div m = b"
    using assms(1,2) by simp_all
  then show ?thesis using assms(3) by metis
qed

lemma props_of_byte:
  assumes "lc pr \<le> 8" and "lp pr \<le> 4" and "pb pr \<le> 4"
  shows "props_byte pr < 225" and "props_of (props_byte pr # bs) = pr"
proof -
  let ?n = "lc pr + 9 * (lp pr + 5 * pb pr)"
  have n: "?n < 225" using assms by presburger
  then have u: "unat (props_byte pr) = ?n" unfolding props_byte_def by (intro unat_of_nat_small) simp
  with n show lt: "props_byte pr < 225" by (simp add: word_less_nat_alt)
  obtain pr' where "LzmaDecodeProperties (props_byte pr # bs) LZMA_PROPERTIES_SIZE \<lparr>lc = 0, lp = 0, pb = 0\<rparr> = (LZMA_RESULT_OK, pr')"
    and eq: "unat (props_byte pr) = lc pr' + 9 * (lp pr' + 5 * pb pr')" and lim: "lc pr' < 9" "lp pr' < 5" "pb pr' < 5"
    using LzmaDecodeProperties_ok [of LZMA_PROPERTIES_SIZE "props_byte pr # bs"] lt by (auto simp: LZMA_PROPERTIES_SIZE_def)
  then have of: "props_of (props_byte pr # bs) = pr'" by (simp add: props_of_def)
  have less: "lc pr < 9" "lp pr < 5" using assms by simp_all
  have "lc pr' + 9 * (lp pr' + 5 * pb pr') = lc pr + 9 * (lp pr + 5 * pb pr)" using eq u by simp
  from digit_unique [OF lim(1) less(1) this] have a: "lc pr' = lc pr" "lp pr' + 5 * pb pr' = lp pr + 5 * pb pr" by auto
  from digit_unique [OF lim(2) less(2) a(2)] a(1) show "props_of (props_byte pr # bs) = pr" unfolding of by (cases pr, cases pr') simp
qed

lemma lzma_file_image:
  assumes "lc pr \<le> 8" and "lp pr \<le> 4" and "pb pr \<le> 4" and "packets_ok ps lz_start"
    and "length (lz_text (run_packets ps lz_start)) < 2 ^ 32"
  shows "lzma_image (lzma_file pr dict ps) (lz_text (run_packets ps lz_start))"
proof -
  let ?text = "lz_text (run_packets ps lz_start)"
  define d where "d = take 4 (dict @ [0, 0, 0, 0])"
  have d: "length d = 4" by (simp add: d_def)
  have f: "lzma_file pr dict ps = props_byte pr # d @ u32_bytes LE (of_nat (length ?text)) @ [0, 0, 0, 0] @ lzma_encode pr ps"
    by (simp add: lzma_file_def d_def)
  have "take 5 (lzma_file pr dict ps) = props_byte pr # d" "drop 5 (lzma_file pr dict ps) = u32_bytes LE (of_nat (length ?text)) @ [0, 0, 0, 0] @ lzma_encode pr ps"
    "drop 13 (lzma_file pr dict ps) = lzma_encode pr ps"
    unfolding f using d by simp_all
  then show ?thesis using props_of_byte [OF assms(1-3)] lzma_encode_codes [OF assms(1,3-5)] assms(5) d
    unfolding lzma_image_def by (auto simp: f u32_of_take4 codec32.dec_enc codec32.dec_enc_nil simp del: u32_of.simps u32_bytes.simps)
qed

section \<open>From the prompt\<close>

text \<open>The decoder's input buffer must be clear of the output, or decoding would overwrite it.\<close>

definition lzma_buffer_clear :: "env \<Rightarrow> addr \<Rightarrow> u8 list \<Rightarrow> bool" where
  "lzma_buffer_clear E out krn \<longleftrightarrow> lzma_buffer_at (frm E) \<noteq> 0 \<and> apart (lzma_buffer_at (frm E)) 512 out (length krn)"

lemma boot_prompt_lzma_image:
  assumes "prompt_ok E es (mem st)" and "enters (plat E) cs e line" "con_in st = cs @ e # rest"
    and "line = pre @ bytes_of ''lzm'' @ post" "108 \<notin> set pre"
    and "map_of es line = Some data" and clear: "lzma_clear E es line data"
    and lz: "lzma_image data krn" and buf: "lzma_buffer_clear E LOADADDR krn"
  shows "\<exists>st'. boot_prompt E fp0 st = Some (st', Jump LOADADDR (c_memsz (plat E) (rom E) (regs0 E)) MEMORY_BASE) \<and>
    mem_read (mem st') LOADADDR (length krn) = krn \<and>
    cstr (mem st') MEMORY_BASE (console_setting (c_baud (plat E) (rom E) (regs0 E)))"
proof -
  obtain st5 fp where img: "image_at (mem st5) (file_base (plat E) fp) data" "lzma_placed (plat E) (frm E) fp data LOADADDR"
    and cmd: "cstr (mem st5) MEMORY_BASE (console_setting (c_baud (plat E) (rom E) (regs0 E)))"
    and run: "\<And>st4 fp4 r. load_lzma E st5 fp LOADADDR MEMORY_BASE = Some (st4, fp4, r) \<Longrightarrow>
       \<exists>o2. boot_prompt E fp0 st = Some (st4\<lparr>con_out := con_out st4 @ o2\<rparr>, r)"
    using boot_prompt_reaches_lzma [OF assms(1-7), of fp0] by blast
  obtain st4 fp4 where load: "load_lzma E st5 fp LOADADDR MEMORY_BASE = Some (st4, fp4, Jump LOADADDR (c_memsz (plat E) (rom E) (regs0 E)) MEMORY_BASE)"
    and krn: "mem_read (mem st4) LOADADDR (length krn) = krn"
    using load_lzma_image [OF img lz, of MEMORY_BASE] buf by (auto simp: lzma_buffer_clear_def)
  have keep: "mem st4 x = mem st5 x" if "\<not> in_range (lzma_props_at (frm E)) 5 x" "\<not> in_range (lzma_size_at (frm E)) 4 x"
      "\<not> in_range (lzma_buffer_at (frm E)) 512 x" "\<not> in_range LOADADDR (unat (u32_of LE (take 4 (drop 5 data)))) x" for x
    using load_lzma_safe [OF img refl refl, of MEMORY_BASE] load that by auto
  have "cstr (mem st4) MEMORY_BASE (console_setting (c_baud (plat E) (rom E) (regs0 E)))"
    by (rule lzma_keeps_command_line [OF clear cmd keep])
  then show ?thesis using run [OF load] krn by auto
qed

section \<open>The small compressed file\<close>

text \<open>The sample stream is the encoding of one zero byte: nine bits that are all zero.\<close>

lemma sample_ops: "packets_ops \<lparr>lc = 3, lp = 0, pb = 2\<rparr> [Byte 0] lz_start =
    map (\<lambda>i. Bit i False) [0, 1847, 1848, 1850, 1854, 1862, 1878, 1910, 1974]"
  by code_simp

primrec halves :: "nat \<Rightarrow> nat \<Rightarrow> nat \<times> nat \<times> nat" where
  "halves 0 r = (0, r, 0)"
| "halves (Suc n) r = (case renorm r of (r1, k) \<Rightarrow> case halves n (r1 div 2048 * 1024) of (lo, w, m) \<Rightarrow> (lo, w, k + m))"

lemma code_interval_halves:
  "distinct xs \<Longrightarrow> \<forall>i \<in> set xs. i < length P \<and> P ! i = 1024 \<Longrightarrow>
     code_interval r P (map (\<lambda>i. Bit i False) xs) = halves (length xs) r"
proof (induction xs arbitrary: r P)
  case (Cons i xs)
  have "\<forall>j \<in> set xs. j < length (P[i := prob_up 1024]) \<and> P[i := prob_up 1024] ! j = 1024"
    using Cons.prems by (auto simp: nth_list_update)
  then show ?case using Cons by (simp add: lower_part_def Let_def split: prod.splits)
qed simp
lemma halves_numeral: "halves (numeral k) r = (case renorm r of (r1, j) \<Rightarrow> case halves (pred_numeral k) (r1 div 2048 * 1024) of (lo, w, m) \<Rightarrow> (lo, w, j + m))"
  by (subst numeral_eq_Suc) (rule halves.simps)

lemma sample_interval: "\<exists>w. first_interval \<lparr>lc = 3, lp = 0, pb = 2\<rparr> [Byte 0] = (0, w, 1) \<and> 0 < w"
proof -
  have "\<exists>w. halves 9 (2 ^ 32 - 1) = (0, w, 1) \<and> 0 < w" by (simp add: halves_numeral renorm_def)
  moreover have "first_interval \<lparr>lc = 3, lp = 0, pb = 2\<rparr> [Byte 0] = halves (length [0, 1847, 1848, 1850, 1854, 1862, 1878, 1910, 1974 :: nat]) (2 ^ 32 - 1)"
    unfolding first_interval_def sample_ops by (rule code_interval_halves) (simp_all add: LzmaGetNumProbs_def LZMA_BASE_SIZE_def LZMA_LIT_SIZE_def)
  moreover have "length [0, 1847, 1848, 1850, 1854, 1862, 1878, 1910, 1974 :: nat] = 9" by simp
  ultimately show ?thesis by metis
qed

lemma sample_lzma_image: "lzma_image sample_stream [0]"
proof -
  have pr: "props_of (take 5 sample_stream) = \<lparr>lc = 3, lp = 0, pb = 2\<rparr>"
    using props_of_byte(2) [of "\<lparr>lc = 3, lp = 0, pb = 2\<rparr>"] by (simp add: sample_stream_def props_byte_def)
  have body: "drop 13 sample_stream = replicate 10 0" by (simp add: sample_stream_def)
  have zeros: "bytes_num (replicate n 0) = 0" for n by (induction n) simp_all
  have "lzma_codes 3 \<lparr>lc = 3, lp = 0, pb = 2\<rparr> [Byte 0] (replicate 10 0)"
    using sample_interval by (auto simp: lzma_codes_def selects_def zeros)
  moreover have "u32_of LE (take 4 (drop 5 sample_stream)) = of_nat (length [0 :: u8])" by code_simp
  moreover have "13 \<le> length sample_stream" "sample_stream ! 0 < 225" by (simp_all add: sample_stream_def)
  moreover have "lz_text (run_packets [Byte 0] lz_start) = [0]" by (simp add: lz_start_def)
  ultimately show ?thesis unfolding lzma_image_def pr body by (intro conjI exI [of _ "[Byte 0]"] exI [of _ 3]) simp_all
qed

lemma lzma_file_length:
  "19 \<le> length (lzma_file pr dict ps) \<and> length (lzma_file pr dict ps) \<le> 19 + length (packets_ops pr ps lz_start)"
proof -
  obtain lo w n where I: "first_interval pr ps = (lo, w, n)" by (cases "first_interval pr ps")
  have "n \<le> length (packets_ops pr ps lz_start)" using code_interval_bytes [OF I [unfolded first_interval_def]] .
  then show ?thesis by (auto simp: lzma_file_def lzma_encode_def I min_def)
qed

text \<open>Six times an \<^verbatim>\<open>a\<close>, then four times a \<^verbatim>\<open>b\<close>, with every kind of packet.\<close>

definition sample_packets :: "packet list" where
  "sample_packets = [Byte 97, Match 1 5, Byte 98, Rep 0 2, Short]"

definition sample_props :: lzma_props where "sample_props = \<lparr>lc = 3, lp = 0, pb = 2\<rparr>"

lemma sample_packets_text:
  "packets_ok sample_packets lz_start" "lz_text (run_packets sample_packets lz_start) = [97, 97, 97, 97, 97, 97, 98, 98, 98, 98]"
  "length (packets_ops sample_props sample_packets lz_start) \<le> 100"
  by code_simp+

section \<open>Properties\<close>

text \<open>C3: typing the name of a compressed kernel boots it: the kernel entered is, byte for byte, the text
  the file stands for, at the load address and with its command line.\<close>

theorem compressed_kernel_boots:
  assumes "prompt_ok E es (mem st)" and "enters (plat E) cs e line" and "con_in st = cs @ e # rest"
    and "line = pre @ bytes_of ''lzm'' @ post" and "108 \<notin> set pre"
    and "map_of es line = Some data" and "lzma_clear E es line data"
    and "lzma_image data krn" and "lzma_buffer_clear E LOADADDR krn"
  shows "\<exists>st'. boot_prompt E fp0 st = Some (st', Jump LOADADDR (c_memsz (plat E) (rom E) (regs0 E)) MEMORY_BASE) \<and>
    mem_read (mem st') LOADADDR (length krn) = krn \<and>
    cstr (mem st') MEMORY_BASE (console_setting (c_baud (plat E) (rom E) (regs0 E)))"
  by (rule boot_prompt_lzma_image [OF assms])

lemma compressed_kernel_boots_witness:
  "\<forall>fp0. \<exists>st' sz. boot_prompt sample_env fp0 \<lparr>mem = lzma_mem, con_in = lzma_name @ [13], con_out = []\<rparr> = Some (st', Jump LOADADDR sz MEMORY_BASE) \<and>
     mem_read (mem st') LOADADDR 1 = [0]"
proof
  fix fp0 :: cfile
  let ?st = "\<lparr>mem = lzma_mem, con_in = lzma_name @ [13], con_out = []\<rparr>"
  have "enters (plat sample_env) lzma_name 13 lzma_name"
    by (simp add: enters_def lzma_name_def ends_line_def typed_def erases_def)
  moreover have "lzma_name = [107, 46] @ bytes_of ''lzm'' @ [97]" by (simp add: lzma_name_def)
  moreover have "lzma_buffer_clear sample_env LOADADDR [0]"
    by (simp add: lzma_buffer_clear_def sample_env_def sample_frame_def apart_def LOADADDR_def)
  ultimately show "\<exists>st' sz. boot_prompt sample_env fp0 ?st = Some (st', Jump LOADADDR sz MEMORY_BASE) \<and> mem_read (mem st') LOADADDR 1 = [0]"
    using compressed_kernel_boots [of sample_env "[(lzma_name, sample_stream)]" ?st lzma_name 13 lzma_name "[]" "[107, 46]" "[97]" sample_stream "[0]" fp0]
      lzma_prompt lzma_sample_clear sample_lzma_image by auto
qed

text \<open>C4: the decoder undoes the encoder: whatever packets a file is made of, bytes, copies from new or
  recent distances, with any properties, \<open>load_lzma\<close> stores their text and starts it.\<close>

theorem load_lzma_undoes_encoder:
  assumes "lc pr \<le> 8" and "lp pr \<le> 4" and "pb pr \<le> 4" and "packets_ok ps lz_start"
    and "krn = lz_text (run_packets ps lz_start)" and "length krn < 2 ^ 32"
    and "image_at (mem st) (file_base (plat E) fp) (lzma_file pr dict ps)"
    and "lzma_placed (plat E) (frm E) fp (lzma_file pr dict ps) out" and "lzma_buffer_clear E out krn"
  shows "\<exists>st' fp'. load_lzma E st fp out cmd_line = Some (st', fp', Jump out (c_memsz (plat E) (rom E) (regs0 E)) cmd_line) \<and>
    mem_read (mem st') out (length krn) = krn"
  using load_lzma_image [OF assms(7,8) lzma_file_image [OF assms(1-4), folded assms(5)]] assms(6,9)
  by (simp add: lzma_buffer_clear_def)

lemma load_lzma_undoes_encoder_witness:
  "\<exists>st fp st' fp' sz. load_lzma sample_env st fp LOADADDR MEMORY_BASE = Some (st', fp', Jump LOADADDR sz MEMORY_BASE) \<and>
     mem_read (mem st') LOADADDR 10 = [97, 97, 97, 97, 97, 97, 98, 98, 98, 98]"
proof -
  let ?F = "lzma_file sample_props [] sample_packets"
  let ?st = "\<lparr>mem = mem_write (\<lambda>_. 0) 0x30000040 ?F, con_in = [], con_out = []\<rparr>"
  let ?fp = "\<lparr>f_dev = 1, file_len = of_nat (length ?F), file_pos = 0, f_name = [], f_code = 1, f_private = 0x30000000\<rparr>"
  have len: "19 \<le> length ?F" "length ?F \<le> 119"
    using lzma_file_length [of sample_props "[]" sample_packets] sample_packets_text(3) by auto
  have base: "file_base (plat sample_env) ?fp = 0x30000040" by (simp add: file_base_def sample_env_def)
  have img: "image_at (mem ?st) (file_base (plat sample_env) ?fp) ?F" unfolding base using len by (simp add: image_at_def)
  have "lzma_image ?F (lz_text (run_packets sample_packets lz_start))"
    by (rule lzma_file_image) (simp_all add: sample_packets_text sample_props_def)
  then have "u32_of LE (take 4 (drop 5 ?F)) = of_nat (length (lz_text (run_packets sample_packets lz_start)))"
    unfolding lzma_image_def by blast
  then have size: "u32_of LE (take 4 (drop 5 ?F)) = 10" unfolding sample_packets_text(2) by simp
  have placed: "lzma_placed (plat sample_env) (frm sample_env) ?fp ?F LOADADDR"
    unfolding lzma_placed_def Let_def base size using len
    by (simp add: sample_env_def sample_frame_def apart_def LOADADDR_def)
  have "lzma_buffer_clear sample_env LOADADDR [97, 97, 97, 97, 97, 97, 98, 98, 98, 98]"
    by (simp add: lzma_buffer_clear_def sample_env_def sample_frame_def apart_def LOADADDR_def)
  moreover have ten: "length [97, 97, 97, 97, 97, 97, 98, 98, 98, 98 :: u8] = 10" by simp
  ultimately have "\<exists>st' fp'. load_lzma sample_env ?st ?fp LOADADDR MEMORY_BASE =
      Some (st', fp', Jump LOADADDR (c_memsz (plat sample_env) (rom sample_env) (regs0 sample_env)) MEMORY_BASE) \<and>
     mem_read (mem st') LOADADDR (length [97, 97, 97, 97, 97, 97, 98, 98, 98, 98 :: u8]) = [97, 97, 97, 97, 97, 97, 98, 98, 98, 98]"
    by (intro load_lzma_undoes_encoder [OF _ _ _ sample_packets_text(1) sample_packets_text(2) [symmetric] _ img placed])
      (simp_all add: sample_props_def)
  then show ?thesis unfolding ten by blast
qed

end
