(* ===== verification/LzmaCut.thy ===== *)
theory LzmaCut
  imports LzmaKernel
begin

text \<open>
  A compressed kernel that has lost its end. Two runs of the decoder are followed side by side, one on
  the whole file and one on what is left of it: they do the same until the second needs a
  byte that is missing, and then it returns with a data error.
\<close>

section \<open>Two runs\<close>

text \<open>As long as the first run gets through, the second one gets through with a related result or
  returns a data error.\<close>

definition tied :: "('a \<Rightarrow> 'b \<Rightarrow> bool) \<Rightarrow> ('p, 'a) run \<Rightarrow> ('q, 'b) run \<Rightarrow> bool" where
  "tied R r r' \<longleftrightarrow> (\<forall>x. r = Inr x \<longrightarrow> (case r' of Inl (e, m, q) \<Rightarrow> e = Result LZMA_RESULT_DATA_ERROR | Inr y \<Rightarrow> R x y))"

lemma tied_simps [simp]:
  "tied R (Inr x) (Inr y) \<longleftrightarrow> R x y" "tied R (fail e d) r'" "tied R r (fail (Result LZMA_RESULT_DATA_ERROR) d')"
  by (simp_all add: tied_def fail_def)

lemma tied_bind: "tied Q r r' \<Longrightarrow> (\<And>x y. Q x y \<Longrightarrow> tied R (f x) (g y)) \<Longrightarrow> tied R (bindE r f) (bindE r' g)"
  by (cases r; cases r') (auto simp: tied_def split: sum.splits)

text \<open>The variables of the decoder but for its input.\<close>

definition variables :: "'p lzma \<Rightarrow> u32 \<times> u32 \<times> u16 list \<times> u32 \<times> u8 \<times> nat \<times> u32 list" where
  "variables d = (rc_range d, rc_code d, probs d, now_pos d, prev_byte d, lz_state d, [rep0 d, rep1 d, rep2 d, rep3 d])"

locale lzma_cut = lzma_coded cb inv touch dest rest spare J m0 + cut: lzma_coded cb inv' touch dest rest' spare' J m1
  for cb :: "machine \<Rightarrow> 'p \<Rightarrow> (int \<times> addr \<times> u32 \<times> machine \<times> 'p) option"
    and inv inv' :: "machine \<Rightarrow> 'p \<Rightarrow> bool"
    and touch :: "addr \<Rightarrow> bool" and dest :: "addr \<Rightarrow> bool"
    and rest rest' :: "machine \<Rightarrow> 'p \<Rightarrow> u8 list" and spare spare' :: nat
    and J :: job and m0 m1 :: machine +
  fixes missing :: "u8 list"
  assumes dry: "inv' m p \<Longrightarrow> rest' m p = [] \<Longrightarrow> \<exists>b m' p'. cb m p = Some (LZMA_RESULT_OK, b, 0, m', p')"
begin

definition tracks :: "u32 \<Rightarrow> 'p lzma \<Rightarrow> 'p lzma \<Rightarrow> bool" where
  "tracks n d e \<longleftrightarrow> fed m0 nprobs d \<and> cut.fed m1 nprobs e \<and> input d = cut.input e @ missing \<and>
     variables e = variables d \<and> (\<forall>x. dest x \<longrightarrow> mem (mach e) x = mem (mach d) x) \<and> now_pos d = n \<and> n \<le> out_size J"

lemma tracks_fields:
  assumes "tracks n d e"
  shows "rc_range e = rc_range d" "rc_code e = rc_code d" "probs e = probs d" "now_pos e = n" "now_pos d = n"
    "prev_byte e = prev_byte d" "lz_state e = lz_state d" "rep0 e = rep0 d" "rep1 e = rep1 d" "rep2 e = rep2 d" "rep3 e = rep3 d"
  using assms by (simp_all add: tracks_def variables_def)

text \<open>The variables that are no input may be set alike.\<close>

lemma tracks_set:
  assumes "tracks n d e"
  shows "tracks n (d\<lparr>lz_state := s\<rparr>) (e\<lparr>lz_state := s\<rparr>)" "tracks n (d\<lparr>rep0 := r\<rparr>) (e\<lparr>rep0 := r\<rparr>)"
    "tracks n (d\<lparr>rc_range := u\<rparr>) (e\<lparr>rc_range := u\<rparr>)" "tracks n (d\<lparr>rc_code := v\<rparr>) (e\<lparr>rc_code := v\<rparr>)"
    "tracks n (d\<lparr>rep1 := r\<rparr>) (e\<lparr>rep1 := r\<rparr>)" "tracks n (d\<lparr>rep2 := r\<rparr>) (e\<lparr>rep2 := r\<rparr>)" "tracks n (d\<lparr>rep3 := r\<rparr>) (e\<lparr>rep3 := r\<rparr>)"
    "table_ok nprobs P \<Longrightarrow> tracks n (d\<lparr>probs := P\<rparr>) (e\<lparr>probs := P\<rparr>)"
  using assms by (simp_all add: tracks_def variables_def fed_def cut.fed_def calm_def cut.calm_def input_def cut.input_def table_ok_def)

text \<open>Reading a byte: it is there for both, or the second run is out of input.\<close>

lemma shift_tied:
  assumes t: "tracks n d e"
  shows "tied (tracks n) (rc_shift_in cb d) (rc_shift_in cb e)"
proof (cases "cut.input e")
  case Nil
  have e: "cut.fed m1 nprobs e" using t by (simp add: tracks_def)
  then have inv: "inv' (mach e) (pvt e)" by (simp add: cut.fed_def cut.calm_def)
  have "length (mem_read (mem (mach e)) (buffer e) (unat (buffer_lim e - buffer e))) = 0" "rest' (mach e) (pvt e) = []"
    using Nil unfolding cut.input_def by simp_all
  then have out: "buffer e = buffer_lim e" "rest' (mach e) (pvt e) = []" by (simp_all add: unat_eq_0)
  obtain b m' p' where "cb (mach e) (pvt e) = Some (LZMA_RESULT_OK, b, 0, m', p')" using dry [OF inv out(2)] by blast
  then show ?thesis by (simp add: rc_shift_in_def [of cb e] rc_test_def out fail_def tied_def)
next
  case (Cons c cs)
  have d: "fed m0 nprobs d" "input d = c # (cs @ missing)" and e: "cut.fed m1 nprobs e" "cut.input e = c # cs"
    using t Cons by (simp_all add: tracks_def)
  obtain d' where d': "rc_shift_in cb d = Inr d'" "fed m0 nprobs d'" "input d' = cs @ missing" "kept d d'" "rc_range d' = rc_range d"
    "rc_code d' = push_bit 8 (rc_code d) OR ucast c" "probs d' = probs d"
    using rc_shift_in_fed [OF d] by blast
  obtain e' where e': "rc_shift_in cb e = Inr e'" "cut.fed m1 nprobs e'" "cut.input e' = cs" "kept e e'" "rc_range e' = rc_range e"
    "rc_code e' = push_bit 8 (rc_code e) OR ucast c" "probs e' = probs e"
    using cut.rc_shift_in_fed [OF e] by blast
  have "tracks n d' e'"
    using t d' e' by (simp add: tracks_def variables_def kept_def same_def)
  then show ?thesis by (simp add: d'(1) e'(1))
qed

lemma normalize_tied:
  assumes t: "tracks n d e"
  shows "tied (tracks n) (rc_normalize cb d) (rc_normalize cb e)"
proof -
  have "tied (tracks n) (bindE (rc_shift_in cb d) (\<lambda>d1. Inr (d1\<lparr>rc_range := push_bit 8 (rc_range d1)\<rparr>)))
      (bindE (rc_shift_in cb e) (\<lambda>d1. Inr (d1\<lparr>rc_range := push_bit 8 (rc_range d1)\<rparr>)))"
    by (rule tied_bind [OF shift_tied [OF t]]) (simp add: tracks_fields tracks_set)
  then show ?thesis using t by (simp add: rc_normalize_def tracks_fields [OF t])
qed

text \<open>A result and the state behind it.\<close>

definition alike :: "u32 \<Rightarrow> 'v \<times> 'p lzma \<Rightarrow> 'v \<times> 'p lzma \<Rightarrow> bool" where
  "alike n = (\<lambda>(v, d) (w, e). w = v \<and> tracks n d e)"

lemma alike_simps [simp]: "alike n (v, d) (w, e) \<longleftrightarrow> w = v \<and> tracks n d e"
  by (simp add: alike_def)

lemma alike_bind:
  "tied (alike n) r r' \<Longrightarrow> (\<And>v d e. tracks n d e \<Longrightarrow> tied R (f v d) (g v e)) \<Longrightarrow>
    tied R (bindE r (\<lambda>(v, d). f v d)) (bindE r' (\<lambda>(v, d). g v d))"
  by (erule tied_bind) auto

lemma decode_bit_tied:
  assumes t: "tracks n d e"
  shows "tied (alike n) (decode_bit cb i d) (decode_bit cb i e)"
  unfolding decode_bit_def
proof (rule tied_bind [OF normalize_tied [OF t]])
  fix d e assume t: "tracks n d e"
  have "table_ok nprobs (probs d)" using t fed_table by (auto simp: tracks_def)
  then have "table_ok nprobs ((probs d)[i := prob_up (probs d ! i)])" "table_ok nprobs ((probs d)[i := prob_down (probs d ! i)])"
    if "i < length (probs d)"
    using that prob_up_ok [of "probs d ! i"] prob_down_ok [of "probs d ! i"]
    by (auto simp: table_ok_def dest!: set_update_subset_insert [THEN subsetD])
  then show "tied (alike n)
     (if length (probs d) \<le> i then fail OutOfBounds d
      else let p = probs d ! i; bound = drop_bit kNumBitModelTotalBits (rc_range d) * ucast p
           in if rc_code d < bound then Inr (False, d\<lparr>rc_range := bound, probs := (probs d)[i := prob_up p]\<rparr>)
              else Inr (True, d\<lparr>rc_range := rc_range d - bound, rc_code := rc_code d - bound, probs := (probs d)[i := prob_down p]\<rparr>))
     (if length (probs e) \<le> i then fail OutOfBounds e
      else let p = probs e ! i; bound = drop_bit kNumBitModelTotalBits (rc_range e) * ucast p
           in if rc_code e < bound then Inr (False, e\<lparr>rc_range := bound, probs := (probs e)[i := prob_up p]\<rparr>)
              else Inr (True, e\<lparr>rc_range := rc_range e - bound, rc_code := rc_code e - bound, probs := (probs e)[i := prob_down p]\<rparr>))"
    using t by (simp add: Let_def tracks_fields [OF t] tracks_set)
qed

lemma bit_tree_loop_tied: "tracks n d e \<Longrightarrow> tied (alike n) (bit_tree_loop cb base k r d) (bit_tree_loop cb base k r e)"
  by (induction k arbitrary: r d e) (auto intro!: alike_bind [OF decode_bit_tied])

lemma bit_tree_tied: "tracks n d e \<Longrightarrow> tied (alike n) (bit_tree cb base k d) (bit_tree cb base k e)"
  unfolding bit_tree_def by (rule alike_bind [OF bit_tree_loop_tied]) simp_all

lemma lit_loop_tied: "tracks n d e \<Longrightarrow> tied (alike n) (lit_loop cb base k s d) (lit_loop cb base k s e)"
  by (induction k arbitrary: s d e) (auto intro!: alike_bind [OF decode_bit_tied])

lemma matched_loop_tied: "tracks n d e \<Longrightarrow> tied (alike n) (matched_loop cb base k mb s d) (matched_loop cb base k mb s e)"
  by (induction k arbitrary: mb s d e) (auto simp: Let_def intro!: alike_bind [OF decode_bit_tied])

lemma reverse_tree_tied: "tracks n d e \<Longrightarrow> tied (alike n) (reverse_tree cb base k mi i r d) (reverse_tree cb base k mi i r e)"
  by (induction k arbitrary: mi i r d e) (auto intro!: alike_bind [OF decode_bit_tied])

lemma direct_bits_tied: "tracks n d e \<Longrightarrow> tied (alike n) (direct_bits cb k r d) (direct_bits cb k r e)"
proof (induction k arbitrary: r d e)
  case (Suc k)
  show ?case unfolding direct_bits.simps
    by (rule tied_bind [OF normalize_tied [OF Suc.prems]]) (auto simp: Let_def tracks_fields intro!: Suc.IH tracks_set)
qed simp

lemma decode_len_tied: "tracks n d e \<Longrightarrow> tied (alike n) (decode_len cb base ps d) (decode_len cb base ps e)"
  unfolding decode_len_def
  by (auto intro!: alike_bind [OF decode_bit_tied] alike_bind [OF bit_tree_tied] bit_tree_tied)

lemma distance_bits_tied: "tracks n d e \<Longrightarrow> tied (alike n) (distance_bits cb slot d) (distance_bits cb slot e)"
  unfolding distance_bits_def Let_def
  by (auto intro!: alike_bind [OF direct_bits_tied] reverse_tree_tied)

lemma decode_distance_tied: "tracks n d e \<Longrightarrow> tied (alike n) (decode_distance cb l d) (decode_distance cb l e)"
  unfolding decode_distance_def by (rule alike_bind [OF bit_tree_tied distance_bits_tied])

text \<open>The output of both is the same.\<close>

lemma out_byte_tied:
  assumes t: "tracks n d e"
  shows "tied (=) (out_byte J d) (out_byte J e)"
proof -
  have "mem (mach e) (out_stream J + (n - rep0 d)) = mem (mach d) (out_stream J + (n - rep0 d))" if "n - rep0 d < n"
  proof -
    have "n \<le> out_size J" using t by (simp add: tracks_def)
    then have "in_range (out_stream J) (unat (out_size J)) (out_stream J + (n - rep0 d))"
      using that by (simp add: in_range_def word_less_nat_alt word_le_nat_alt)
    then show ?thesis using t room by (simp add: tracks_def)
  qed
  then show ?thesis by (simp add: out_byte_def Let_def tracks_fields [OF t])
qed

lemma put_byte_tracks:
  assumes t: "tracks n d e" and lt: "n < out_size J"
  shows "tracks (n + 1) (put_byte J c d) (put_byte J c e)"
proof -
  have pos: "now_pos d < out_size J" "now_pos e < out_size J" using lt by (simp_all add: tracks_fields [OF t])
  have fed: "fed m0 nprobs d" "cut.fed m1 nprobs e" using t by (simp_all add: tracks_def)
  have "n + 1 \<le> out_size J" using lt by (rule inc_le)
  moreover have "variables (put_byte J c e) = variables (put_byte J c d)"
    by (simp add: variables_def tracks_fields [OF t]) (simp add: put_byte_def tracks_fields [OF t])
  moreover have "mem (mach (put_byte J c e)) x = mem (mach (put_byte J c d)) x" if "dest x" for x
    using t that by (simp add: put_byte_def tracks_fields [OF t]) (simp add: tracks_def)
  moreover have "now_pos (put_byte J c d) = n + 1" by (simp add: put_byte_def tracks_fields [OF t])
  ultimately show ?thesis
    using t put_byte_fed [OF fed(1) pos(1)] cut.put_byte_fed [OF fed(2) pos(2)] by (simp add: tracks_def)
qed

lemma literal_tied:
  assumes t: "tracks n d e" and lt: "n < out_size J"
  shows "tied (tracks (n + 1)) (decode_literal cb J d) (decode_literal cb J e)"
proof -
  have base: "lit_base J e = lit_base J d" by (simp add: lit_base_def tracks_fields [OF t])
  have first: "tied (alike n)
      (if lz_state d \<ge> kNumLitStates then bindE (out_byte J d) (\<lambda>mb. matched_loop cb b 8 (unat mb) 1 d) else Inr (1, d))
      (if lz_state e \<ge> kNumLitStates then bindE (out_byte J e) (\<lambda>mb. matched_loop cb b 8 (unat mb) 1 e) else Inr (1, e))" for b
    using t by (auto simp: tracks_fields [OF t] intro!: tied_bind [OF out_byte_tied] matched_loop_tied)
  show ?thesis unfolding decode_literal_def Let_def base
    by (intro alike_bind [OF first] alike_bind [OF lit_loop_tied])
      (auto simp: tracks_fields intro!: put_byte_tracks [OF _ lt] tracks_set)
qed

lemma old_distance_tied:
  "tracks n d e \<Longrightarrow> tied (tracks n) (decode_old_distance cb d) (decode_old_distance cb e)"
  unfolding decode_old_distance_def
  by (simp only: tracks_fields(7)) (auto simp: tracks_fields intro!: alike_bind [OF decode_bit_tied] tracks_set)

definition same_kind :: "u32 \<Rightarrow> 'p match_kind \<Rightarrow> 'p match_kind \<Rightarrow> bool" where
  "same_kind n k k' \<longleftrightarrow> (case (k, k') of
     (ShortRep d, ShortRep e) \<Rightarrow> tracks (n + 1) d e
   | (WithLength b d, WithLength b' e) \<Rightarrow> b' = b \<and> tracks n d e
   | _ \<Rightarrow> False)"

lemma short_rep_tied:
  assumes t: "tracks n d e" and lt: "n < out_size J"
  shows "tied (same_kind n) (short_rep J d) (short_rep J e)"
proof -
  have "tied (same_kind n) (bindE (out_byte J (d\<lparr>lz_state := s\<rparr>)) (\<lambda>c. Inr (ShortRep (put_byte J c (d\<lparr>lz_state := s\<rparr>)))))
      (bindE (out_byte J (e\<lparr>lz_state := s\<rparr>)) (\<lambda>c. Inr (ShortRep (put_byte J c (e\<lparr>lz_state := s\<rparr>)))))" for s
    by (rule tied_bind [OF out_byte_tied [OF tracks_set(1) [OF t]]]) (simp add: same_kind_def put_byte_tracks [OF tracks_set(1) [OF t] lt])
  then show ?thesis by (simp add: short_rep_def Let_def tracks_fields [OF t])
qed

lemma match_kind_tied:
  assumes t: "tracks n d e" and lt: "n < out_size J"
  shows "tied (same_kind n) (decode_match_kind cb J ps d) (decode_match_kind cb J ps e)"
proof -
  have rep: "same_kind n (rep_match d) (rep_match e)" if "tracks n d e" for d e
    using that by (simp add: same_kind_def rep_match_def tracks_fields [OF that] tracks_set)
  show ?thesis
    unfolding decode_match_kind_def tracks_fields(7) [OF t]
    by (rule alike_bind [OF decode_bit_tied [OF t]])
      (auto simp: tracks_fields same_kind_def [of n "WithLength _ _"] intro!: alike_bind [OF decode_bit_tied]
        tied_bind [OF old_distance_tied] short_rep_tied lt rep tracks_set)
qed

text \<open>A copy, and a round of the main loop.\<close>

definition some_tracks :: "'p lzma \<Rightarrow> 'p lzma \<Rightarrow> bool" where
  "some_tracks d e \<longleftrightarrow> (\<exists>n. tracks n d e)"

lemma some_tracksI: "tracks n d e \<Longrightarrow> some_tracks d e"
  by (auto simp: some_tracks_def)

lemma copy_match_tied:
  "tracks n d e \<Longrightarrow> n < out_size J \<Longrightarrow> tied some_tracks (copy_match J k d) (copy_match J k e)"
proof (induction k arbitrary: n d e rule: less_induct)
  case (less k)
  note t = less.prems(1) and lt = less.prems(2)
  have "tied some_tracks
      (if k - 1 \<noteq> 0 \<and> now_pos (put_byte J c d) < out_size J then copy_match J (k - 1) (put_byte J c d) else Inr (put_byte J c d))
      (if k - 1 \<noteq> 0 \<and> now_pos (put_byte J c e) < out_size J then copy_match J (k - 1) (put_byte J c e) else Inr (put_byte J c e))" for c
  proof -
    have p: "tracks (n + 1) (put_byte J c d) (put_byte J c e)" by (rule put_byte_tracks [OF t lt])
    have "k - 1 < k" if "k - 1 \<noteq> 0" using that by simp
    then show ?thesis using less.IH [OF _ p] some_tracksI [OF p] by (simp add: tracks_fields [OF p])
  qed
  then show ?case by (subst (1 2) copy_match.simps, intro tied_bind [OF out_byte_tied [OF t]]) (simp add: Let_def)
qed

definition same_round :: "'p round \<Rightarrow> 'p round \<Rightarrow> bool" where
  "same_round r r' \<longleftrightarrow> (case (r, r') of
     (Next d, Next e) \<Rightarrow> some_tracks d e | (Stop d, Stop e) \<Rightarrow> some_tracks d e | _ \<Rightarrow> False)"

lemma same_round_simps [simp]:
  "same_round (Next d) (Next e) \<longleftrightarrow> some_tracks d e" "same_round (Stop d) (Stop e) \<longleftrightarrow> some_tracks d e"
  by (simp_all add: same_round_def)

lemma match_tied:
  assumes t: "tracks n d e" and lt: "n < out_size J"
  shows "tied same_round (decode_match cb J base ps d) (decode_match cb J base ps e)"
proof -
  have dist: "tied (\<lambda>(d, f) (e, g). g = f \<and> tracks n d e)
     (if lz_state d < 4 then bindE (decode_distance cb l (d\<lparr>lz_state := lz_state d + kNumLitStates\<rparr>))
        (\<lambda>(r, d). Inr (d\<lparr>rep0 := r + 1\<rparr>, r + 1 = 0)) else Inr (d, False))
     (if lz_state e < 4 then bindE (decode_distance cb l (e\<lparr>lz_state := lz_state e + kNumLitStates\<rparr>))
        (\<lambda>(r, d). Inr (d\<lparr>rep0 := r + 1\<rparr>, r + 1 = 0)) else Inr (e, False))" if "tracks n d e" for l d e
    using that by (auto simp: tracks_fields [OF that] intro!: alike_bind [OF decode_distance_tied] tracks_set)
  have rest: "tied same_round
      (if f then Inr (Stop d) else if rep0 d > now_pos d then fail (Result LZMA_RESULT_DATA_ERROR) d
       else bindE (copy_match J k d) (\<lambda>d. Inr (Next d)))
      (if f then Inr (Stop e) else if rep0 e > now_pos e then fail (Result LZMA_RESULT_DATA_ERROR) e
       else bindE (copy_match J k e) (\<lambda>d. Inr (Next d)))" if "tracks n d e" for f k d e
    using that by (auto simp: tracks_fields [OF that] intro!: tied_bind [OF copy_match_tied [OF _ lt]] intro: some_tracksI)
  show ?thesis unfolding decode_match_def
    by (intro alike_bind [OF decode_len_tied [OF t]], erule tied_bind [OF dist]) (auto intro!: rest)
qed

lemma round_tied:
  assumes t: "tracks n d e" and lt: "n < out_size J"
  shows "tied same_round (decode_round cb J d) (decode_round cb J e)"
proof -
  have kind: "tied same_round
      (case k of ShortRep d \<Rightarrow> Inr (Next d) | WithLength base d \<Rightarrow> decode_match cb J base ps d)
      (case k' of ShortRep d \<Rightarrow> Inr (Next d) | WithLength base d \<Rightarrow> decode_match cb J base ps d)" if "same_kind n k k'" for k k' ps
    using that by (auto simp: same_kind_def split: match_kind.splits intro: match_tied [OF _ lt] some_tracksI)
  show ?thesis unfolding decode_round_def Let_def tracks_fields(4,5,7) [OF t]
    by (rule alike_bind [OF decode_bit_tied [OF t]])
      (auto intro!: tied_bind [OF literal_tied [OF _ lt]] tied_bind [OF match_kind_tied [OF _ lt]] kind intro: some_tracksI)
qed

lemma loop_tied: "some_tracks d e \<Longrightarrow> tied some_tracks (decode_loop cb J k d) (decode_loop cb J k e)"
proof (induction k arbitrary: d e)
  case 0
  then obtain n where "tracks n d e" by (auto simp: some_tracks_def)
  then show ?case using 0 by (simp add: tracks_fields [OF \<open>tracks n d e\<close>])
next
  case (Suc k)
  then obtain n where t: "tracks n d e" by (auto simp: some_tracks_def)
  have "tied some_tracks (case r of Stop d \<Rightarrow> Inr d | Next d \<Rightarrow> decode_loop cb J k d)
      (case r' of Stop d \<Rightarrow> Inr d | Next d \<Rightarrow> decode_loop cb J k d)" if "same_round r r'" for r r'
    using that Suc.IH by (auto simp: same_round_def split: round.splits)
  then show ?case using Suc.prems by (auto simp: tracks_fields [OF t] intro!: tied_bind [OF round_tied [OF t]])
qed

lemma init_loop_tied: "tracks n d e \<Longrightarrow> tied (tracks n) (rc_init_loop cb k d) (rc_init_loop cb k e)"
  by (induction k arbitrary: d e) (auto intro!: tied_bind [OF shift_tied])

lemma start_tracks:
  assumes "inv m0 p" and "inv' m1 p'" and "rest m0 p = rest' m1 p' @ missing" and "\<And>x. dest x \<Longrightarrow> mem m1 x = mem m0 x"
  shows "tracks 0 ((lzma_start J m0 p)\<lparr>buffer := 0, buffer_lim := 0, rc_code := 0, rc_range := 0xFFFFFFFF\<rparr>)
    ((lzma_start J m1 p')\<lparr>buffer := 0, buffer_lim := 0, rc_code := 0, rc_range := 0xFFFFFFFF\<rparr>)"
proof -
  have half: "(of_int (drop_bit 1 kBitModelTotal) :: u16) = 1024" by (simp add: kBitModelTotal_def)
  have probs: "probs (lzma_start J m q) = replicate nprobs 1024" for m and q :: 'p
    unfolding nprobs_def lzma_start_def half by (simp add: LzmaGetNumProbs_def Literal_base)
  have start: "mach (lzma_start J m q) = m" "pvt (lzma_start J m q) = q" "now_pos (lzma_start J m q) = 0" for m and q :: 'p
    by (simp_all add: lzma_start_def)
  have vars: "prev_byte (lzma_start J m1 p') = prev_byte (lzma_start J m0 p)" "lz_state (lzma_start J m1 p') = lz_state (lzma_start J m0 p)"
    "rep0 (lzma_start J m1 p') = rep0 (lzma_start J m0 p)" "rep1 (lzma_start J m1 p') = rep1 (lzma_start J m0 p)"
    "rep2 (lzma_start J m1 p') = rep2 (lzma_start J m0 p)" "rep3 (lzma_start J m1 p') = rep3 (lzma_start J m0 p)"
    by (simp_all add: lzma_start_def)
  show ?thesis
    using assms by (simp add: tracks_def fed_def cut.fed_def calm_def cut.calm_def framed_def input_def cut.input_def
        variables_def probs start vars in_range_def prob_ok_def)
qed

text \<open>The whole call: when more is missing than the decoder could do without, it returns a data error.\<close>

lemma LzmaDecode_cut:
  assumes inv: "inv m0 p" "inv' m1 p'" and codes: "lzma_codes spare (props J) ps (rest m0 p)"
    and total: "length (lz_text (run_packets ps lz_start)) = unat (out_size J)"
    and cut: "rest m0 p = rest' m1 p' @ missing" "Suc spare < length missing"
    and agree: "\<And>x. dest x \<Longrightarrow> mem m1 x = mem m0 x"
  shows "\<exists>m q. LzmaDecode cb J m1 p' = (Result LZMA_RESULT_DATA_ERROR, 0, m, q)"
proof -
  let ?run = "\<lambda>m q. bindE (rc_init cb (lzma_start J m q)) (decode_loop cb J (unat (out_size J)))"
  obtain e f where "?run m0 p = Inr f" and f: "primed m0 nprobs [] f"
    using decode_packets_run [OF inv(1) codes total] by auto
  moreover have "tied some_tracks (?run m0 p) (?run m1 p')" unfolding rc_init_def
    by (intro tied_bind [OF init_loop_tied [OF start_tracks [OF inv cut(1) agree]]] loop_tied some_tracksI)
  moreover have "\<not> some_tracks f g" for g
  proof
    assume "some_tracks f g"
    then have "input f = cut.input g @ missing" by (auto simp: some_tracks_def tracks_def)
    moreover have "length (input f) = Suc spare" using f by (simp add: primed_def selects_def)
    ultimately show False using cut(2) by simp
  qed
  ultimately obtain m q where "?run m1 p' = Inl (Result LZMA_RESULT_DATA_ERROR, m, q)"
    by (cases "?run m1 p'") (auto simp: tied_def)
  then have "bindE (rc_init cb (lzma_start J m1 p')) (\<lambda>d. bindE (decode_loop cb J (unat (out_size J)) d) (rc_normalize cb)) =
      Inl (Result LZMA_RESULT_DATA_ERROR, m, q)"
    by (cases "rc_init cb (lzma_start J m1 p')") auto
  then show ?thesis by (simp add: LzmaDecode_def)
qed

end

section \<open>What is left of a file\<close>

lemma feeding_dry:
  assumes "feeding p data b buf out n st pd" and "left_of data st pd = []"
  shows "\<exists>b m' p'. read_data p sp st pd = Some (LZMA_RESULT_OK, b, 0, m', p')"
proof -
  obtain m' p' where "read_data p sp st pd = Some (LZMA_RESULT_OK, buf, piece pd, m', p')" "unat (piece pd) = 0"
    using feeding_read [OF assms(1), of sp] assms(2) by auto
  then show ?thesis by (simp add: unat_eq_0)
qed

interpretation cutting: lzma_cut "read_data p sp" "feeding p data b buf out (unat sz)" "feeding p data' b' buf out (unat sz)"
    "in_range buf 512" "in_range out (unat sz)" "left_of data" "left_of data'" spare spare' "job_of bs out sz" m0 m1 missing
  for p sp data b buf out sz data' b' spare spare' bs m0 m1 missing
  by unfold_locales (rule feeding_dry)

text \<open>Somewhere in memory there would be room for the whole file.\<close>

definition lzma_room :: "env \<Rightarrow> u8 list \<Rightarrow> addr \<Rightarrow> nat \<Rightarrow> bool" where
  "lzma_room E data out n \<longleftrightarrow> length data < 2 ^ 31 \<and>
     (\<exists>b. b \<noteq> 0 \<and> unat b + length data < 2 ^ 32 \<and> apart b (length data) (lzma_buffer_at (frm E)) 512 \<and> apart b (length data) out n)"

lemma whole_file_feeds:
  assumes f: "feeding p part b buf out n st pd" and pos: "unat (file_pos (pd_fp pd)) \<le> length data"
    and room: "length data < 2 ^ 31" "data \<noteq> []" "b' \<noteq> 0" "unat b' + length data < 2 ^ 32" "apart b' (length data) buf 512" "apart b' (length data) out n"
  shows "\<exists>m pd'. feeding p data b' buf out n (st\<lparr>mem := m\<rparr>) pd' \<and> file_pos (pd_fp pd') = file_pos (pd_fp pd) \<and>
    (\<forall>x. in_range out n x \<longrightarrow> m x = mem st x)"
proof -
  let ?m = "mem_write (mem st) b' data"
    and ?pd = "pd\<lparr>pd_fp := (pd_fp pd)\<lparr>file_len := of_nat (length data), f_private := b' - fs_ent_size p\<rparr>\<rparr>"
  have "image_at ?m b' data" using room(1) by (simp add: image_at_def mem_read_write_same)
  then have "feeding p data b' buf out n (st\<lparr>mem := ?m\<rparr>) ?pd"
    using f pos room by (simp add: feeding_def reader_def file_base_def)
  moreover have "?m x = mem st x" if "in_range out n x" for x
    using that apart_not_in_range room(6) by (intro mem_write_outside) blast
  ultimately show ?thesis by (intro exI [of _ ?m] exI [of _ ?pd]) simp
qed

text \<open>The loader refuses it.\<close>

definition decoding_error :: "env \<Rightarrow> u8 list" where
  "decoding_error E = console_text (plat E) (bytes_of ''\<newline>Error in decoding LZMA-compressed kernel image. Aborting.\<newline>'')"

lemma call_lzma_refuses:
  assumes "r \<noteq> LZMA_RESULT_OK"
  shows "call_lzma E out cmd_line (Result r, n, st, pd) = Some (st\<lparr>con_out := con_out st @ decoding_error E\<rparr>, pd_fp pd, Returned)"
  using printf_text [of "''\<newline>Error in decoding LZMA-compressed kernel image. Aborting.\<newline>''" "plat E" "printf_at (frm E)" st] assms
  by (simp add: call_lzma_def decoding_error_def)

lemma load_lzma_cut:
  assumes img: "image_at (mem st) (file_base (plat E) fp) (take k data)" and pl: "lzma_placed (plat E) (frm E) fp (take k data) out"
    and k: "13 \<le> k" "k + spare + 2 \<le> length data"
    and first: "data ! 0 < 225" and size: "u32_of LE (take 4 (drop 5 data)) = of_nat n" "n < 2 ^ 32"
    and codes: "lzma_codes spare (props_of (take 5 data)) ps (drop 13 data)" "length (lz_text (run_packets ps lz_start)) = n"
    and buf: "lzma_buffer_at (frm E) \<noteq> 0" "apart (lzma_buffer_at (frm E)) 512 out n" and room: "lzma_room E data out n"
  shows "\<exists>st' fp'. load_lzma E st fp out cmd_line = Some (st'\<lparr>con_out := con_out st' @ decoding_error E\<rparr>, fp', Returned)"
proof -
  let ?bs = "take 5 data" and ?sz = "u32_of LE (take 4 (drop 5 data))"
  have hdr: "take 5 (take k data) = ?bs" "take 4 (drop 5 (take k data)) = take 4 (drop 5 data)" "drop 13 (take k data) = take (k - 13) (drop 13 data)"
    using k by (simp_all add: drop_take)
  have sz: "unat ?sz = n" using size by simp
  have bs0: "?bs ! 0 < 225" using first by simp
  obtain m2 pd where r: "reader (plat E) (take k data) (file_base (plat E) fp) (lzma_buffer_at (frm E)) out (unat ?sz) (st\<lparr>mem := m2\<rparr>) pd"
    and pos: "file_pos (pd_fp pd) = 13"
    and load: "load_lzma E st fp out cmd_line =
      call_lzma E out cmd_line (LzmaDecode (read_data (plat E) (printf_at (frm E))) (job_of ?bs out ?sz) (st\<lparr>mem := m2\<rparr>) pd)"
    using load_lzma_header [OF img pl refl refl, of cmd_line] unfolding hdr if_P [OF bs0] by blast
  have part: "feeding (plat E) (take k data) (file_base (plat E) fp) (lzma_buffer_at (frm E)) out (unat ?sz) (st\<lparr>mem := m2\<rparr>) pd"
    using r pos k pl buf sz by (simp add: feeding_def lzma_placed_def Let_def)
  obtain b where b: "length data < 2 ^ 31" "b \<noteq> 0" "unat b + length data < 2 ^ 32" "apart b (length data) (lzma_buffer_at (frm E)) 512"
    "apart b (length data) out (unat ?sz)"
    using room unfolding lzma_room_def sz by blast
  have ne: "data \<noteq> []" and le: "unat (file_pos (pd_fp pd)) \<le> length data" using k pos by auto
  obtain m pd0 where whole: "feeding (plat E) data b (lzma_buffer_at (frm E)) out (unat ?sz) (st\<lparr>mem := m2, mem := m\<rparr>) pd0"
    and pos0: "file_pos (pd_fp pd0) = 13" and agree: "\<And>x. in_range out (unat ?sz) x \<Longrightarrow> m x = m2 x"
    using whole_file_feeds [OF part le b(1) ne b(2-5)] pos by auto
  have left: "left_of data (st\<lparr>mem := m2, mem := m\<rparr>) pd0 = left_of (take k data) (st\<lparr>mem := m2\<rparr>) pd @ drop k data"
    using k by (simp add: left_of_def pos pos0 hdr(3)) (metis append_take_drop_id drop_drop le_add_diff_inverse2)
  have short: "Suc spare < length data - k" using k(2) by linarith
  obtain m3 q where "LzmaDecode (read_data (plat E) (printf_at (frm E))) (job_of ?bs out ?sz) (st\<lparr>mem := m2\<rparr>) pd =
      (Result LZMA_RESULT_DATA_ERROR, 0, m3, q)"
    using cutting.LzmaDecode_cut [OF whole part, where bs = ?bs and sp = "printf_at (frm E)" and missing = "drop k data", of spare ps]
      left codes agree short sz by (auto simp: job_of_def left_of_def pos0 simp del: u32_of.simps)
  then show ?thesis unfolding load by (auto simp: call_lzma_refuses LZMA_RESULT_OK_def LZMA_RESULT_DATA_ERROR_def)
qed

text \<open>From the prompt: the name of such a file leads back to the prompt.\<close>

lemma load_lzma_truncated:
  assumes pr: "lc pr \<le> 8" "lp pr \<le> 4" "pb pr \<le> 4" and ps: "packets_ok ps lz_start"
    and krn: "krn = lz_text (run_packets ps lz_start)" "length krn < 2 ^ 32"
    and k: "13 \<le> k" "k + 2 \<le> length (lzma_file pr dict ps)"
    and img: "image_at (mem st) (file_base (plat E) fp) (take k (lzma_file pr dict ps))"
    and pl: "lzma_placed (plat E) (frm E) fp (take k (lzma_file pr dict ps)) out"
    and buf: "lzma_buffer_clear E out krn" and room: "lzma_room E (lzma_file pr dict ps) out (length krn)"
  shows "\<exists>st' fp'. load_lzma E st fp out cmd_line = Some (st'\<lparr>con_out := con_out st' @ decoding_error E\<rparr>, fp', Returned)"
proof (rule load_lzma_cut [OF img pl k(1)])
  let ?F = "lzma_file pr dict ps"
  define d where "d = take 4 (dict @ [0, 0, 0, 0])"
  have d: "length d = 4" by (simp add: d_def)
  have F: "?F = props_byte pr # d @ u32_bytes LE (of_nat (length krn)) @ [0, 0, 0, 0] @ lzma_encode pr ps"
    by (simp add: lzma_file_def d_def krn(1))
  have parts: "take 5 ?F = props_byte pr # d" "drop 13 ?F = lzma_encode pr ps"
    unfolding F using d by simp_all
  show "k + 0 + 2 \<le> length ?F" using k(2) by simp
  show "?F ! 0 < 225" using props_of_byte(1) [OF pr] by (simp add: lzma_file_def)
  have "lzma_image ?F krn" unfolding krn(1) by (rule lzma_file_image) (use pr ps krn in simp_all)
  then show "u32_of LE (take 4 (drop 5 ?F)) = of_nat (length krn)" by (simp only: lzma_image_def)
  show "lzma_codes 0 (props_of (take 5 ?F)) ps (drop 13 ?F)"
    unfolding parts props_of_byte(2) [OF pr] using lzma_encode_codes [OF pr(1,3) ps] krn by simp
qed (use krn buf room in \<open>simp_all add: lzma_buffer_clear_def\<close>)

lemma boot_prompt_truncated:
  assumes "prompt_ok E es (mem st)" and "enters (plat E) cs e line" and "con_in st = cs @ e # rest"
    and "line = pre @ bytes_of ''lzm'' @ post" and "108 \<notin> set pre"
    and "map_of es line = Some (take k (lzma_file pr dict ps))" and "lzma_clear E es line (take k (lzma_file pr dict ps))"
    and "lc pr \<le> 8" "lp pr \<le> 4" "pb pr \<le> 4" and "packets_ok ps lz_start"
    and "krn = lz_text (run_packets ps lz_start)" "length krn < 2 ^ 32"
    and "13 \<le> k" "k + 2 \<le> length (lzma_file pr dict ps)"
    and "lzma_buffer_clear E LOADADDR krn" and "lzma_room E (lzma_file pr dict ps) LOADADDR (length krn)"
  shows "\<exists>st' o1 o2. boot_prompt E fp0 st = Some (st', Returned) \<and> con_out st' = o1 @ decoding_error E @ o2"
proof -
  obtain st5 fp where img: "image_at (mem st5) (file_base (plat E) fp) (take k (lzma_file pr dict ps))"
      "lzma_placed (plat E) (frm E) fp (take k (lzma_file pr dict ps)) LOADADDR"
    and run: "\<And>st4 fp4 r. load_lzma E st5 fp LOADADDR MEMORY_BASE = Some (st4, fp4, r) \<Longrightarrow>
       \<exists>o2. boot_prompt E fp0 st = Some (st4\<lparr>con_out := con_out st4 @ o2\<rparr>, r)"
    using boot_prompt_reaches_lzma [OF assms(1-7), of fp0] by blast
  obtain st' fp' where "load_lzma E st5 fp LOADADDR MEMORY_BASE = Some (st'\<lparr>con_out := con_out st' @ decoding_error E\<rparr>, fp', Returned)"
    using load_lzma_truncated [OF assms(8-15) img assms(16,17)] by blast
  from run [OF this] obtain o2 where "boot_prompt E fp0 st =
      Some (st'\<lparr>con_out := con_out st' @ decoding_error E @ o2\<rparr>, Returned)" by auto
  then show ?thesis by auto
qed

section \<open>Properties\<close>

text \<open>C16: a compressed kernel that has lost two bytes or more of its end is refused: the decoder runs out of
  input, the loader prints the decoding error and returns, and the kernel is not entered.\<close>

theorem truncated_kernel_refused:
  assumes "lc pr \<le> 8" and "lp pr \<le> 4" and "pb pr \<le> 4" and "packets_ok ps lz_start"
    and "krn = lz_text (run_packets ps lz_start)" and "length krn < 2 ^ 32"
    and "13 \<le> k" and "k + 2 \<le> length (lzma_file pr dict ps)"
    and "image_at (mem st) (file_base (plat E) fp) (take k (lzma_file pr dict ps))"
    and "lzma_placed (plat E) (frm E) fp (take k (lzma_file pr dict ps)) out"
    and "lzma_buffer_clear E out krn" and "lzma_room E (lzma_file pr dict ps) out (length krn)"
  shows "\<exists>st' fp'. load_lzma E st fp out cmd_line = Some (st', fp', Returned) \<and>
    (\<exists>shown. con_out st' = shown @ console_text (plat E)
       (bytes_of ''\<newline>Error in decoding LZMA-compressed kernel image. Aborting.\<newline>''))"
  using load_lzma_truncated [OF assms, of cmd_line] by (auto simp: decoding_error_def)

lemma truncated_kernel_refused_witness:
  "\<exists>st fp st' fp'. image_at (mem st) 0x30000040 (take (length (lzma_file sample_props [] sample_packets) - 2) (lzma_file sample_props [] sample_packets)) \<and>
     load_lzma sample_env st fp LOADADDR MEMORY_BASE = Some (st', fp', Returned)"
proof -
  define F where "F = lzma_file sample_props [] sample_packets"
  define k where "k = length F - 2"
  let ?st = "\<lparr>mem = mem_write (\<lambda>_. 0) 0x30000040 (take k F), con_in = [], con_out = []\<rparr>"
  let ?fp = "\<lparr>f_dev = 1, file_len = of_nat k, file_pos = 0, f_name = [], f_code = 1, f_private = 0x30000000\<rparr>"
  have len: "19 \<le> length F" "length F \<le> 119"
    using lzma_file_length [of sample_props "[]" sample_packets] sample_packets_text(3) by (auto simp: F_def)
  have k: "13 \<le> k" "k + 2 \<le> length F" "length (take k F) = k" "k < 119" using len by (simp_all add: k_def)
  have base: "file_base (plat sample_env) ?fp = 0x30000040" by (simp add: file_base_def sample_env_def)
  have img: "image_at (mem ?st) (file_base (plat sample_env) ?fp) (take k F)"
    unfolding base using k mem_read_write_same [of "take k F" "\<lambda>_. 0" "0x30000040"] by (simp add: image_at_def)
  have "lzma_image F (lz_text (run_packets sample_packets lz_start))"
    unfolding F_def by (rule lzma_file_image) (simp_all add: sample_packets_text sample_props_def)
  then have "u32_of LE (take 4 (drop 5 F)) = of_nat (length (lz_text (run_packets sample_packets lz_start)))"
    unfolding lzma_image_def by blast
  moreover have "take 4 (drop 5 (take k F)) = take 4 (drop 5 F)" using k by (simp add: drop_take)
  ultimately have size: "u32_of LE (take 4 (drop 5 (take k F))) = 10" unfolding sample_packets_text(2) by simp
  have placed: "lzma_placed (plat sample_env) (frm sample_env) ?fp (take k F) LOADADDR"
    unfolding lzma_placed_def Let_def base size k(3) using k
    by (simp add: sample_env_def sample_frame_def apart_def LOADADDR_def)
  have clear: "lzma_buffer_clear sample_env LOADADDR [97, 97, 97, 97, 97, 97, 98, 98, 98, 98]"
    by (simp add: lzma_buffer_clear_def sample_env_def sample_frame_def apart_def LOADADDR_def)
  have room: "lzma_room sample_env F LOADADDR (length [97, 97, 97, 97, 97, 97, 98, 98, 98, 98 :: u8])"
    unfolding lzma_room_def using len
    by (intro conjI exI [of _ "0x30000040"]) (simp_all add: sample_env_def sample_frame_def apart_def LOADADDR_def)
  have "\<exists>st' fp'. load_lzma sample_env ?st ?fp LOADADDR MEMORY_BASE = Some (st', fp', Returned) \<and>
    (\<exists>shown. con_out st' = shown @ console_text (plat sample_env)
       (bytes_of ''\<newline>Error in decoding LZMA-compressed kernel image. Aborting.\<newline>''))"
    unfolding F_def
    by (rule truncated_kernel_refused [OF _ _ _ sample_packets_text(1) sample_packets_text(2) [symmetric] _
          k(1) k(2) [unfolded F_def] img [unfolded F_def] placed [unfolded F_def] clear room [unfolded F_def]])
      (simp_all add: sample_props_def)
  then obtain st' fp' where "load_lzma sample_env ?st ?fp LOADADDR MEMORY_BASE = Some (st', fp', Returned)" by blast
  moreover have "image_at (mem ?st) 0x30000040 (take k F)" using img unfolding base .
  ultimately show ?thesis unfolding k_def F_def by blast
qed

end
