(* ===== verification/LzmaStreams.thy ===== *)
theory LzmaStreams
  imports LzmaCut
begin

text \<open>
  What the decoder makes of any stream of packets, in order or not. \<open>stream_text\<close> reads a stream as
  the format does: it ends at the announced size, in the middle of a copy if need be, or at the
  end mark; a copy from before the start of the text is an error. The decoder and the loader
  agree with it: an announced size that is not reached does not keep them from starting
  the kernel, a copy from nowhere does.
\<close>

section \<open>The meaning of a stream\<close>

datatype stream_outcome = Text "u8 list" | Rejected | Unfinished

primrec stream_text :: "nat \<Rightarrow> packet list \<Rightarrow> lz_coder \<Rightarrow> stream_outcome" where
  "stream_text lim [] s = (if lim \<le> length (lz_text s) then Text (take lim (lz_text s)) else Unfinished)"
| "stream_text lim (p # ps) s =
     (if lim \<le> length (lz_text s) then Text (take lim (lz_text s))
      else if end_mark p then Text (lz_text s)
      else if packet_ok s p then stream_text lim ps (apply_packet p s)
      else Rejected)"

lemma stream_text_full: "lim \<le> length (lz_text s) \<Longrightarrow> stream_text lim ps s = Text (take lim (lz_text s))"
  by (cases ps) simp_all

lemma stream_text_length: "stream_text lim ps s = Text t \<Longrightarrow> length t \<le> lim"
  by (induction ps arbitrary: s) (auto split: if_splits)

text \<open>Packets that are in order mean their text, followed by what the rest means.\<close>

lemma stream_text_append:
  "packets_ok ps s \<Longrightarrow> length (lz_text (run_packets ps s)) < 2 ^ 32 \<Longrightarrow>
     stream_text lim (ps @ qs) s =
       (if lim \<le> length (lz_text (run_packets ps s)) then stream_text lim ps s else stream_text lim qs (run_packets ps s))"
proof (induction ps arbitrary: s)
  case Nil
  then show ?case by (simp add: stream_text_full)
next
  case (Cons p ps)
  have "length (lz_text s) < length (lz_text (apply_packet p s))" using Cons.prems(1) by (simp add: apply_packet_longer)
  also have le: "\<dots> \<le> length (lz_text (run_packets ps (apply_packet p s)))" using Cons.prems(1) by (simp add: run_packets_longer)
  finally have less: "length (lz_text s) < length (lz_text (run_packets ps (apply_packet p s)))" .
  have "\<not> end_mark p" using Cons.prems less by (intro packet_ok_no_mark [of s]) simp_all
  then show ?case using Cons.IH [of "apply_packet p s"] Cons.prems less by auto
qed

lemma lz_copy_take: "k \<le> n \<Longrightarrow> lz_copy dist k out = take (k + length out) (lz_copy dist n out)"
proof (induction dist n out arbitrary: k rule: lz_copy.induct)
  case (2 dist n out)
  show ?case
  proof (cases k)
    case 0
    then show ?thesis using lz_copy_prefix [of out dist "Suc n"] by simp
  next
    case (Suc j)
    then show ?thesis using "2.IH" [of j] "2.prems" by simp
  qed
qed simp

lemma fit_packet_text:
  assumes "length (lz_text s) < lim" and "lim \<le> length (lz_text (apply_packet p s))"
  shows "lz_text (apply_packet (fit_packet lim s p) s) = take lim (lz_text (apply_packet p s))"
  using assms lz_copy_take [of "lim - length (lz_text s)" _ _ "lz_text s"] by (cases p) (auto simp: min_def)

section \<open>The decoder agrees\<close>

context lzma_coded
begin

definition decodes_to :: "stream_outcome \<Rightarrow> ('p, 'p lzma) run \<Rightarrow> bool" where
  "decodes_to x r \<longleftrightarrow> (case x of
       Text t \<Rightarrow> \<exists>e ops. r = Inr e \<and> primed m0 nprobs ops e \<and> written J e = t \<and> now_pos e \<le> out_size J
     | Rejected \<Rightarrow> \<exists>m q. r = Inl (Result LZMA_RESULT_DATA_ERROR, m, q)
     | Unfinished \<Rightarrow> True)"

lemma decode_loop_full:
  assumes "primed m0 nprobs ops d" and "models s d" and "unat (out_size J) \<le> length (lz_text s)"
  shows "decodes_to (Text (take (unat (out_size J)) (lz_text s))) (decode_loop cb J k d)"
proof -
  have le: "now_pos d \<le> out_size J" and wr: "written J d = lz_text s" using assms(2) by (simp_all add: models_def)
  then have "\<not> now_pos d < out_size J" "length (lz_text s) \<le> unat (out_size J)"
    using assms(3) models_pos [OF assms(2)] by (simp_all add: word_less_nat_alt word_le_nat_alt)
  then show ?thesis using assms(1) le wr by (cases k) (auto simp: decodes_to_def)
qed

lemma decode_loop_stream:
  "primed m0 nprobs (packets_ops (props J) ps s) d \<Longrightarrow> good J d \<Longrightarrow> models s d \<Longrightarrow> list_all sendable ps \<Longrightarrow>
    unat (out_size J) - length (lz_text s) \<le> k \<Longrightarrow>
    decodes_to (stream_text (unat (out_size J)) ps s) (decode_loop cb J k d)"
proof (induction ps arbitrary: k s d)
  case Nil
  then show ?case using decode_loop_full [OF Nil.prems(1,3)] by (simp add: decodes_to_def)
next
  case (Cons p ps)
  let ?lim = "unat (out_size J)" and ?q = "fit_packet (unat (out_size J)) s p" and ?ops = "packets_ops (props J) ps (apply_packet p s)"
  have pr: "primed m0 nprobs (packet_ops (props J) s p @ ?ops) d" and p: "sendable p" "list_all sendable ps"
    using Cons.prems(1,4) by simp_all
  show ?case
  proof (cases "?lim \<le> length (lz_text s)")
    case True
    then show ?thesis using decode_loop_full [OF pr Cons.prems(3)] by (simp add: stream_text_full)
  next
    case less: False
    then have lt: "now_pos d < out_size J" using models_pos [OF Cons.prems(3)] by (simp add: word_less_nat_alt)
    obtain j where k: "k = Suc j" using less Cons.prems(5) by (cases k) auto
    have rec: "received p ?ops s (decode_round cb J d)"
      by (rule decode_round_received [OF pr Cons.prems(2,3) p(1) lt])
    show ?thesis
    proof (cases "end_mark p \<or> \<not> packet_ok s p")
      case True
      then show ?thesis using rec less lt by (auto simp: k received_def copied_def decodes_to_def) blast+
    next
      case False
      then obtain e where e: "decode_round cb J d = Inr (Next e)" "primed m0 nprobs ?ops e" "models (apply_packet ?q s) e"
        using rec by (auto simp: received_def copied_def)
      have run: "decode_loop cb J k d = decode_loop cb J j e" using lt by (simp add: k e(1))
      have longer: "length (lz_text s) < length (lz_text (apply_packet p s))" using False by (simp add: apply_packet_longer)
      show ?thesis
      proof (cases "?lim \<le> length (lz_text (apply_packet p s))")
        case True
        have "lz_text (apply_packet ?q s) = take ?lim (lz_text (apply_packet p s))" using less True by (intro fit_packet_text) simp_all
        then show ?thesis using decode_loop_full [OF e(2,3), of j] True False less
          by (simp add: run stream_text_full)
      next
        case fits: False
        then have s': "models (apply_packet p s) e" using e(3) by (simp add: fit_packet_room)
        have "decodes_to (stream_text ?lim ps (apply_packet p s)) (decode_loop cb J j e)"
          using Cons.prems(5) longer less k
          by (intro Cons.IH [OF e(2) decode_round_good [OF pr Cons.prems(2) lt e(1)] s' p(2)]) simp
        then show ?thesis using False less by (simp add: run)
      qed
    qed
  qed
qed

lemma LzmaDecode_stream:
  assumes inv: "inv m0 p" and body: "stream_codes spare (props J) ps (rest m0 p)"
  shows "case stream_text (unat (out_size J)) ps lz_start of
      Text t \<Rightarrow> \<exists>m q. LzmaDecode cb J m0 p = (Result LZMA_RESULT_OK, of_nat (length t), m, q) \<and>
        mem_read (mem m) (out_stream J) (length t) = t
    | Rejected \<Rightarrow> \<exists>m q. LzmaDecode cb J m0 p = (Result LZMA_RESULT_DATA_ERROR, 0, m, q)
    | Unfinished \<Rightarrow> True"
proof -
  obtain e where e: "rc_init cb (lzma_start J m0 p) = Inr e" "primed m0 nprobs (packets_ops (props J) ps lz_start) e"
    "good J e" "models lz_start e" using rc_init_primed [OF assms] by blast
  have "list_all sendable ps" using body by (simp add: stream_codes_def)
  then have run: "decodes_to (stream_text (unat (out_size J)) ps lz_start) (decode_loop cb J (unat (out_size J)) e)"
    using decode_loop_stream [OF e(2-4)] by simp
  show ?thesis
  proof (cases "stream_text (unat (out_size J)) ps lz_start")
    case (Text t)
    then obtain f ops where f: "decode_loop cb J (unat (out_size J)) e = Inr f" "primed m0 nprobs ops f" "written J f = t" "now_pos f \<le> out_size J"
      using run by (auto simp: decodes_to_def)
    obtain g where g: "rc_normalize cb f = Inr g" "kept f g" using rc_normalize_last [OF f(2)] by blast
    have "written J g = t" using written_kept [OF g(2) f(4)] f(3) by simp
    moreover from this have "length t = unat (now_pos g)" using length_written [of J g] by simp
    ultimately show ?thesis unfolding Text LzmaDecode_def by (simp add: e(1) f(1) g(1)) (simp add: written_def)
  next
    case Rejected
    then show ?thesis using run by (auto simp: decodes_to_def LzmaDecode_def e(1))
  qed simp
qed

end

section \<open>The loader agrees\<close>

text \<open>A file in the format of \<^verbatim>\<open>lzma\<close> that announces \<open>lim\<close> bytes and holds any packets.\<close>

definition stream_image :: "u8 list \<Rightarrow> nat \<Rightarrow> packet list \<Rightarrow> bool" where
  "stream_image data lim ps \<longleftrightarrow> 13 \<le> length data \<and> data ! 0 < 225 \<and> lim < 2 ^ 32 \<and>
     u32_of LE (take 4 (drop 5 data)) = of_nat lim \<and>
     (\<exists>spare. stream_codes spare (props_of (take 5 data)) ps (drop 13 data))"

lemma load_lzma_stream:
  assumes img: "image_at (mem st) (file_base (plat E) fp) data" and pl: "lzma_placed (plat E) (frm E) fp data out"
    and lz: "stream_image data lim ps" and buf: "lzma_buffer_at (frm E) \<noteq> 0" "apart (lzma_buffer_at (frm E)) 512 out lim"
  shows "case stream_text lim ps lz_start of
      Text krn \<Rightarrow> \<exists>st' fp'. load_lzma E st fp out cmd_line = Some (st', fp', Jump out (c_memsz (plat E) (rom E) (regs0 E)) cmd_line) \<and>
        mem_read (mem st') out (length krn) = krn
    | Rejected \<Rightarrow> \<exists>st' fp'. load_lzma E st fp out cmd_line = Some (st'\<lparr>con_out := con_out st' @ decoding_error E\<rparr>, fp', Returned)
    | Unfinished \<Rightarrow> True"
proof -
  let ?bs = "take 5 data" and ?sz = "u32_of LE (take 4 (drop 5 data))"
  have len: "13 \<le> length data" and first: "?bs ! 0 < 225" using lz by (simp_all add: stream_image_def)
  have "?sz = of_nat lim" "lim < 2 ^ 32" using lz unfolding stream_image_def by blast+
  then have sz: "unat ?sz = lim" by simp
  obtain spare where ps: "stream_codes spare (props_of ?bs) ps (drop 13 data)" using lz by (auto simp: stream_image_def)
  obtain m2 pd where r: "reader (plat E) data (file_base (plat E) fp) (lzma_buffer_at (frm E)) out (unat ?sz) (st\<lparr>mem := m2\<rparr>) pd"
    and pos: "file_pos (pd_fp pd) = 13"
    and load: "load_lzma E st fp out cmd_line =
      call_lzma E out cmd_line (LzmaDecode (read_data (plat E) (printf_at (frm E))) (job_of ?bs out ?sz) (st\<lparr>mem := m2\<rparr>) pd)"
    using load_lzma_header [OF img pl refl refl, of cmd_line] unfolding if_P [OF first] by blast
  have feed: "feeding (plat E) data (file_base (plat E) fp) (lzma_buffer_at (frm E)) out (unat ?sz) (st\<lparr>mem := m2\<rparr>) pd"
    using r pos len pl buf sz by (simp add: feeding_def lzma_placed_def Let_def)
  have "stream_codes spare (props (job_of ?bs out ?sz)) ps (left_of data (st\<lparr>mem := m2\<rparr>) pd)"
    using ps pos by (simp add: job_of_def left_of_def)
  note run = coded.LzmaDecode_stream [OF feed this, of "printf_at (frm E)"]
  have job: "unat (out_size (job_of ?bs out ?sz)) = lim" "out_stream (job_of ?bs out ?sz) = out" using sz by (simp_all add: job_of_def)
  show ?thesis
  proof (cases "stream_text lim ps lz_start")
    case (Text krn)
    then obtain m q n where "LzmaDecode (read_data (plat E) (printf_at (frm E))) (job_of ?bs out ?sz) (st\<lparr>mem := m2\<rparr>) pd =
        (Result LZMA_RESULT_OK, n, m, q)" "mem_read (mem m) out (length krn) = krn"
      using run unfolding job by auto
    moreover obtain o1 where "call_lzma E out cmd_line (Result LZMA_RESULT_OK, n, m, q) =
        Some (m\<lparr>con_out := con_out m @ o1\<rparr>, pd_fp q, Jump out (c_memsz (plat E) (rom E) (regs0 E)) cmd_line)"
      using call_lzma_ok by blast
    ultimately show ?thesis unfolding Text load by simp
  next
    case Rejected
    then obtain m q where "LzmaDecode (read_data (plat E) (printf_at (frm E))) (job_of ?bs out ?sz) (st\<lparr>mem := m2\<rparr>) pd =
        (Result LZMA_RESULT_DATA_ERROR, 0, m, q)" using run unfolding job by auto
    moreover have "LZMA_RESULT_DATA_ERROR \<noteq> LZMA_RESULT_OK" by (simp add: LZMA_RESULT_OK_def LZMA_RESULT_DATA_ERROR_def)
    ultimately show ?thesis unfolding Rejected load by (auto simp: call_lzma_refuses)
  qed simp
qed

text \<open>The file an encoder makes when it announces \<open>lim\<close> bytes.\<close>

definition stream_file :: "lzma_props \<Rightarrow> u8 list \<Rightarrow> nat \<Rightarrow> packet list \<Rightarrow> u8 list" where
  "stream_file pr dict lim ps =
     props_byte pr # take 4 (dict @ [0, 0, 0, 0]) @ u32_bytes LE (of_nat lim) @ [0, 0, 0, 0] @ lzma_encode pr ps"

lemma lzma_file_stream: "lzma_file pr dict ps = stream_file pr dict (length (lz_text (run_packets ps lz_start))) ps"
  by (simp only: lzma_file_def stream_file_def)

lemma stream_file_image:
  assumes "lc pr \<le> 8" and "lp pr \<le> 4" and "pb pr \<le> 4" and "list_all sendable ps" and "lim < 2 ^ 32"
  shows "stream_image (stream_file pr dict lim ps) lim ps"
proof -
  define d where "d = take 4 (dict @ [0, 0, 0, 0])"
  have d: "length d = 4" by (simp add: d_def)
  have f: "stream_file pr dict lim ps = props_byte pr # d @ u32_bytes LE (of_nat lim) @ [0, 0, 0, 0] @ lzma_encode pr ps"
    by (simp add: stream_file_def d_def)
  have "take 5 (stream_file pr dict lim ps) = props_byte pr # d"
    "drop 5 (stream_file pr dict lim ps) = u32_bytes LE (of_nat lim) @ [0, 0, 0, 0] @ lzma_encode pr ps"
    "drop 13 (stream_file pr dict lim ps) = lzma_encode pr ps"
    unfolding f using d by simp_all
  then show ?thesis using props_of_byte [OF assms(1-3)] lzma_encode_stream [OF assms(1,3,4)] assms(5) d
    unfolding stream_image_def by (auto simp: f u32_of_take4 codec32.dec_enc codec32.dec_enc_nil simp del: u32_of.simps u32_bytes.simps)
qed

text \<open>At most 48 bits stand for a packet.\<close>

lemma length_tree_ops [simp]:
  "length (tree_ops base n res v) = n" "length (rev_ops base n mi v) = n" "length (direct_ops n v) = n"
  "length (matched_ops base n mb res v) = n"
  by (induction n arbitrary: res mi v mb) simp_all

lemma length_len_ops: "length (len_ops base ps n) \<le> 10"
  by (simp add: len_ops_def)

lemma length_dist_ops:
  assumes "v < 2 ^ 32"
  shows "length (dist_ops l v) \<le> 36"
proof (cases "v < 4")
  case False
  then have "4 \<le> v" by simp
  note parts = dist_parts [OF this assms]
  show ?thesis using parts(4) by (auto simp: dist_ops_def foot_ops_def Let_def)
qed (simp add: dist_ops_def foot_ops_def)

lemma length_packet_ops: "sendable p \<Longrightarrow> length (packet_ops pr s p) \<le> 48"
proof (cases p)
  case (Match dist n)
  assume "sendable p"
  then have "length (dist_ops (n - 2) (dist - 1)) \<le> 36" using Match by (intro length_dist_ops) auto
  then show ?thesis using length_len_ops [of LenCoder "pos_state pr s" "n - 2"] Match by simp
next
  case (Rep i n)
  then show ?thesis using length_len_ops [of RepLenCoder "pos_state pr s" "n - 2"] by (simp add: rep_ops_def)
qed (simp_all add: byte_ops_def)

lemma length_packets_ops: "list_all sendable ps \<Longrightarrow> length (packets_ops pr ps s) \<le> 48 * length ps"
proof (induction ps arbitrary: s)
  case (Cons p ps)
  then show ?case using length_packet_ops [of p pr s] by (simp add: add_mono)
qed simp

lemma stream_file_length:
  assumes "list_all sendable ps"
  shows "19 \<le> length (stream_file pr dict lim ps) \<and> length (stream_file pr dict lim ps) \<le> 19 + 48 * length ps"
proof -
  obtain lo w n where I: "first_interval pr ps = (lo, w, n)" by (cases "first_interval pr ps")
  have "n \<le> length (packets_ops pr ps lz_start)" using code_interval_bytes [OF I [unfolded first_interval_def]] .
  also have "\<dots> \<le> 48 * length ps" by (rule length_packets_ops [OF assms])
  finally show ?thesis by (auto simp: stream_file_def lzma_encode_def I min_def)
qed

text \<open>With the end mark behind packets that are in order the text is what there is of it up to the announced
  size, whether that is too large or too small.\<close>

lemma apply_packet_prefix: "take (length (lz_text s)) (lz_text (apply_packet p s)) = lz_text s"
  by (cases p) (simp_all add: lz_copy_prefix [unfolded One_nat_def] lz_copy_prefix)

lemma run_packets_prefix:
  "packets_ok ps s \<Longrightarrow> take (length (lz_text s)) (lz_text (run_packets ps s)) = lz_text s"
proof (induction ps arbitrary: s)
  case (Cons p ps)
  let ?s = "apply_packet p s"
  have le: "length (lz_text s) \<le> length (lz_text ?s)" using Cons.prems by (simp add: apply_packet_longer less_imp_le)
  have "take (length (lz_text s)) (lz_text (run_packets ps ?s)) =
      take (length (lz_text s)) (take (length (lz_text ?s)) (lz_text (run_packets ps ?s)))" using le by (simp add: min_def)
  also have "\<dots> = lz_text s" using Cons by (simp add: apply_packet_prefix)
  finally show ?case by simp
qed simp

lemma stream_text_whole:
  "packets_ok ps s \<Longrightarrow> length (lz_text (run_packets ps s)) < 2 ^ 32 \<Longrightarrow> lim \<le> length (lz_text (run_packets ps s)) \<Longrightarrow>
     stream_text lim ps s = Text (take lim (lz_text (run_packets ps s)))"
proof (induction ps arbitrary: s)
  case (Cons p ps)
  let ?s = "apply_packet p s"
  show ?case
  proof (cases "lim \<le> length (lz_text s)")
    case True
    have "take lim (lz_text s) = take lim (take (length (lz_text s)) (lz_text (run_packets (p # ps) s)))"
      by (simp only: run_packets_prefix [OF Cons.prems(1)])
    then show ?thesis using True by (simp add: min_def)
  next
    case False
    then have "\<not> end_mark p" using Cons.prems by (intro packet_ok_no_mark [of s]) simp_all
    then show ?thesis using False Cons by simp
  qed
qed simp

lemma stream_text_ended:
  assumes "packets_ok ps lz_start" and "length (lz_text (run_packets ps lz_start)) < 2 ^ 32" and "lim < 2 ^ 32"
  shows "stream_text lim (ps @ [Match (2 ^ 32) n]) lz_start = Text (take lim (lz_text (run_packets ps lz_start)))"
  using stream_text_append [OF assms(1,2), of lim "[Match (2 ^ 32) n]"] stream_text_whole [OF assms(1,2), of lim] assms(3)
  by simp

section \<open>A place for the examples\<close>

lemma sample_stream_placed:
  assumes "13 \<le> length F" and "length F \<le> 1000" and "u32_of LE (take 4 (drop 5 F)) = 8"
  defines "st \<equiv> \<lparr>mem = mem_write (\<lambda>_. 0) 0x30000040 F, con_in = [], con_out = []\<rparr>"
    and "fp \<equiv> \<lparr>f_dev = 1, file_len = of_nat (length F), file_pos = 0, f_name = [], f_code = 1, f_private = 0x30000000\<rparr>"
  shows "image_at (mem st) (file_base (plat sample_env) fp) F" and "lzma_placed (plat sample_env) (frm sample_env) fp F LOADADDR"
proof -
  have base: "file_base (plat sample_env) fp = 0x30000040" by (simp add: fp_def file_base_def sample_env_def)
  show "image_at (mem st) (file_base (plat sample_env) fp) F" unfolding base using assms(2) by (simp add: st_def image_at_def)
  show "lzma_placed (plat sample_env) (frm sample_env) fp F LOADADDR"
    unfolding lzma_placed_def Let_def base assms(3) using assms(1,2)
    by (simp add: fp_def sample_env_def sample_frame_def apart_def LOADADDR_def)
qed

lemma stream_file_size: "lim < 2 ^ 32 \<Longrightarrow> u32_of LE (take 4 (drop 5 (stream_file pr dict lim ps))) = of_nat lim"
  using codec32.dec_enc [of LE "of_nat lim"] codec32.dec_enc_nil [of LE "of_nat lim"]
  by (simp add: stream_file_def u32_of_take4 del: u32_of.simps u32_bytes.simps)

lemma sample_stream_buffer: "lzma_buffer_at (frm sample_env) \<noteq> 0 \<and> apart (lzma_buffer_at (frm sample_env)) 512 LOADADDR 8"
  by (simp add: sample_env_def sample_frame_def apart_def LOADADDR_def)

section \<open>Properties\<close>

text \<open>C5: the decoder and the loader agree with the reading of the format on every stream, whatever packets
  it is made of and whatever size its header announces: the kernel is entered with the text of
  the stream, cut off at the announced size or at the end mark; a copy from before
  the start of the text is answered with the decoding error.\<close>

theorem load_lzma_reads_stream:
  assumes "lc pr \<le> 8" and "lp pr \<le> 4" and "pb pr \<le> 4" and "list_all sendable ps" and "lim < 2 ^ 32"
    and "image_at (mem st) (file_base (plat E) fp) (stream_file pr dict lim ps)"
    and "lzma_placed (plat E) (frm E) fp (stream_file pr dict lim ps) out"
    and "lzma_buffer_at (frm E) \<noteq> 0" and "apart (lzma_buffer_at (frm E)) 512 out lim"
  shows "case stream_text lim ps lz_start of
      Text krn \<Rightarrow> \<exists>st' fp'. load_lzma E st fp out cmd_line = Some (st', fp', Jump out (c_memsz (plat E) (rom E) (regs0 E)) cmd_line) \<and>
        mem_read (mem st') out (length krn) = krn
    | Rejected \<Rightarrow> \<exists>st' fp'. load_lzma E st fp out cmd_line = Some (st'\<lparr>con_out := con_out st' @ decoding_error E\<rparr>, fp', Returned)
    | Unfinished \<Rightarrow> True"
  by (rule load_lzma_stream [OF assms(6,7) stream_file_image [OF assms(1-5)] assms(8,9)])

lemma load_lzma_reads_stream_witness:
  "(\<exists>st fp st' fp' sz. load_lzma sample_env st fp LOADADDR MEMORY_BASE = Some (st', fp', Jump LOADADDR sz MEMORY_BASE) \<and>
      mem_read (mem st') LOADADDR 8 = [97, 97, 97, 97, 97, 97, 98, 98]) \<and>
   (\<exists>st fp st' fp'. load_lzma sample_env st fp LOADADDR MEMORY_BASE = Some (st', fp', Returned))"
proof -
  have load: "case stream_text 8 ps lz_start of
      Text krn \<Rightarrow> \<exists>st fp st' fp' sz. load_lzma sample_env st fp LOADADDR MEMORY_BASE = Some (st', fp', Jump LOADADDR sz MEMORY_BASE) \<and>
        mem_read (mem st') LOADADDR (length krn) = krn
    | Rejected \<Rightarrow> \<exists>st fp st' fp'. load_lzma sample_env st fp LOADADDR MEMORY_BASE = Some (st', fp', Returned)
    | Unfinished \<Rightarrow> True"
    if ps: "list_all sendable ps" "length ps \<le> 10" for ps
  proof -
    let ?F = "stream_file sample_props [] 8 ps"
    have len: "13 \<le> length ?F" "length ?F \<le> 1000" using stream_file_length [OF ps(1), of sample_props "[]" 8] ps(2) by linarith+
    have size: "u32_of LE (take 4 (drop 5 ?F)) = 8" using stream_file_size [of 8 sample_props "[]" ps] by simp
    note placed = sample_stream_placed [OF len size]
    have pr: "lc sample_props \<le> 8" "lp sample_props \<le> 4" "pb sample_props \<le> 4" "(8 :: nat) < 2 ^ 32" by (simp_all add: sample_props_def)
    note load_lzma_reads_stream [OF pr(1-3) ps(1) pr(4) placed conjunct1 [OF sample_stream_buffer] conjunct2 [OF sample_stream_buffer], of MEMORY_BASE]
    then show ?thesis by (cases "stream_text 8 ps lz_start") (simp_all, blast+)
  qed
  have "stream_text 8 sample_packets lz_start = Text [97, 97, 97, 97, 97, 97, 98, 98]"
    using stream_text_whole [OF sample_packets_text(1), of 8] by (simp add: sample_packets_text(2))
  moreover have "list_all sendable sample_packets" "length sample_packets \<le> 10" by (simp_all add: sample_packets_def)
  moreover have "length [97, 97, 97, 97, 97, 97, 98, 98 :: u8] = 8" by simp
  ultimately have "\<exists>st fp st' fp' sz. load_lzma sample_env st fp LOADADDR MEMORY_BASE = Some (st', fp', Jump LOADADDR sz MEMORY_BASE) \<and>
      mem_read (mem st') LOADADDR 8 = [97, 97, 97, 97, 97, 97, 98, 98]"
    using load [of sample_packets] by (simp only: stream_outcome.case)
  moreover have "stream_text 8 [Byte 97, Match 2 5] lz_start = Rejected" by (simp add: lz_start_def)
  then have "\<exists>st fp st' fp'. load_lzma sample_env st fp LOADADDR MEMORY_BASE = Some (st', fp', Returned)"
    using load [of "[Byte 97, Match 2 5]"] by simp
  ultimately show ?thesis by blast
qed

text \<open>C17: the loader does not compare the length of what it has decoded with the announced one: behind
  packets that are in order the end mark ends the stream, and the kernel is entered with what there
  is of it, however large the header says it is.\<close>

theorem announced_size_not_checked:
  assumes "lc pr \<le> 8" and "lp pr \<le> 4" and "pb pr \<le> 4" and "packets_ok ps lz_start"
    and "krn = lz_text (run_packets ps lz_start)" and "length krn < 2 ^ 32" and "lim < 2 ^ 32"
    and "image_at (mem st) (file_base (plat E) fp) (stream_file pr dict lim (ps @ [Match (2 ^ 32) 2]))"
    and "lzma_placed (plat E) (frm E) fp (stream_file pr dict lim (ps @ [Match (2 ^ 32) 2])) out"
    and "lzma_buffer_at (frm E) \<noteq> 0" and "apart (lzma_buffer_at (frm E)) 512 out lim"
  shows "\<exists>st' fp'. load_lzma E st fp out cmd_line = Some (st', fp', Jump out (c_memsz (plat E) (rom E) (regs0 E)) cmd_line) \<and>
    mem_read (mem st') out (min lim (length krn)) = take lim krn"
proof -
  have "list_all sendable (ps @ [Match (2 ^ 32) 2])" using packets_sendable [OF assms(4)] assms(5,6) by simp
  note load_lzma_stream [OF assms(8,9) stream_file_image [OF assms(1-3) this assms(7)] assms(10,11), of cmd_line]
  then show ?thesis using stream_text_ended [OF assms(4) _ assms(7), of 2] assms(5,6) by (simp add: min.commute)
qed

lemma announced_size_not_checked_witness:
  "\<exists>st fp st' fp' sz. load_lzma sample_env st fp LOADADDR MEMORY_BASE = Some (st', fp', Jump LOADADDR sz MEMORY_BASE) \<and>
     file_base (plat sample_env) fp = 0x30000040 \<and>
     mem_read (mem st) 0x30000045 4 = [8, 0, 0, 0] \<and> mem_read (mem st') LOADADDR 2 = [97, 98]"
proof -
  let ?F = "stream_file sample_props [] 8 ([Byte 97, Byte 98] @ [Match (2 ^ 32) 2])"
  let ?st = "\<lparr>mem = mem_write (\<lambda>_. 0) 0x30000040 ?F, con_in = [], con_out = []\<rparr>"
  let ?fp = "\<lparr>f_dev = 1, file_len = of_nat (length ?F), file_pos = 0, f_name = [], f_code = 1, f_private = 0x30000000\<rparr>"
  have "list_all sendable ([Byte 97, Byte 98] @ [Match (2 ^ 32) 2])" by simp
  note stream_file_length [OF this, of sample_props "[]" 8]
  then have len: "13 \<le> length ?F" "length ?F \<le> 1000" by simp_all
  have size: "u32_of LE (take 4 (drop 5 ?F)) = 8" using stream_file_size [of 8 sample_props "[]"] by simp
  note placed = sample_stream_placed [OF len size]
  have two: "min 8 (length [97, 98 :: u8]) = 2" "take 8 [97, 98 :: u8] = [97, 98]" by simp_all
  have "\<exists>st' fp'. load_lzma sample_env ?st ?fp LOADADDR MEMORY_BASE =
      Some (st', fp', Jump LOADADDR (c_memsz (plat sample_env) (rom sample_env) (regs0 sample_env)) MEMORY_BASE) \<and>
     mem_read (mem st') LOADADDR (min 8 (length [97, 98 :: u8])) = take 8 [97, 98]"
    by (rule announced_size_not_checked [OF _ _ _ _ _ _ _ placed conjunct1 [OF sample_stream_buffer] conjunct2 [OF sample_stream_buffer]])
      (simp_all add: sample_props_def lz_start_def)
  moreover have "mem_read (mem ?st) 0x30000045 4 = [8, 0, 0, 0]"
  proof -
    have "mem_read (mem ?st) 0x30000040 (length ?F) = ?F" using len by simp
    moreover have "take 4 (drop 5 (mem_read (mem ?st) 0x30000040 (length ?F))) = mem_read (mem ?st) 0x30000045 4"
      using sub_mem_read [of 5 4 "length ?F" "mem ?st" "0x30000040"] len by simp
    moreover have "take 4 (drop 5 ?F) = [8, 0, 0, 0]" by (simp add: stream_file_def)
    ultimately show ?thesis by simp
  qed
  moreover have "file_base (plat sample_env) ?fp = 0x30000040" by (simp add: file_base_def sample_env_def)
  ultimately show ?thesis unfolding two by blast
qed

end
