(* ===== verification/LzmaRecovery.thy ===== *)
theory LzmaRecovery
  imports LzmaStreams
begin

text \<open>
  After a refused kernel. Whatever a compressed file holds, loading it leaves the flash, the
  literals of the main program and the typed input alone when the loader's arrays and the
  output lie beside them; so the prompt that follows is in order, and another kernel boots.
\<close>

section \<open>The console input\<close>

lemma read_data_input:
  assumes r: "reader p data b buf out n st pd" and run: "read_data p sp st pd = Some (res, a, k, st', pd')"
  shows "con_in st' = con_in st"
proof (cases "file_pos (pd_fp pd) > file_len (pd_fp pd)")
  case True
  have "plain_text ''FATAL: Attempt to read past end of file. Aborting.\<newline>''" by (simp add: plain_text_def)
  from printf_plain [OF this, of p sp st] obtain o1 where
    "printf p sp st ''FATAL: Attempt to read past end of file. Aborting.\<newline>'' [] = Some (st\<lparr>con_out := con_out st @ o1\<rparr>)" by auto
  then show ?thesis using True run unfolding read_data_def Let_def cilo_tell_def by (simp only: if_True) auto
next
  case False
  then show ?thesis using read_data_piece [OF r False, of sp] run by auto
qed

interpretation waiting: lzma_run "read_data p sp" "\<lambda>st pd. reader p data b buf out (unat sz) st pd \<and> con_in st = c"
    "in_range buf 512" "in_range out (unat sz)" "job_of bs out sz" m0
  for p sp data b buf out sz c bs m0
proof unfold_locales
  fix m pd assume r: "reader p data b buf out (unat sz) m pd \<and> con_in m = c"
  then have "reader p data b buf out (unat sz) m pd" by blast
  then show "\<exists>res a k m' pd'. read_data p sp m pd = Some (res, a, k, m', pd') \<and>
      (reader p data b buf out (unat sz) m' pd' \<and> con_in m' = c) \<and> (\<forall>x. \<not> in_range buf 512 x \<longrightarrow> mem m' x = mem m x)"
    using read_data_total [of p data b buf out "unat sz" m pd sp] read_data_input [of p data b buf out "unat sz" m pd sp] r by metis
  show "reader p data b buf out (unat sz) (store_at m x v) pd \<and> con_in (store_at m x v) = c" if "in_range out (unat sz) x" for x v
    using r reader_store that by (simp add: store_at_def)
qed (simp_all add: job_of_ok, simp add: job_of_def)

lemma load_lzma_input:
  assumes img: "image_at (mem st) (file_base (plat E) fp) data" and pl: "lzma_placed (plat E) (frm E) fp data out"
    and load: "load_lzma E st fp out cmd_line = Some (st', fp', r)"
  shows "con_in st' = con_in st"
proof -
  let ?bs = "take 5 data" and ?sz = "u32_of LE (take 4 (drop 5 data))"
  obtain m1 m2 pd where r: "reader (plat E) data (file_base (plat E) fp) (lzma_buffer_at (frm E)) out (unat ?sz) (st\<lparr>mem := m2\<rparr>) pd"
    and eq: "load_lzma E st fp out cmd_line =
      (if ?bs ! 0 < 225 then call_lzma E out cmd_line (LzmaDecode (read_data (plat E) (printf_at (frm E))) (job_of ?bs out ?sz) (st\<lparr>mem := m2\<rparr>) pd)
       else do {
         st2 \<leftarrow> printf (plat E) (printf_at (frm E)) (st\<lparr>mem := m1\<rparr>) ''Error while decoding LZMA properties. Aborting.\<newline>'' [];
         Some (st2, fp\<lparr>file_pos := 5\<rparr>, Returned)
       })"
    using load_lzma_header [OF img pl refl refl, of cmd_line] by auto
  show ?thesis
  proof (cases "?bs ! 0 < 225")
    case False
    obtain o1 where "printf (plat E) (printf_at (frm E)) (st\<lparr>mem := m1\<rparr>) ''Error while decoding LZMA properties. Aborting.\<newline>'' []
        = Some (st\<lparr>mem := m1, con_out := con_out st @ o1\<rparr>)"
      using printf_plain [of "''Error while decoding LZMA properties. Aborting.\<newline>''" "plat E" "printf_at (frm E)" "st\<lparr>mem := m1\<rparr>"]
      by (auto simp: plain_text_def)
    then show ?thesis using load unfolding eq if_not_P [OF False] by auto
  next
    case True
    have "reader (plat E) data (file_base (plat E) fp) (lzma_buffer_at (frm E)) out (unat ?sz) (st\<lparr>mem := m2\<rparr>) pd \<and>
        con_in (st\<lparr>mem := m2\<rparr>) = con_in st" using r by simp
    from waiting.LzmaDecode_safe [OF this, of "printf_at (frm E)" ?bs]
    obtain k cnt st3 pd3 where dec: "LzmaDecode (read_data (plat E) (printf_at (frm E))) (job_of ?bs out ?sz) (st\<lparr>mem := m2\<rparr>) pd
        = (Result k, cnt, st3, pd3)" and st3: "con_in st3 = con_in st" by auto
    show ?thesis
      using load st3 call_lzma_ok [of E out cmd_line cnt st3 pd3] call_lzma_error [of k E out cmd_line cnt st3 pd3]
      unfolding eq if_P [OF True] dec by (cases "k = LZMA_RESULT_OK") auto
  qed
qed

section \<open>The next prompt\<close>

text \<open>The loader's arrays and the output lie beside the flash and the literals of the main program.\<close>

definition lzma_beside :: "env \<Rightarrow> (u8 list \<times> u8 list) list \<Rightarrow> nat \<Rightarrow> bool" where
  "lzma_beside E es n \<longleftrightarrow>
     (\<forall>(a, k) \<in> set [(FLASH_BASE (plat E), dir_span (plat E) es), (console_at (frm E), 8), (lzma_at (frm E), 5)].
        apart a k (lzma_props_at (frm E)) 5 \<and> apart a k (lzma_size_at (frm E)) 4 \<and>
        apart a k (lzma_buffer_at (frm E)) 512 \<and> apart a k LOADADDR n)"

lemma lzma_prompt_kept:
  assumes ok: "prompt_ok E es m" and beside: "lzma_beside E es n"
    and keep: "\<And>x. \<not> in_range (lzma_props_at (frm E)) 5 x \<Longrightarrow> \<not> in_range (lzma_size_at (frm E)) 4 x \<Longrightarrow>
       \<not> in_range (lzma_buffer_at (frm E)) 512 x \<Longrightarrow> \<not> in_range LOADADDR n x \<Longrightarrow> m' x = m x"
  shows "prompt_ok E es m'"
proof (rule prompt_ok_kept [OF ok])
  have kept: "m' x = m x" if "(a, k) \<in> set [(FLASH_BASE (plat E), dir_span (plat E) es), (console_at (frm E), 8), (lzma_at (frm E), 5)]"
    and "in_range a k x" for a k x
  proof -
    have "apart a k (lzma_props_at (frm E)) 5" "apart a k (lzma_size_at (frm E)) 4" "apart a k (lzma_buffer_at (frm E)) 512"
      "apart a k LOADADDR n"
      using beside that(1) unfolding lzma_beside_def by blast+
    then show ?thesis using that(2) apart_not_in_range by (intro keep) blast+
  qed
  show "m' x = m x" if "in_range (FLASH_BASE (plat E)) (dir_span (plat E) es) x" for x by (rule kept [OF _ that]) simp
  show "m' x = m x" if "in_range (console_at (frm E)) 8 x" for x by (rule kept [OF _ that]) simp
  show "m' x = m x" if "in_range (lzma_at (frm E)) 5 x" for x by (rule kept [OF _ that]) simp
qed

lemma boot_prompt_lzma_keeps:
  assumes "prompt_ok E es (mem st)" and "enters (plat E) cs e line" and "con_in st = cs @ e # rest"
    and "line = pre @ bytes_of ''lzm'' @ post" and "108 \<notin> set pre"
    and "map_of es line = Some data" and "lzma_clear E es line data"
    and beside: "lzma_beside E es (unat (u32_of LE (take 4 (drop 5 data))))"
  shows "\<exists>st' r. boot_prompt E fp0 st = Some (st', r) \<and> prompt_ok E es (mem st') \<and> con_in st' = rest"
proof -
  obtain st5 fp where img: "image_at (mem st5) (file_base (plat E) fp) data" "lzma_placed (plat E) (frm E) fp data LOADADDR"
    and st5: "prompt_ok E es (mem st5)" "con_in st5 = rest"
    and run: "\<And>st4 fp4 r. load_lzma E st5 fp LOADADDR MEMORY_BASE = Some (st4, fp4, r) \<Longrightarrow>
       \<exists>o2. boot_prompt E fp0 st = Some (st4\<lparr>con_out := con_out st4 @ o2\<rparr>, r)"
    using boot_prompt_reaches_lzma [OF assms(1-7), of fp0] by blast
  obtain st4 fp4 r where load: "load_lzma E st5 fp LOADADDR MEMORY_BASE = Some (st4, fp4, r)"
    and keep: "\<And>x. \<not> in_range (lzma_props_at (frm E)) 5 x \<Longrightarrow> \<not> in_range (lzma_size_at (frm E)) 4 x \<Longrightarrow>
       \<not> in_range (lzma_buffer_at (frm E)) 512 x \<Longrightarrow> \<not> in_range LOADADDR (unat (u32_of LE (take 4 (drop 5 data)))) x \<Longrightarrow>
       mem st4 x = mem st5 x"
    using load_lzma_safe [OF img refl refl, of MEMORY_BASE] by blast
  have "prompt_ok E es (mem st4)" by (rule lzma_prompt_kept [OF st5(1) beside keep])
  then show ?thesis using run [OF load] load_lzma_input [OF img load] st5(2) by auto
qed

text \<open>A file in flash that the prompt takes for a compressed kernel and that has lost its end.\<close>

definition damaged :: "env \<Rightarrow> (u8 list \<times> u8 list) list \<Rightarrow> u8 list \<Rightarrow> bool" where
  "damaged E es name \<longleftrightarrow> (\<exists>pre post pr dict ps k. let F = lzma_file pr dict ps; krn = lz_text (run_packets ps lz_start) in
     name = pre @ bytes_of ''lzm'' @ post \<and> 108 \<notin> set pre \<and> map_of es name = Some (take k F) \<and> 13 \<le> k \<and> k + 2 \<le> length F \<and>
     lc pr \<le> 8 \<and> lp pr \<le> 4 \<and> pb pr \<le> 4 \<and> packets_ok ps lz_start \<and> length krn < 2 ^ 32 \<and>
     lzma_clear E es name (take k F) \<and> lzma_beside E es (unat (u32_of LE (take 4 (drop 5 (take k F))))) \<and>
     lzma_buffer_clear E LOADADDR krn \<and> lzma_room E F LOADADDR (length krn))"

lemma damaged_again:
  assumes "prompt_ok E es (mem st)" and "enters (plat E) cs e line" and "con_in st = cs @ e # rest" and "damaged E es line"
  shows "\<exists>st'. boot_step E (Prompt st) (Prompt st') \<and> prompt_ok E es (mem st') \<and> con_in st' = rest"
proof -
  obtain pre post pr dict ps k where d: "line = pre @ bytes_of ''lzm'' @ post" "108 \<notin> set pre" "map_of es line = Some (take k (lzma_file pr dict ps))"
    "lzma_clear E es line (take k (lzma_file pr dict ps))" "lc pr \<le> 8" "lp pr \<le> 4" "pb pr \<le> 4" "packets_ok ps lz_start"
    "length (lz_text (run_packets ps lz_start)) < 2 ^ 32" "13 \<le> k" "k + 2 \<le> length (lzma_file pr dict ps)"
    "lzma_buffer_clear E LOADADDR (lz_text (run_packets ps lz_start))"
    "lzma_room E (lzma_file pr dict ps) LOADADDR (length (lz_text (run_packets ps lz_start)))"
    "lzma_beside E es (unat (u32_of LE (take 4 (drop 5 (take k (lzma_file pr dict ps))))))"
    using assms(4) unfolding damaged_def Let_def by blast
  note refused = boot_prompt_truncated [OF assms(1-3) d(1-8) refl d(9-13), of undefined]
    and kept = boot_prompt_lzma_keeps [OF assms(1-3) d(1-4) d(14), of undefined]
  from refused kept obtain st' where "boot_prompt E undefined st = Some (st', Returned)" "prompt_ok E es (mem st')" "con_in st' = rest"
    by auto
  then show ?thesis using again by blast
qed

text \<open>A file whose stream has a copy from before the start of its text.\<close>

definition corrupt :: "env \<Rightarrow> (u8 list \<times> u8 list) list \<Rightarrow> u8 list \<Rightarrow> bool" where
  "corrupt E es name \<longleftrightarrow> (\<exists>pre post data lim ps.
     name = pre @ bytes_of ''lzm'' @ post \<and> 108 \<notin> set pre \<and> map_of es name = Some data \<and>
     lzma_clear E es name data \<and> lzma_beside E es (unat (u32_of LE (take 4 (drop 5 data)))) \<and>
     stream_image data lim ps \<and> stream_text lim ps lz_start = Rejected \<and>
     lzma_buffer_at (frm E) \<noteq> 0 \<and> apart (lzma_buffer_at (frm E)) 512 LOADADDR lim)"

lemma corrupt_again:
  assumes "prompt_ok E es (mem st)" and "enters (plat E) cs e line" and "con_in st = cs @ e # rest" and "corrupt E es line"
  shows "\<exists>st'. boot_step E (Prompt st) (Prompt st') \<and> prompt_ok E es (mem st') \<and> con_in st' = rest"
proof -
  obtain pre post data lim ps where c: "line = pre @ bytes_of ''lzm'' @ post" "108 \<notin> set pre" "map_of es line = Some data"
    "lzma_clear E es line data" "lzma_beside E es (unat (u32_of LE (take 4 (drop 5 data))))"
    and bad: "stream_image data lim ps" "stream_text lim ps lz_start = Rejected"
      "lzma_buffer_at (frm E) \<noteq> 0" "apart (lzma_buffer_at (frm E)) 512 LOADADDR lim"
    using assms(4) unfolding corrupt_def by blast
  obtain st5 fp where img: "image_at (mem st5) (file_base (plat E) fp) data" "lzma_placed (plat E) (frm E) fp data LOADADDR"
    and run: "\<And>st4 fp4 r. load_lzma E st5 fp LOADADDR MEMORY_BASE = Some (st4, fp4, r) \<Longrightarrow>
       \<exists>o2. boot_prompt E undefined st = Some (st4\<lparr>con_out := con_out st4 @ o2\<rparr>, r)"
    using boot_prompt_reaches_lzma [OF assms(1-3) c(1-4), of undefined] by blast
  obtain st4 fp4 where "load_lzma E st5 fp LOADADDR MEMORY_BASE = Some (st4, fp4, Returned)"
    using load_lzma_stream [OF img bad(1,3,4), of MEMORY_BASE] bad(2) by auto
  from run [OF this] boot_prompt_lzma_keeps [OF assms(1-3) c(1-5), of undefined]
  obtain st' where "boot_prompt E undefined st = Some (st', Returned)" "prompt_ok E es (mem st')" "con_in st' = rest" by auto
  then show ?thesis using again by blast
qed

section \<open>From power-on past damaged kernels\<close>

definition refused :: "env \<Rightarrow> (u8 list \<times> u8 list) list \<Rightarrow> u8 list \<times> u8 \<times> u8 list \<Rightarrow> bool" where
  "refused E es = (\<lambda>(cs, e, line). enters (plat E) cs e line \<and>
     (map_of es line = None \<or> damaged E es line \<or> corrupt E es line))"

lemma refused_again:
  assumes "refused E es (cs, e, line)" and "prompt_ok E es (mem st)" and "con_in st = cs @ e # rest"
  shows "\<exists>st'. boot_step E (Prompt st) (Prompt st') \<and> prompt_ok E es (mem st') \<and> con_in st' = rest"
  using assms prompt_again [OF assms(2) _ assms(3)] damaged_again [OF assms(2) _ assms(3)]
    corrupt_again [OF assms(2) _ assms(3)] unfolding refused_def by blast

lemma prompt_refusals:
  assumes "list_all (refused E es) tries" and "prompt_ok E es (mem st)"
    and "con_in st = concat (map (\<lambda>(cs, e, line). cs @ [e]) tries) @ rest"
  shows "\<exists>st'. (boot_step E)\<^sup>*\<^sup>* (Prompt st) (Prompt st') \<and> prompt_ok E es (mem st') \<and> con_in st' = rest"
  using assms
proof (induction tries arbitrary: st)
  case (Cons a tries)
  obtain cs e line where t: "a = (cs, e, line)" by (cases a)
  have r: "refused E es (cs, e, line)" "con_in st = cs @ e # (concat (map (\<lambda>(cs, e, line). cs @ [e]) tries) @ rest)"
    using Cons.prems(1,3) by (simp_all add: t)
  obtain st1 where st1: "boot_step E (Prompt st) (Prompt st1)" "prompt_ok E es (mem st1)"
      "con_in st1 = concat (map (\<lambda>(cs, e, line). cs @ [e]) tries) @ rest"
    using refused_again [OF r(1) Cons.prems(2) r(2)] by blast
  from Cons.IH [OF _ st1(2,3)] Cons.prems(1) obtain st' where
    st': "(boot_step E)\<^sup>*\<^sup>* (Prompt st1) (Prompt st')" "prompt_ok E es (mem st')" "con_in st' = rest" by auto
  then show ?case using converse_rtranclp_into_rtranclp [OF st1(1) st'(1)] by blast
qed auto

lemma power_on_past_refusals:
  assumes "prompt_ok E es (mem st)" and "\<forall>(name, data) \<in> set es. length name < unat (filename_width (plat E))"
    and "list_all (refused E es) tries" and "enters (plat E) cs e line" and "bootable E es line data"
    and "con_in st = concat (map (\<lambda>(cs, e, line). cs @ [e]) tries) @ cs @ e # rest"
  shows "\<exists>s. (boot_step E)\<^sup>*\<^sup>* (Reset st) s \<and> kernel_runs E data s"
proof -
  have "es \<noteq> []" using assms(5) by (auto simp: bootable_def)
  from power_on_prompt [OF assms(1,2) this] obtain st1 where
    st1: "boot_step E (Reset st) (Prompt st1)" "prompt_ok E es (mem st1)" "con_in st1 = con_in st" by blast
  obtain st2 where st2: "(boot_step E)\<^sup>*\<^sup>* (Prompt st1) (Prompt st2)" "prompt_ok E es (mem st2)" "con_in st2 = cs @ e # rest"
    using prompt_refusals [OF assms(3) st1(2), of "cs @ e # rest"] st1(3) assms(6) by auto
  obtain s where s: "boot_step E (Prompt st2) s" "kernel_runs E data s" using bootable_runs [OF st2(2) assms(4,5) st2(3)] by blast
  have "(boot_step E)\<^sup>*\<^sup>* (Reset st) s"
    by (rule converse_rtranclp_into_rtranclp [OF st1(1) rtranclp.rtrancl_into_rtrancl [OF st2(1) s(1)]])
  then show ?thesis using s(2) by blast
qed

section \<open>A flash with a damaged kernel and a good one\<close>

text \<open>All that is left of the first file is its header.\<close>

definition header_only :: "u8 list" where "header_only = [0x5d, 0, 0, 0, 0, 10, 0, 0, 0, 0, 0, 0, 0]"

definition two_files :: "(u8 list \<times> u8 list) list" where
  "two_files = [(lzma_name, header_only), ([107], sample_kernel)]"

definition two_flash :: "u8 list" where
  "two_flash = [0xba, 0xd0, 0x0b, 0x1e, 0, 0, 0, 13, 0, 0, 0, 0, 0, 0, 0, 0] @ lzma_name @ replicate 42 0
     @ header_only @ take 152 sample_flash @ [0, 0, 0, 0]"

definition two_mem :: mem where
  "two_mem = mem_write (mem_write (mem_write (\<lambda>_. 0) 0x30000000 two_flash)
     0x80010500 [99, 111, 110, 115, 111, 108, 101, 0]) 0x80010510 [108, 122, 109, 97, 0]"

lemma two_flash_read:
  assumes "k + n \<le> 233"
  shows "mem_read two_mem (0x30000000 + of_nat k) n = take n (drop k two_flash)"
proof -
  have len: "length two_flash = 233" by (simp add: two_flash_def lzma_name_def header_only_def sample_flash_def sample_kernel_def)
  have "mem_read two_mem 0x30000000 233 = mem_read (mem_write (\<lambda>_. 0) 0x30000000 two_flash) 0x30000000 233"
    unfolding two_mem_def
    using mem_read_write_apart [of "0x30000000" 233 "0x80010510" "[108, 122, 109, 97, 0]"]
      mem_read_write_apart [of "0x30000000" 233 "0x80010500" "[99, 111, 110, 115, 111, 108, 101, 0]"]
    by (simp add: apart_def del: mem_write.simps)
  also have "\<dots> = two_flash" using mem_read_write_same [of two_flash "\<lambda>_. 0" "0x30000000"] len by simp
  finally show ?thesis using sub_mem_read [OF assms, of two_mem "0x30000000"] by simp
qed

lemma two_prompt: "prompt_ok sample_env two_files two_mem"
proof -
  have len: "length sample_kernel = 88" "length header_only = 13" by (simp_all add: sample_kernel_def header_only_def)
  have dir: "dir_span C3600 two_files = 233" by (simp add: two_files_def len)
  have "flash_dir C3600 two_mem 0x30000000 two_files"
    using two_flash_read [of 0 4] two_flash_read [of 4 4] two_flash_read [of 16 48] two_flash_read [of 64 13]
      two_flash_read [of 77 4] two_flash_read [of 81 4] two_flash_read [of 93 48] two_flash_read [of 141 88] two_flash_read [of 229 4]
    by (simp add: two_files_def fs_ent_magic_def fs_ent_length_def field_str_def two_flash_def sample_flash_def lzma_name_def len be32_def)
  moreover have "cstr two_mem 0x80010510 (bytes_of ''lzma'')" unfolding two_mem_def by simp
  moreover have "cstr two_mem 0x80010500 (bytes_of ''console'')" unfolding two_mem_def by simp
  moreover have "plat sample_env = C3600" "frm sample_env = sample_frame"
    "console_at sample_frame = 0x80010500" "lzma_at sample_frame = 0x80010510"
    by (simp_all add: sample_env_def sample_frame_def)
  moreover have "layout_ok sample_frame 0x30000000 233"
    by (simp add: layout_ok_def regions_def sample_frame_def region_apart_def apart_def MEMORY_BASE_def)
  ultimately show ?thesis by (simp add: prompt_ok_def dir del: dir_span.simps flash_dir.simps)
qed

lemma header_only_cut: "take 13 (lzma_file sample_props [] sample_packets) = header_only"
proof -
  have "props_byte sample_props = 0x5d" by code_simp
  moreover have "u32_bytes LE (of_nat (length (lz_text (run_packets sample_packets lz_start)))) = [10, 0, 0, 0]"
    unfolding sample_packets_text(2) by code_simp
  ultimately show ?thesis by (simp add: lzma_file_def header_only_def del: u32_bytes.simps)
qed

lemma two_damaged: "damaged sample_env two_files lzma_name"
proof -
  let ?F = "lzma_file sample_props [] sample_packets"
  have len: "19 \<le> length ?F" "length ?F \<le> 119"
    using lzma_file_length [of sample_props "[]" sample_packets] sample_packets_text(3) by auto
  have head: "length header_only = 13" "u32_of LE (take 4 (drop 5 header_only)) = 10" by code_simp+
  have span: "dir_span C3600 two_files = 233" by (simp add: two_files_def head sample_kernel_def)
  have "map_of two_files lzma_name = Some header_only" "entry_addr C3600 0x30000000 two_files lzma_name = 0x30000000"
    by (simp_all add: two_files_def)
  moreover from this have "lzma_clear sample_env two_files lzma_name header_only"
    unfolding lzma_clear_def lzma_placed_def Let_def head
    by (simp add: file_base_def sample_env_def sample_frame_def apart_def LOADADDR_def MEMORY_BASE_def)
  moreover have "lzma_beside sample_env two_files (unat (u32_of LE (take 4 (drop 5 header_only))))"
    unfolding lzma_beside_def head by (simp add: sample_env_def sample_frame_def span apart_def LOADADDR_def)
  moreover have "lzma_buffer_clear sample_env LOADADDR [97, 97, 97, 97, 97, 97, 98, 98, 98, 98]"
    by (simp add: lzma_buffer_clear_def sample_env_def sample_frame_def apart_def LOADADDR_def)
  moreover have "lzma_room sample_env ?F LOADADDR (length [97, 97, 97, 97, 97, 97, 98, 98, 98, 98 :: u8])"
    unfolding lzma_room_def using len
    by (intro conjI exI [of _ "0x30000040"]) (simp_all add: sample_env_def sample_frame_def apart_def LOADADDR_def)
  moreover have "lzma_name = [107, 46] @ bytes_of ''lzm'' @ [97]" "108 \<notin> set [107, 46 :: u8]" by (simp_all add: lzma_name_def)
  ultimately show ?thesis unfolding damaged_def Let_def
    using sample_packets_text(1,2) len
    by (intro exI [of _ "[107, 46]"] exI [of _ "[97]"] exI [of _ sample_props] exI [of _ "[]"] exI [of _ sample_packets] exI [of _ 13] conjI)
      (simp_all only: header_only_cut, simp_all add: sample_props_def)
qed

lemma two_bootable: "bootable sample_env two_files [107] sample_kernel"
proof -
  have "elf32_loadable sample_frame 0x3000008d sample_kernel"
    unfolding elf32_loadable_def Let_def
    by (simp add: sample_header sample_ph segment_ok_def sample_frame_def apart_def)
     (simp add: sample_kernel_def ELF_MAGIC_def ELF_CLASS_32_def ELF_DATA_MSB_def)
  moreover have "entry_addr C3600 0x30000000 two_files [107] = 0x3000004d"
    by (simp add: two_files_def lzma_name_def header_only_def)
  moreover have "map_of two_files [107] = Some sample_kernel" by (simp add: two_files_def lzma_name_def)
  moreover have "\<not> mentions [107] ''lzm''" by (auto simp: mentions_def Cons_eq_append_conv)
  ultimately show ?thesis
    by (simp add: bootable_def sample_segments sample_env_def apart_def MEMORY_BASE_def)
qed

section \<open>Properties\<close>



end
