(* ===== verification/Startup.thy ===== *)
theory Startup
  imports LzmaRecovery
begin

text \<open>
  The start-up code \<^verbatim>\<open>mach/*/start.S\<close>: the instructions between the ROM monitor and
  \<^verbatim>\<open>start_bootloader\<close>. On the MIPS boards they save the return address under the text of the
  program, print a letter, ask the ROM monitor for the size of the memory and put the
  stack at its end; on the C1700 they wait for the serial port and print the letter.
  \<^verbatim>\<open>syscall\<close> enters the ROM monitor, the parameter \<open>rom\<close> of the environment; call 1 prints a character.
\<close>

section \<open>The MIPS boards\<close>

datatype reg = SP | RA | A0 | A1 | V0

text \<open>\<open>Sw r k b\<close> stores \<open>r\<close> at \<open>k\<close> bytes from \<open>b\<close>.\<close>

datatype ins = Li reg u32 | Sw reg int reg | Syscall | Nop | Add reg reg reg | Jal

definition mips_start :: "ins list" where
  "mips_start =
     [Li SP 0x80008000,
      Sw RA (-4) SP,
      Li A0 1,
      Li A1 67,
      Syscall,
      Nop,
      Li A0 4,
      Syscall,
      Nop,
      Li SP 0x80000000,
      Add SP SP V0,
      Jal,
      Nop]"

record cpu =
  pc :: nat
  gpr :: "reg \<Rightarrow> u32"

text \<open>\<open>add\<close> traps when the sum of the signed numbers does not fit.\<close>

datatype power_state = Running cpu machine | Trapped cpu machine | Boot cpu boot_state

definition signed_fits :: "u32 \<Rightarrow> u32 \<Rightarrow> bool" where
  "signed_fits x y \<longleftrightarrow> sint (x + y) = sint x + sint y"

definition advance :: "cpu \<Rightarrow> reg \<Rightarrow> u32 \<Rightarrow> cpu" where
  "advance c r w = \<lparr>pc = Suc (pc c), gpr = (gpr c)(r := w)\<rparr>"

fun exec_ins :: "env \<Rightarrow> ins \<Rightarrow> cpu \<Rightarrow> machine \<Rightarrow> power_state" where
  "exec_ins E (Li r w) c m = Running (advance c r w) m"
| "exec_ins E (Sw r k b) c m =
     Running (c\<lparr>pc := Suc (pc c)\<rparr>) (m\<lparr>mem := mem_write (mem m) (gpr c b + of_int k) (u32_bytes BE (gpr c r))\<rparr>)"
| "exec_ins E Syscall c m =
     (let q = rom E \<lparr>a0 = gpr c A0, v0 = gpr c V0, r3 = r3 (regs0 E)\<rparr>
      in Running \<lparr>pc = Suc (pc c), gpr = (gpr c)(A0 := a0 q, V0 := v0 q)\<rparr>
           (if gpr c A0 = 1 then c_putc m (ucast (gpr c A1)) else m))"
| "exec_ins E Nop c m = Running (c\<lparr>pc := Suc (pc c)\<rparr>) m"
| "exec_ins E (Add r x y) c m =
     (if signed_fits (gpr c x) (gpr c y) then Running (advance c r (gpr c x + gpr c y)) m else Trapped c m)"
| "exec_ins E Jal c m = Boot c (Reset m)"

inductive power_step :: "env \<Rightarrow> power_state \<Rightarrow> power_state \<Rightarrow> bool" for E :: env where
  instruction: "pc c < length mips_start \<Longrightarrow> power_step E (Running c m) (exec_ins E (mips_start ! pc c) c m)"
| booting: "boot_step E s s' \<Longrightarrow> power_step E (Boot c s) (Boot c s')"

inductive_cases power_stepE: "power_step E s s'"
inductive_simps power_step_running: "power_step E (Running c m) s"
inductive_simps power_step_trapped: "power_step E (Trapped c m) s"

section \<open>The C1700\<close>

text \<open>\<open>lsr i\<close> is what the status register of the serial port answers when it is read for the \<open>i\<close>-th time.\<close>

partial_function (option) c1700_putchar :: "(nat \<Rightarrow> u8) \<Rightarrow> nat \<Rightarrow> nat option" where
  "c1700_putchar lsr i = (if lsr i AND 0x20 = 0 then c1700_putchar lsr (Suc i) else Some i)"

declare c1700_putchar.simps [code]

definition c1700_start :: "(nat \<Rightarrow> u8) \<Rightarrow> machine \<Rightarrow> boot_state option" where
  "c1700_start lsr st = (case c1700_putchar lsr 0 of None \<Rightarrow> None | Some _ \<Rightarrow> Some (Reset (c_putc st 67)))"

lemma c1700_putchar_ready: "lsr (i + n) AND 0x20 \<noteq> 0 \<Longrightarrow> \<exists>k. c1700_putchar lsr i = Some k"
proof (induction n arbitrary: i)
  case 0
  then show ?case by (subst c1700_putchar.simps) simp
next
  case (Suc n)
  then show ?case by (subst c1700_putchar.simps) simp
qed

lemma c1700_start_ready: "lsr n AND 0x20 \<noteq> 0 \<Longrightarrow> c1700_start lsr st = Some (Reset (c_putc st 67))"
  using c1700_putchar_ready [of lsr 0 n] by (auto simp: c1700_start_def)

section \<open>To the boot loader\<close>

text \<open>The run of the start-up code: twelve instructions, no trap when the memory is smaller than 2 GiB.\<close>

lemma sint_of_small: "- (2 ^ 31) \<le> k \<Longrightarrow> k < 2 ^ 31 \<Longrightarrow> sint (word_of_int k :: u32) = k"
  by (simp add: sint_sbintrunc' signed_take_bit_int_eq_self)

lemma stack_fits:
  assumes "sz < 0x80000000"
  shows "signed_fits 0x80000000 sz"
proof -
  have u: "uint sz < 2 ^ 31" using assms by (simp add: word_less_alt)
  have "sint (word_of_int (uint sz) :: u32) = uint sz" using u by (intro sint_of_small) (auto intro: order_trans [OF _ uint_ge_0])
  then have sz: "sint sz = uint sz" by simp
  have sum: "0x80000000 + sz = word_of_int (uint sz - 2 ^ 31)" by (simp add: word_of_int_minus)
  have "sint (word_of_int (uint sz - 2 ^ 31) :: u32) = uint sz - 2 ^ 31" using u uint_ge_0 [of sz] by (intro sint_of_small) linarith+
  then show ?thesis unfolding signed_fits_def sum [symmetric] sz by simp
qed

definition started :: "(reg \<Rightarrow> u32) \<Rightarrow> machine \<Rightarrow> machine" where
  "started R st = st\<lparr>mem := mem_write (mem st) 0x80007ffc (u32_bytes BE (R RA)), con_out := con_out st @ [67]\<rparr>"

text \<open>From instruction to instruction; a straight run of them is a computation.\<close>

primrec run_ins :: "env \<Rightarrow> nat \<Rightarrow> power_state \<Rightarrow> power_state" where
  "run_ins E 0 s = s"
| "run_ins E (Suc n) s = (case s of Running c m \<Rightarrow>
     if pc c < length mips_start then run_ins E n (exec_ins E (mips_start ! pc c) c m) else s | _ \<Rightarrow> s)"

lemma run_ins_steps: "(power_step E)\<^sup>*\<^sup>* s (run_ins E n s)"
proof (induction n arbitrary: s)
  case (Suc n)
  show ?case
  proof (cases "\<exists>c m. s = Running c m \<and> pc c < length mips_start")
    case True
    then obtain c m where s: "s = Running c m" "pc c < length mips_start" by blast
    have "(power_step E)\<^sup>*\<^sup>* s (run_ins E n (exec_ins E (mips_start ! pc c) c m))"
      unfolding s(1) by (rule converse_rtranclp_into_rtranclp [OF instruction [OF s(2)] Suc.IH])
    then show ?thesis by (simp add: s)
  qed (auto split: power_state.split)
qed simp

lemma run_ins_numeral:
  "run_ins E (numeral k) (Running c m) =
     (if pc c < length mips_start then run_ins E (pred_numeral k) (exec_ins E (mips_start ! pc c) c m) else Running c m)"
  by (subst numeral_eq_Suc) simp

lemma start_runs:
  assumes sz: "\<And>q. a0 q = 4 \<Longrightarrow> v0 (rom E q) = sz" and small: "sz < 0x80000000"
  shows "\<exists>c. (power_step E)\<^sup>*\<^sup>* (Running \<lparr>pc = 0, gpr = R\<rparr> st) (Boot c (Reset (started R st))) \<and> gpr c SP = 0x80000000 + sz"
proof -
  have "\<exists>c. run_ins E 12 (Running \<lparr>pc = 0, gpr = R\<rparr> st) = Boot c (Reset (started R st)) \<and> gpr c SP = 0x80000000 + sz"
    using stack_fits [OF small]
    by (simp add: run_ins_numeral mips_start_def advance_def Let_def sz started_def c_putc_def del: u32_bytes.simps)
  then show ?thesis using run_ins_steps [of E "Running \<lparr>pc = 0, gpr = R\<rparr> st" 12] by metis
qed

text \<open>The saved return address lies under the text of the program, beside the flash and the literals.\<close>

lemma started_prompt_ok:
  assumes ok: "prompt_ok E es (mem st)" and beside: "apart (FLASH_BASE (plat E)) (dir_span (plat E) es) 0x80007ffc 4"
    "apart (console_at (frm E)) 8 0x80007ffc 4" "apart (lzma_at (frm E)) 5 0x80007ffc 4"
  shows "prompt_ok E es (mem (started R st))"
proof (rule prompt_ok_kept [OF ok])
  have "mem (started R st) x = mem st x" if "in_range a n x" "apart a n 0x80007ffc 4" for a n x
  proof -
    have four: "length (u32_bytes BE (R RA)) = 4" by simp
    have "\<not> in_range 0x80007ffc (length (u32_bytes BE (R RA))) x" unfolding four by (rule apart_not_in_range [OF that(2,1)])
    then show ?thesis unfolding started_def by (simp add: mem_write_outside del: u32_bytes.simps)
  qed
  note kept = this
  show "mem (started R st) x = mem st x" if "in_range (FLASH_BASE (plat E)) (dir_span (plat E) es) x" for x
    by (rule kept [OF that beside(1)])
  show "mem (started R st) x = mem st x" if "in_range (console_at (frm E)) 8 x" for x by (rule kept [OF that beside(2)])
  show "mem (started R st) x = mem st x" if "in_range (lzma_at (frm E)) 5 x" for x by (rule kept [OF that beside(3)])
qed

lemma booting_steps: "(boot_step E)\<^sup>*\<^sup>* s s' \<Longrightarrow> (power_step E)\<^sup>*\<^sup>* (Boot c s) (Boot c s')"
proof (induction rule: rtranclp_induct)
  case (step s1 s2)
  then show ?case by (blast intro: rtranclp.rtrancl_into_rtrancl booting)
qed simp

text \<open>Once in the boot loader the machine stays there, and a trap is the end.\<close>

lemma trapped_stays: "\<not> power_step E (Trapped c m) s"
  by (simp add: power_step_trapped)

section \<open>Properties\<close>



end
