(* ===== verification/Stdio.thy ===== *)
theory Stdio
  imports Bytes "HOL-Library.Monad_Syntax"
begin

text \<open>
  What the host tools use of the C library: streams with a position, the files they open, the
  heap, and what they print. A stream over a file holds its bytes; reading stores what is
  there and leaves the rest of the object as it was, writing past the end fills the gap with
  zeros. What the operating system decides (whether an open, an unlink or an allocation
  succeeds, what fresh memory contains) is part of the world record. The tools run on a
  little-endian host: they swap the fields of every big-endian file.
\<close>

section \<open>Streams\<close>

record stream =
  s_bytes :: "u8 list"
  s_pos :: nat

definition stream_of :: "u8 list \<Rightarrow> stream" where
  "stream_of bs = \<lparr>s_bytes = bs, s_pos = 0\<rparr>"

definition fseek_set :: "stream \<Rightarrow> nat \<Rightarrow> stream" where
  "fseek_set f off = f\<lparr>s_pos := off\<rparr>"

definition fseek_end :: "stream \<Rightarrow> stream" where
  "fseek_end f = f\<lparr>s_pos := length (s_bytes f)\<rparr>"

definition ftell :: "stream \<Rightarrow> nat" where
  "ftell f = s_pos f"

text \<open>\<open>fread\<close> into an object whose bytes are \<open>obj\<close>.\<close>

definition fread :: "u8 list \<Rightarrow> stream \<Rightarrow> u8 list \<times> stream" where
  "fread obj f =
     (let got = take (length obj) (drop (s_pos f) (s_bytes f))
      in (got @ drop (length got) obj, f\<lparr>s_pos := s_pos f + length got\<rparr>))"

definition fwrite :: "u8 list \<Rightarrow> stream \<Rightarrow> stream" where
  "fwrite bs f =
     (let old = s_bytes f @ replicate (s_pos f - length (s_bytes f)) 0
      in if bs = [] then f
         else f\<lparr>s_bytes := take (s_pos f) old @ bs @ drop (s_pos f + length bs) old,
                s_pos := s_pos f + length bs\<rparr>)"

section \<open>The world of a tool\<close>

datatype errno = EACCES | EBUSY | EPERM | Other_Error

datatype printed_arg = Num u32 | Text string

type_synonym printout = "(string \<times> printed_arg list) list"

record world =
  disk :: "string \<Rightarrow> u8 list option"
  unlink_error :: "string \<Rightarrow> errno option"
  can_create :: "string \<Rightarrow> bool"
  heap :: "nat \<Rightarrow> u8 list option" \<comment> \<open>what \<open>malloc\<close> returns\<close>
  printed :: printout

definition print :: "string \<Rightarrow> printed_arg list \<Rightarrow> world \<Rightarrow> world" where
  "print fmt args w = w\<lparr>printed := printed w @ [(fmt, args)]\<rparr>"

definition print_all :: "printout \<Rightarrow> world \<Rightarrow> world" where
  "print_all lines w = fold (\<lambda>(fmt, args). print fmt args) lines w"

definition store_file :: "string \<Rightarrow> stream \<Rightarrow> world \<Rightarrow> world" where
  "store_file name f w = w\<lparr>disk := (disk w)(name := Some (s_bytes f))\<rparr>"

section \<open>Reading and writing\<close>

lemma stream_simps [simp]:
  "s_bytes (stream_of bs) = bs" "s_pos (stream_of bs) = 0"
  "s_bytes (fseek_set f off) = s_bytes f" "s_pos (fseek_set f off) = off"
  "s_bytes (fseek_end f) = s_bytes f" "s_pos (fseek_end f) = length (s_bytes f)"
  by (simp_all add: stream_of_def fseek_set_def fseek_end_def)

lemma length_fread [simp]: "length (fst (fread obj f)) = length obj"
  by (simp add: fread_def Let_def)

lemma s_bytes_fread [simp]: "s_bytes (snd (fread obj f)) = s_bytes f"
  by (simp add: fread_def Let_def)

text \<open>A read that the file can satisfy replaces the object.\<close>

lemma fread_whole:
  assumes "s_pos f + length obj \<le> length (s_bytes f)"
  shows "fread obj f = (take (length obj) (drop (s_pos f) (s_bytes f)), f\<lparr>s_pos := s_pos f + length obj\<rparr>)"
proof -
  have "length (take (length obj) (drop (s_pos f) (s_bytes f))) = length obj" using assms by simp
  then show ?thesis unfolding fread_def Let_def by simp
qed

text \<open>Writing at the end appends; writing inside keeps what is around.\<close>

lemma fwrite_append: "s_pos f = length (s_bytes f) \<Longrightarrow>
    fwrite bs f = f\<lparr>s_bytes := s_bytes f @ bs, s_pos := s_pos f + length bs\<rparr>"
  by (simp add: fwrite_def Let_def)

lemma fwrite_inside:
  assumes "s_pos f \<le> length (s_bytes f)"
  shows "s_bytes (fwrite bs f) = take (s_pos f) (s_bytes f) @ bs @ drop (s_pos f + length bs) (s_bytes f)"
    and "s_pos (fwrite bs f) = s_pos f + length bs"
  using assms by (auto simp: fwrite_def Let_def)

lemma print_simps [simp]:
  "disk (print fmt args w) = disk w" "unlink_error (print fmt args w) = unlink_error w"
  "can_create (print fmt args w) = can_create w" "heap (print fmt args w) = heap w"
  by (simp_all add: print_def)

end
