(* ===== verification/Mzip.thy ===== *)
theory Mzip
  imports Stdio
begin

text \<open>
  The MZIP image format: the header and the routines of \<^verbatim>\<open>elf2mzip/mzip.c\<close>. A header is a
  record; its image in the memory of the host is \<open>mzip_header_bytes LE\<close>, and that is what
  the checksums are computed over and what is written out. The compressor (libzip and the
  temporary file it writes) is not part of the program: what it answers at each call is a
  record, an argument of \<open>mzip_codeseg_build\<close>.
\<close>

section \<open>The header\<close>

record mzip_header =
  hdr_magic :: "u8 list"
  hdr_version :: u32
  hdr_entrypt :: u32
  hdr_flags1 :: u32
  hdr_flags2 :: u32
  hdr_padding1 :: "u32 list"
  hdr_crc_code :: u16
  hdr_crc_header :: u16
  hdr_header_size :: u32
  hdr_loader_addr :: u32
  hdr_flags3 :: u32
  hdr_code_packed_size :: u32
  hdr_code_unpacked_size :: u32
  hdr_memory_image_size :: u32
  hdr_padding2 :: "u32 list"

definition MZIP_HDR_SIZE :: nat where "MZIP_HDR_SIZE = 112"

text \<open>The arrays have their C sizes.\<close>

definition mzip_wf :: "mzip_header \<Rightarrow> bool" where
  "mzip_wf h \<longleftrightarrow> length (hdr_magic h) = 4 \<and> length (hdr_padding1 h) = 8 \<and> length (hdr_padding2 h) = 8"

definition words_bytes :: "endian \<Rightarrow> u32 list \<Rightarrow> u8 list" where
  "words_bytes e ws = concat (map (u32_bytes e) ws)"

definition words_of :: "endian \<Rightarrow> nat \<Rightarrow> u8 list \<Rightarrow> u32 list" where
  "words_of e n bs = map (\<lambda>i. u32_of e (drop (4 * i) bs)) [0..<n]"

definition mzip_header_bytes :: "endian \<Rightarrow> mzip_header \<Rightarrow> u8 list" where
  "mzip_header_bytes e h =
     hdr_magic h @ u32_bytes e (hdr_version h) @ u32_bytes e (hdr_entrypt h) @
     u32_bytes e (hdr_flags1 h) @ u32_bytes e (hdr_flags2 h) @ words_bytes e (hdr_padding1 h) @
     u16_bytes e (hdr_crc_code h) @ u16_bytes e (hdr_crc_header h) @
     u32_bytes e (hdr_header_size h) @ u32_bytes e (hdr_loader_addr h) @ u32_bytes e (hdr_flags3 h) @
     u32_bytes e (hdr_code_packed_size h) @ u32_bytes e (hdr_code_unpacked_size h) @
     u32_bytes e (hdr_memory_image_size h) @ words_bytes e (hdr_padding2 h)"

definition mzip_header_of :: "endian \<Rightarrow> u8 list \<Rightarrow> mzip_header" where
  "mzip_header_of e bs =
     \<lparr>hdr_magic = take 4 bs, hdr_version = u32_of e (drop 4 bs), hdr_entrypt = u32_of e (drop 8 bs),
      hdr_flags1 = u32_of e (drop 12 bs), hdr_flags2 = u32_of e (drop 16 bs),
      hdr_padding1 = words_of e 8 (drop 20 bs), hdr_crc_code = u16_of e (drop 52 bs),
      hdr_crc_header = u16_of e (drop 54 bs), hdr_header_size = u32_of e (drop 56 bs),
      hdr_loader_addr = u32_of e (drop 60 bs), hdr_flags3 = u32_of e (drop 64 bs),
      hdr_code_packed_size = u32_of e (drop 68 bs), hdr_code_unpacked_size = u32_of e (drop 72 bs),
      hdr_memory_image_size = u32_of e (drop 76 bs), hdr_padding2 = words_of e 8 (drop 80 bs)\<rparr>"

text \<open>\<open>mzip_initialize\<close>: the header is the caller's or a fresh one (\<open>fresh\<close> is what \<open>malloc\<close>
  answers); all of it is cleared but the magic and the version.\<close>

definition mzip_blank :: mzip_header where
  "mzip_blank =
     \<lparr>hdr_magic = bytes_of ''MZIP'', hdr_version = 1, hdr_entrypt = 0, hdr_flags1 = 0, hdr_flags2 = 0,
      hdr_padding1 = replicate 8 0, hdr_crc_code = 0, hdr_crc_header = 0, hdr_header_size = 0,
      hdr_loader_addr = 0, hdr_flags3 = 0, hdr_code_packed_size = 0, hdr_code_unpacked_size = 0,
      hdr_memory_image_size = 0, hdr_padding2 = replicate 8 0\<rparr>"

definition mzip_initialize :: "'p option \<Rightarrow> 'p option \<Rightarrow> ('p \<times> mzip_header) option" where
  "mzip_initialize hdr fresh =
     (case hdr of
        Some p \<Rightarrow> Some (p, mzip_blank)
      | None \<Rightarrow> (case fresh of None \<Rightarrow> None | Some p \<Rightarrow> Some (p, mzip_blank)))"

section \<open>The code segment\<close>

record zip_env =
  zip_opens :: bool
  zip_source_made :: bool
  zip_added :: bool
  zip_file :: "u8 list \<Rightarrow> u8 list option" \<comment> \<open>the archive after \<open>zip_close\<close>, if it can be opened\<close>
  zip_stat_ok :: bool
  zip_alloc_ok :: bool

definition mzip_codeseg_build :: "zip_env \<Rightarrow> u8 list \<Rightarrow> (u8 list \<times> u32) option" where
  "mzip_codeseg_build Z buffer =
     (if \<not> zip_opens Z then None
      else if \<not> zip_source_made Z then None
      else if \<not> zip_added Z then None
      else case zip_file Z buffer of None \<Rightarrow> None
        | Some archive \<Rightarrow>
            if \<not> zip_stat_ok Z then None
            else if \<not> zip_alloc_ok Z then None
            else Some (archive, of_nat (length archive)))"

section \<open>Checksums\<close>

definition crc_shift :: "u16 \<Rightarrow> u16" where
  "crc_shift ent = (if ent AND 0x8000 \<noteq> 0 then push_bit 1 ent XOR 0x1021 else push_bit 1 ent)"

definition crc_entry :: "nat \<Rightarrow> u16" where
  "crc_entry i = (crc_shift ^^ 8) (push_bit 8 (of_nat i))"

definition crc_table :: "u16 list" where
  "crc_table = map crc_entry [0..<256]"

definition crc_step :: "u8 \<Rightarrow> u16 \<Rightarrow> u16" where
  "crc_step b crc = crc_table ! unat ((drop_bit 8 crc XOR ucast b) AND 0xff) XOR push_bit 8 crc"

text \<open>The third argument is where the run ends, not how long it is.\<close>

definition calculate_crc :: "u8 list \<Rightarrow> nat \<Rightarrow> nat \<Rightarrow> u16 \<Rightarrow> u16" where
  "calculate_crc buffer offset len remainder =
     NOT (fold (\<lambda>i. crc_step (buffer ! i)) [offset..<len] (NOT remainder))"

definition mzip_calculate_crc :: "mzip_header \<Rightarrow> u8 list \<Rightarrow> nat \<Rightarrow> u16" where
  "mzip_calculate_crc hdr buffer buf_size =
     (let rem = calculate_crc (mzip_header_bytes LE hdr) 0x38 0x70 0
      in calculate_crc buffer 0 buf_size rem)"

definition mzip_calculate_hdr_crc :: "mzip_header \<Rightarrow> u16" where
  "mzip_calculate_hdr_crc hdr = calculate_crc (mzip_header_bytes LE hdr) 0 0x36 0"

section \<open>Writing\<close>

definition mzip_write_header :: "mzip_header \<Rightarrow> stream \<Rightarrow> stream" where
  "mzip_write_header hdr fp = fwrite (mzip_header_bytes LE hdr) (fseek_set fp 0)"

definition mzip_write_codeseg :: "u8 list \<Rightarrow> stream \<Rightarrow> stream" where
  "mzip_write_codeseg buffer fp = fwrite buffer (fseek_set fp MZIP_HDR_SIZE)"

definition mzip_write_footer :: "u8 list list \<Rightarrow> stream \<Rightarrow> stream" where
  "mzip_write_footer footer fp = fold fwrite footer (fseek_end fp)"

definition mzip_write :: "mzip_header \<Rightarrow> u8 list \<Rightarrow> u8 list list \<Rightarrow> stream \<Rightarrow> stream" where
  "mzip_write hdr buffer footer fp =
     mzip_write_footer footer (mzip_write_codeseg buffer (mzip_write_header hdr fp))"

section \<open>Byte order\<close>

text \<open>Every field but the loader address and the padding.\<close>

definition mzip_swap :: "mzip_header \<Rightarrow> mzip_header" where
  "mzip_swap hdr = hdr\<lparr>
     hdr_version := SWAP_32 (hdr_version hdr), hdr_entrypt := SWAP_32 (hdr_entrypt hdr),
     hdr_flags1 := SWAP_32 (hdr_flags1 hdr), hdr_flags2 := SWAP_32 (hdr_flags2 hdr),
     hdr_crc_code := SWAP_16 (hdr_crc_code hdr), hdr_crc_header := SWAP_16 (hdr_crc_header hdr),
     hdr_header_size := SWAP_32 (hdr_header_size hdr), hdr_flags3 := SWAP_32 (hdr_flags3 hdr),
     hdr_code_packed_size := SWAP_32 (hdr_code_packed_size hdr),
     hdr_code_unpacked_size := SWAP_32 (hdr_code_unpacked_size hdr),
     hdr_memory_image_size := SWAP_32 (hdr_memory_image_size hdr)\<rparr>"

definition mzip_print_header :: "mzip_header \<Rightarrow> world \<Rightarrow> world" where
  "mzip_print_header hdr =
     print_all [(''Magic: %c%c%c%c\<newline>'', map (\<lambda>c. Num (ucast c)) (hdr_magic hdr)),
       (''Version: %08x\<newline>'', [Num (hdr_version hdr)]),
       (''Entry Point: %08x\<newline>'', [Num (hdr_entrypt hdr)]),
       (''Flags 1: %08x\<newline>'', [Num (hdr_flags1 hdr)]),
       (''Flags 2: %08x\<newline>'', [Num (hdr_flags2 hdr)]),
       (''CRC Code Segment: %04x\<newline>'', [Num (ucast (hdr_crc_code hdr))]),
       (''CRC Header: %04x\<newline>'', [Num (ucast (hdr_crc_header hdr))]),
       (''Header Size: %08x\<newline>'', [Num (hdr_header_size hdr)]),
       (''Loader Address: %08x\<newline>'', [Num (hdr_loader_addr hdr)]),
       (''Flags 3: %08x\<newline>'', [Num (hdr_flags3 hdr)]),
       (''Code size (packed): %08x\<newline>'', [Num (hdr_code_packed_size hdr)]),
       (''Code size (unpacked): %08x\<newline>'', [Num (hdr_code_unpacked_size hdr)]),
       (''Memory Image Size: %08x\<newline>'', [Num (hdr_memory_image_size hdr)])]"

section \<open>Layout\<close>

lemma length_words_bytes [simp]: "length (words_bytes e ws) = 4 * length ws"
proof -
  have "length (u32_bytes e w) = 4" for w by (cases e) simp_all
  then show ?thesis by (induction ws) (simp_all add: words_bytes_def)
qed

lemma words_roundtrip: "words_of e (length ws) (words_bytes e ws @ rest) = ws"
proof (rule nth_equalityI)
  fix i assume "i < length (words_of e (length ws) (words_bytes e ws @ rest))"
  then have i: "i < length ws" by (simp add: words_of_def)
  have "words_bytes e ws = words_bytes e (take i ws @ ws ! i # drop (Suc i) ws)"
    by (subst id_take_nth_drop [OF i, symmetric]) (rule refl)
  also have "\<dots> = words_bytes e (take i ws) @ u32_bytes e (ws ! i) @ words_bytes e (drop (Suc i) ws)"
    by (simp add: words_bytes_def)
  finally have "words_bytes e ws = words_bytes e (take i ws) @ u32_bytes e (ws ! i) @ words_bytes e (drop (Suc i) ws)" .
  moreover have "length (words_bytes e (take i ws)) = 4 * i" using i by simp
  ultimately have "drop (4 * i) (words_bytes e ws @ rest) =
      u32_bytes e (ws ! i) @ words_bytes e (drop (Suc i) ws) @ rest" by simp
  then show "words_of e (length ws) (words_bytes e ws @ rest) ! i = ws ! i"
    using i by (simp add: words_of_def codec32.dec_enc)
qed (simp add: words_of_def)

lemma u16_len [simp]: "length (u16_bytes e w) = 2" and u32_len [simp]: "length (u32_bytes e x) = 4"
  by (cases e; simp)+

lemma length_mzip_header_bytes: "mzip_wf h \<Longrightarrow> length (mzip_header_bytes e h) = MZIP_HDR_SIZE"
  by (simp add: mzip_header_bytes_def mzip_wf_def MZIP_HDR_SIZE_def)

lemma mzip_header_roundtrip:
  assumes "mzip_wf h"
  shows "mzip_header_of e (mzip_header_bytes e h @ rest) = h"
proof -
  have len: "length (hdr_magic h) = 4" "length (hdr_padding1 h) = 8" "length (hdr_padding2 h) = 8"
    using assms by (simp_all add: mzip_wf_def)
  note w1 = words_roundtrip [of e "hdr_padding1 h", unfolded len] and w2 = words_roundtrip [of e "hdr_padding2 h", unfolded len]
  show ?thesis
    by (rule mzip_header.equality)
      (simp_all add: mzip_header_of_def mzip_header_bytes_def len w1 w2 codec16.dec_enc codec32.dec_enc del: u32_of.simps u16_of.simps)
qed

section \<open>The checksum is a polynomial division\<close>

text \<open>One step of the division, bit by bit, is linear and loses nothing.\<close>

lemma bit_0x1021: "n < 16 \<Longrightarrow> bit (0x1021 :: u16) n \<longleftrightarrow> n = 0 \<or> n = 5 \<or> n = 12"
proof -
  have "list_all (\<lambda>n. bit (0x1021 :: u16) n \<longleftrightarrow> n = 0 \<or> n = 5 \<or> n = 12) [0..<16]" by code_simp
  then show "n < 16 \<Longrightarrow> bit (0x1021 :: u16) n \<longleftrightarrow> n = 0 \<or> n = 5 \<or> n = 12" by (simp add: list_all_iff)
qed

lemma and_8000: "(ent AND 0x8000 \<noteq> (0 :: u16)) = bit ent 15"
proof -
  have "ent AND 0x8000 = (if bit ent 15 then 0x8000 else 0)"
    by (rule word_eq_by_bits [OF _ enum16]) (simp add: bit_simps)
  then show ?thesis by simp
qed

lemma bit_crc_shift:
  assumes "n < 16"
  shows "bit (crc_shift x) n \<longleftrightarrow> (n \<noteq> 0 \<and> bit x (n - 1)) \<noteq> (bit x 15 \<and> (n = 0 \<or> n = 5 \<or> n = 12))"
proof -
  have "bit (push_bit 1 x) n \<longleftrightarrow> n \<noteq> 0 \<and> bit x (n - 1)"
    unfolding bit_push_bit_iff using assms by (simp add: Suc_le_eq)
  then show ?thesis unfolding crc_shift_def and_8000 using bit_0x1021 [OF assms]
    by (auto simp: bit_xor_iff)
qed

lemma u16_eqI: "(\<And>n. n < 16 \<Longrightarrow> bit x n = bit y n) \<Longrightarrow> x = (y :: u16)"
  by (rule bit_word_eqI) simp

lemma crc_shift_xor: "crc_shift (x XOR y) = crc_shift x XOR crc_shift y"
  by (rule u16_eqI) (auto simp: bit_crc_shift bit_xor_iff)

lemma crc_shift_inj:
  assumes "crc_shift x = crc_shift y"
  shows "x = y"
proof (rule u16_eqI)
  have top: "bit x 15 = bit y 15"
    using bit_crc_shift [of 0 x] bit_crc_shift [of 0 y] assms by simp
  fix n :: nat assume n: "n < 16"
  show "bit x n = bit y n"
  proof (cases "n = 15")
    case False
    then show ?thesis
      using bit_crc_shift [of "Suc n" x] bit_crc_shift [of "Suc n" y] assms top n by auto
  qed (simp add: top)
qed

lemma crc_shifts_xor: "(crc_shift ^^ n) (x XOR y) = (crc_shift ^^ n) x XOR (crc_shift ^^ n) y"
  by (induction n) (simp_all add: crc_shift_xor)

lemma crc_shifts_inj: "(crc_shift ^^ n) x = (crc_shift ^^ n) y \<Longrightarrow> x = y"
  by (induction n) (auto dest: crc_shift_inj)

text \<open>Below the top bit a step is a plain shift.\<close>

lemma crc_shift_plain: "\<not> bit x 15 \<Longrightarrow> crc_shift x = push_bit 1 x"
  by (simp add: crc_shift_def and_8000)

lemma crc_shifts_plain:
  assumes "\<And>i. 16 - n \<le> i \<Longrightarrow> \<not> bit x i" and "n \<le> 16"
  shows "(crc_shift ^^ n) x = push_bit n x"
  using assms
proof (induction n)
  case (Suc n)
  have "(crc_shift ^^ n) x = push_bit n x" using Suc.prems by (intro Suc.IH) simp_all
  moreover have "\<not> bit (push_bit n x) 15"
    using Suc.prems(1) [of "15 - n"] Suc.prems(2) by (simp add: bit_push_bit_iff)
  ultimately show ?case by (simp add: crc_shift_plain push_bit_push_bit flip: push_bit_Suc)
qed simp

definition crc_byte :: "u8 \<Rightarrow> u16 \<Rightarrow> u16" where
  "crc_byte b crc = (crc_shift ^^ 8) (crc XOR push_bit 8 (ucast b))"

lemma crc_step_byte: "crc_step b crc = crc_byte b crc"
proof -
  define idx where "idx = (drop_bit 8 crc XOR ucast b) AND (0xff :: u16)"
  have split: "crc XOR push_bit 8 (ucast b) = push_bit 8 idx XOR (crc AND 0xff)"
    by (rule word_eq_by_bits [OF _ enum16]) (simp add: idx_def bit_simps)
  have "idx \<le> 0xff" unfolding idx_def by (rule word_and_le1)
  then have "unat idx < 256" by (simp add: word_le_nat_alt)
  then have tab: "crc_table ! unat idx = (crc_shift ^^ 8) (push_bit 8 idx)"
    by (simp add: crc_table_def crc_entry_def)
  have "(crc_shift ^^ 8) (crc AND 0xff) = push_bit 8 (crc AND 0xff)"
  proof (rule crc_shifts_plain)
    have m: "(0xff :: u16) = mask 8" by code_simp
    show "\<not> bit (crc AND 0xff) i" if "16 - 8 \<le> i" for i
      unfolding m bit_and_iff bit_mask_iff using that by linarith
  qed simp
  also have "\<dots> = push_bit 8 crc"
    by (rule word_eq_by_bits [OF _ enum16]) (simp add: bit_simps)
  finally show ?thesis
    unfolding crc_step_def idx_def [symmetric] tab crc_byte_def split crc_shifts_xor by simp
qed


text \<open>The textbook division takes the message bit by bit, the most significant bit of a byte first.\<close>

definition crc_bit :: "bool \<Rightarrow> u16 \<Rightarrow> u16" where
  "crc_bit c crc = (if bit crc 15 \<noteq> c then push_bit 1 crc XOR 0x1021 else push_bit 1 crc)"

definition byte_bits :: "u8 \<Rightarrow> bool list" where
  "byte_bits b = map (bit b) [7, 6, 5, 4, 3, 2, 1, 0]"

fun bits_value :: "bool list \<Rightarrow> u16" where
  "bits_value [] = 0"
| "bits_value (c # cs) = (if c then push_bit (length cs) 1 else 0) XOR bits_value cs"

lemma crc_bit_shift: "crc_bit c crc = crc_shift (crc XOR (if c then 0x8000 else 0))"
proof -
  have one: "(0x8000 :: u16) = push_bit 15 1" by code_simp
  have "bit (crc XOR (if c then 0x8000 else 0)) 15 \<longleftrightarrow> bit crc 15 \<noteq> c"
    unfolding one by (simp add: bit_xor_iff bit_push_bit_iff)
  moreover have "push_bit 1 (crc XOR (if c then 0x8000 else 0)) = push_bit 1 crc"
    by (rule word_eq_by_bits [OF _ enum16]) (simp add: bit_simps)
  ultimately show ?thesis unfolding crc_bit_def crc_shift_def and_8000 by simp
qed

lemma bits_value_bound: "length cs \<le> i \<Longrightarrow> \<not> bit (bits_value cs) i"
  by (induction cs) (auto simp: bit_xor_iff bit_exp_iff)

lemma fold_crc_bit:
  "length cs \<le> 8 \<Longrightarrow>
     fold crc_bit cs crc = (crc_shift ^^ length cs) (crc XOR push_bit (16 - length cs) (bits_value cs))"
proof (induction cs arbitrary: crc)
  case (Cons c cs)
  let ?n = "length cs" and ?v = "bits_value cs"
  have "\<not> bit (push_bit (15 - ?n) ?v) 15"
    using Cons.prems bits_value_bound [of cs ?n] by (simp add: bit_push_bit_iff)
  moreover have "Suc (15 - ?n) = 16 - ?n" using Cons.prems by simp
  ultimately have rest: "crc_shift (push_bit (15 - ?n) ?v) = push_bit (16 - ?n) ?v"
    by (simp add: crc_shift_plain push_bit_push_bit flip: push_bit_Suc)
  have one: "(0x8000 :: u16) = push_bit 15 1" by code_simp
  have top: "push_bit (15 - ?n) (if c then push_bit ?n 1 else 0) = (if c then 0x8000 else (0 :: u16))"
    using Cons.prems by (simp add: push_bit_eq_mult flip: power_add)
  have "crc XOR push_bit (15 - ?n) (bits_value (c # cs)) =
      (crc XOR (if c then 0x8000 else 0)) XOR push_bit (15 - ?n) ?v"
    by (simp add: push_bit_xor top xor.assoc)
  then have "crc_shift (crc XOR push_bit (15 - ?n) (bits_value (c # cs))) = crc_bit c crc XOR push_bit (16 - ?n) ?v"
    by (simp add: crc_shift_xor crc_bit_shift rest)
  then show ?case using Cons by (simp add: funpow_swap1)
qed simp

lemma bits_value_byte: "bits_value (byte_bits b) = ucast b"
  by (rule word_eq_by_bits [OF _ enum16]) (simp add: byte_bits_def bit_simps)

lemma crc_step_bits: "crc_step b crc = fold crc_bit (byte_bits b) crc"
proof -
  have len: "length (byte_bits b) = 8" by (simp add: byte_bits_def)
  show ?thesis
    using fold_crc_bit [of "byte_bits b" crc] unfolding len bits_value_byte crc_step_byte crc_byte_def by simp
qed

definition crc_division :: "u16 \<Rightarrow> u8 list \<Rightarrow> u16" where
  "crc_division remainder bs = NOT (fold crc_bit (concat (map byte_bits bs)) (NOT remainder))"

lemma fold_crc_steps: "fold crc_step bs crc = fold crc_bit (concat (map byte_bits bs)) crc"
  by (induction bs arbitrary: crc) (simp_all add: crc_step_bits)

lemma fold_index: "b \<le> length xs \<Longrightarrow> fold (\<lambda>i. f (xs ! i)) [a..<b] s = fold f (drop a (take b xs)) s"
proof -
  assume b: "b \<le> length xs"
  have "drop a (take b xs) = map ((!) xs) [a..<b]"
    using b by (intro nth_equalityI) auto
  then show ?thesis by (simp add: fold_map comp_def)
qed

lemma calculate_crc_division:
  "len \<le> length bs \<Longrightarrow> calculate_crc bs off len r = crc_division r (drop off (take len bs))"
  by (simp add: calculate_crc_def crc_division_def fold_index fold_crc_steps)

text \<open>Continuing with the result of one run as the remainder of the next.\<close>

lemma crc_division_append: "crc_division (crc_division r xs) ys = crc_division r (xs @ ys)"
  by (simp add: crc_division_def)

text \<open>A changed byte changes the checksum.\<close>

lemma crc_step_inj: "crc_step b x = crc_step b y \<Longrightarrow> x = y"
proof -
  let ?k = "push_bit 8 (ucast b)"
  assume "crc_step b x = crc_step b y"
  then have "x XOR ?k = y XOR ?k"
    unfolding crc_step_byte crc_byte_def by (rule crc_shifts_inj)
  then have "(x XOR ?k) XOR ?k = (y XOR ?k) XOR ?k" by (rule arg_cong)
  then show "x = y" by (simp add: xor.assoc)
qed

lemma crc_step_byte_inj:
  assumes "crc_step a x = crc_step b x"
  shows "a = b"
proof -
  have "x XOR push_bit 8 (ucast a) = x XOR push_bit 8 (ucast b :: u16)"
    using assms crc_shifts_inj unfolding crc_step_byte crc_byte_def by blast
  then have "x XOR (x XOR push_bit 8 (ucast a)) = x XOR (x XOR push_bit 8 (ucast b :: u16))" by simp
  then have eq: "push_bit 8 (ucast a) = push_bit 8 (ucast b :: u16)"
    by (simp flip: xor.assoc)
  show "a = b"
  proof (rule bit_word_eqI)
    fix n assume n: "n < LENGTH(8)"
    have "bit (push_bit 8 (ucast w :: u16)) (n + 8) = bit w n" for w :: u8
      using n by (simp add: bit_push_bit_iff bit_ucast_iff)
    then show "bit a n = bit b n" using eq by metis
  qed
qed

lemma fold_crc_step_inj: "fold crc_step bs x = fold crc_step bs y \<Longrightarrow> x = y"
  by (induction bs arbitrary: x y) (auto dest: crc_step_inj)

lemma crc_division_detects:
  assumes "crc_division r (xs @ a # ys) = crc_division r (xs @ b # ys)"
  shows "a = b"
proof -
  have "fold crc_step (xs @ a # ys) (NOT r) = fold crc_step (xs @ b # ys) (NOT r)"
    using assms unfolding crc_division_def fold_crc_steps by simp
  then show ?thesis by (auto dest!: fold_crc_step_inj crc_step_byte_inj)
qed

lemma mzip_blank_wf: "mzip_wf mzip_blank"
  by (simp add: mzip_wf_def mzip_blank_def)

section \<open>Which bytes the checksums cover\<close>

lemma mzip_crcs:
  assumes "mzip_wf h"
  shows "n \<le> length buf \<Longrightarrow> mzip_calculate_crc h buf n =
      crc_division 0 (drop 0x38 (mzip_header_bytes LE h) @ take n buf)"
    and "mzip_calculate_hdr_crc h = crc_division 0 (take 0x36 (mzip_header_bytes LE h))"
  using length_mzip_header_bytes [OF assms, of LE]
  by (simp_all add: mzip_calculate_crc_def mzip_calculate_hdr_crc_def MZIP_HDR_SIZE_def
      calculate_crc_division crc_division_append)

text \<open>The header in three runs: up to the header checksum, the checksum, and the rest.\<close>

lemma take_header_54:
  "mzip_wf h \<Longrightarrow> take 0x36 (mzip_header_bytes e (h\<lparr>hdr_crc_header := c\<rparr>)) = take 0x36 (mzip_header_bytes e h)"
  by (simp add: mzip_header_bytes_def mzip_wf_def)

lemma drop_header_56:
  "mzip_wf h \<Longrightarrow> drop 0x38 (mzip_header_bytes e (h\<lparr>hdr_crc_header := c, hdr_crc_code := d\<rparr>)) = drop 0x38 (mzip_header_bytes e h)"
  by (simp add: mzip_header_bytes_def mzip_wf_def)

section \<open>Swapping and writing\<close>

lemma mzip_swap_of:
  "mzip_swap (mzip_header_of e bs) = (mzip_header_of (other e) bs)
     \<lparr>hdr_padding1 := hdr_padding1 (mzip_header_of e bs), hdr_padding2 := hdr_padding2 (mzip_header_of e bs),
      hdr_loader_addr := hdr_loader_addr (mzip_header_of e bs)\<rparr>"
  by (simp add: mzip_swap_def mzip_header_of_def byte_simps)

lemma mzip_write_bytes:
  assumes "mzip_wf h"
  shows "s_bytes (mzip_write h buf footer fp) =
    mzip_header_bytes LE h @ buf @ drop (MZIP_HDR_SIZE + length buf) (s_bytes fp) @ concat footer"
proof -
  have len: "length (mzip_header_bytes LE h) = MZIP_HDR_SIZE" by (rule length_mzip_header_bytes [OF assms])
  let ?f1 = "mzip_write_header h fp"
  let ?f2 = "mzip_write_codeseg buf ?f1"
  have f1: "s_bytes ?f1 = mzip_header_bytes LE h @ drop MZIP_HDR_SIZE (s_bytes fp)"
    using fwrite_inside(1) [of "fseek_set fp 0" "mzip_header_bytes LE h"] len
    by (simp add: mzip_write_header_def)
  have f2: "s_bytes ?f2 = mzip_header_bytes LE h @ buf @ drop (MZIP_HDR_SIZE + length buf) (s_bytes fp)"
    using fwrite_inside(1) [of "fseek_set ?f1 MZIP_HDR_SIZE" buf] f1 len
    by (simp add: mzip_write_codeseg_def add.commute)
  have app: "s_bytes (fold fwrite bss f) = s_bytes f @ concat bss" if "s_pos f = length (s_bytes f)" for bss f
    using that by (induction bss arbitrary: f) (simp_all add: fwrite_append)
  show ?thesis unfolding mzip_write_def mzip_write_footer_def using f2 by (simp add: app)
qed

section \<open>Properties\<close>

text \<open>C29: the table-driven checksum is the bit-by-bit division by \<open>x\<^sup>1\<^sup>6 + x\<^sup>1\<^sup>2 + x\<^sup>5 + 1\<close>, over the
  bytes from \<open>offset\<close> up to (the parameter called \<open>length\<close> is an end), and the remainder
  parameter continues an earlier run.\<close>

theorem calculate_crc_is_division:
  assumes "len \<le> length bs"
  shows "calculate_crc bs off len r = crc_division r (drop off (take len bs)) \<and>
    calculate_crc bs 0 len (crc_division r pre) = crc_division r (pre @ take len bs)"
  using assms by (simp add: calculate_crc_division crc_division_append)

lemma calculate_crc_is_division_witness:
  "calculate_crc [1, 2, 3, 4] 1 3 0 = crc_division 0 [2, 3]"
  using calculate_crc_is_division [of 3 "[1, 2, 3, 4]" 1 0 "[]"] by (simp add: numeral_3_eq_3)

text \<open>C30: the checksum tells any two data apart that differ in one byte.\<close>

theorem crc_detects_changed_byte:
  assumes "length xs + Suc (length ys) = n"
  shows "calculate_crc (xs @ a # ys) 0 n r = calculate_crc (xs @ b # ys) 0 n r \<longleftrightarrow> a = b"
  using assms crc_division_detects [of r xs a ys b] by (auto simp: calculate_crc_division)

lemma crc_detects_changed_byte_witness:
  "calculate_crc [1, 2, 3] 0 3 0 \<noteq> calculate_crc [1, 5, 3] 0 3 0"
  using crc_detects_changed_byte [of "[1]" "[3]" 3 2 0 5] by simp

text \<open>A written image is the header, the code segment and the footers one after the other;
  read back from it the header is the one given.\<close>

theorem mzip_write_layout:
  assumes "mzip_wf h"
  shows "s_bytes (mzip_write h buf footer (stream_of [])) = mzip_header_bytes LE h @ buf @ concat footer \<and>
    mzip_header_of LE (s_bytes (mzip_write h buf footer (stream_of []))) = h"
  using mzip_write_bytes [OF assms] mzip_header_roundtrip [OF assms] by simp

lemma mzip_write_layout_witness:
  "mzip_header_of LE (s_bytes (mzip_write mzip_blank [1, 2] [[3]] (stream_of []))) = mzip_blank"
  by (rule mzip_write_layout [THEN conjunct2]) (rule mzip_blank_wf)

text \<open>Swapping a header gives the header in the other byte order except for the loader
  address, which \<open>mzip_swap\<close> leaves as it was.\<close>

theorem mzip_swap_misses_loader:
  "mzip_swap (mzip_header_of e bs) = (mzip_header_of (other e) bs)
     \<lparr>hdr_padding1 := hdr_padding1 (mzip_header_of e bs), hdr_padding2 := hdr_padding2 (mzip_header_of e bs),
      hdr_loader_addr := hdr_loader_addr (mzip_header_of e bs)\<rparr> \<and>
   hdr_loader_addr (mzip_swap h) = hdr_loader_addr h"
  by (simp add: mzip_swap_of) (simp add: mzip_swap_def)

end
