(* ===== verification/Elf2mzip.thy ===== *)
theory Elf2mzip
  imports Mzip Elf
begin

text \<open>
  The converter \<^verbatim>\<open>elf2mzip/elf2mzip.c\<close>: an ELF file with one loadable segment becomes an MZIP
  image whose code segment is the zipped file part of that segment. \<open>main\<close> is cut at its
  stages; a \<open>return\<close> in the middle is \<open>Inl (Exit w code)\<close>. Where the C program goes on with a
  pointer that is null or was never set, the result is \<open>Undefined\<close>. The headers it reads are
  byte arrays of its stack, with whatever they held before (\<open>elf0\<close>, \<open>ph0\<close>).
\<close>

section \<open>Leaving a tool\<close>

datatype tool_end = Exit world int | Undefined

type_synonym 'a tool = "tool_end + 'a"

definition usage :: "string \<Rightarrow> world \<Rightarrow> world" where
  "usage name =
     print_all [(''Usage: %s [file in] [file out]\<newline>'', [Text name]),
       (CHR 0x09 # ''[file in] is the file to be converted to MZIP format\<newline>'', []),
       (CHR 0x09 # ''[file out] is the name of the output MZIP file\<newline>'', []),
       (''\<newline>Note: the input ELF file needs a single LOADable section and \<newline>'', []),
       (''      must be a 32-bit ELF file.\<newline>'', [])]"

definition give_up :: "string \<Rightarrow> printout \<Rightarrow> world \<Rightarrow> 'a tool" where
  "give_up name msgs w = Inl (Exit (usage name (print_all msgs w)) (-1))"

section \<open>Opening the files\<close>

definition unlink_message :: "errno \<Rightarrow> string \<Rightarrow> string \<times> printed_arg list" where
  "unlink_message e out =
     (case e of
        EACCES \<Rightarrow> (''Error: insufficient privileges to access the specified output file %s. Aborting.\<newline>'', [Text out])
      | EBUSY \<Rightarrow> (''Error: the specified file %s is currently in use.\<newline>'', [Text out])
      | EPERM \<Rightarrow> (''Error: the specified file %s is on a read-only filesystem.\<newline>'', [Text out])
      | Other_Error \<Rightarrow> (''An unspecified error occurred. Aborting.\<newline>'', []))"

definition remove_old :: "string \<Rightarrow> string \<Rightarrow> world \<Rightarrow> world tool" where
  "remove_old name out w =
     (if disk w out \<noteq> None then
        (case unlink_error w out of
           Some e \<Rightarrow> give_up name [unlink_message e out] w
         | None \<Rightarrow> Inr (w\<lparr>disk := (disk w)(out := None)\<rparr>))
      else Inr w)"

text \<open>With one argument only, \<open>argv[2]\<close> is the null pointer, and it is used as a name.\<close>

definition open_files :: "string list \<Rightarrow> world \<Rightarrow> (stream \<times> world) tool" where
  "open_files argv w =
     (if length argv < 2 then give_up (argv ! 0) [(''Error: no file arguments specified.\<newline>'', [])] w
      else case disk w (argv ! 1) of
        None \<Rightarrow> give_up (argv ! 0) [(''Error: unable to open specified input file %s.\<newline>'', [Text (argv ! 1)])] w
      | Some bs \<Rightarrow>
          if length argv < 3 then Inl Undefined
          else bindE (remove_old (argv ! 0) (argv ! 2) w) (\<lambda>w.
            if \<not> can_create w (argv ! 2) then
              give_up (argv ! 0) [(''Error: unable to open or create output file %s.\<newline>'', [Text (argv ! 2)])] w
            else Inr (stream_of bs, w\<lparr>disk := (disk w)(argv ! 2 := Some [])\<rparr>)))"

section \<open>The headers\<close>

definition not_elf :: "u8 list \<Rightarrow> bool" where
  "not_elf ident \<longleftrightarrow> ident ! 0 \<noteq> ELF_MAGIC ! 0 \<or> ident ! 1 \<noteq> ELF_MAGIC ! 1 \<or>
     ident ! 2 \<noteq> ELF_MAGIC ! 2 \<or> ident ! 3 \<noteq> ELF_MAGIC ! 3"

definition swap32_if :: "bool \<Rightarrow> u32 \<Rightarrow> u32" where
  "swap32_if s x = (if s then SWAP_32 x else x)"

definition swap16_if :: "bool \<Rightarrow> u16 \<Rightarrow> u16" where
  "swap16_if s x = (if s then SWAP_16 x else x)"

definition read_elf_header ::
    "string \<Rightarrow> u8 list \<Rightarrow> stream \<Rightarrow> world \<Rightarrow> (elf32_header \<times> bool \<times> stream \<times> world) tool" where
  "read_elf_header name elf0 fp w =
     (let (bs, fp1) = fread elf0 (fseek_set fp 0);
          elf_hdr = elf32_header_of LE bs;
          ident = eh_ident elf_hdr
      in if not_elf ident then
           give_up name [(''The specified input file is not an ELF file. Aborting.\<newline>'', [])] w
         else if ident ! ELF_INDEX_CLASS \<noteq> ELF_CLASS_32 then
           give_up name [(''The specified input file is a 64-bit ELF file. MZIP does not support 64-bit files for input.'', [])] w
         else let endian_swap = (ident ! ELF_INDEX_DATA = ELF_DATA_MSB)
              in Inr (elf_hdr, endian_swap, fp1,
                print_all [(''DEBUG: endian_swap = %d\<newline>'', [Num (of_bool endian_swap)]),
                  (''elf_hdr.phnum = %08x\<newline>'', [Num (ucast (eh_phnum elf_hdr))]),
                  (''elf_hdr.phoff = %08x\<newline>'', [Num (eh_phoff elf_hdr)])] w))"

text \<open>The loop over the program headers: how many are loadable, and where the last of them is. A
  header that cannot be read is counted as the one before it.\<close>

primrec scan_headers :: "bool \<Rightarrow> nat \<Rightarrow> u8 list \<Rightarrow> stream \<Rightarrow> nat \<Rightarrow> u32 \<Rightarrow> u8 list \<times> stream \<times> nat \<times> u32" where
  "scan_headers s 0 phdr fp count loc = (phdr, fp, count, loc)"
| "scan_headers s (Suc n) phdr fp count loc =
     (let (phdr, fp) = fread phdr fp;
          ty = swap32_if s (ph_type (elf32_phdr_of LE phdr))
      in if ty = ELF_PT_LOAD
         then scan_headers s n phdr fp (count + 1) (of_nat (ftell fp) - of_nat elf32_phdr_size)
         else scan_headers s n phdr fp count loc)"

definition find_segment ::
    "string \<Rightarrow> elf32_header \<Rightarrow> bool \<Rightarrow> u8 list \<Rightarrow> stream \<Rightarrow> world \<Rightarrow> (elf32_phdr \<times> stream \<times> world) tool" where
  "find_segment name elf_hdr s ph0 fp w =
     (let ph_count = ucast (swap16_if s (eh_phnum elf_hdr)) :: u32;
          ph_offset = swap32_if s (eh_phoff elf_hdr);
          w = print ''DEBUG: segments: 0x%08x; segments offset: 0x%08x\<newline>'' [Num ph_count, Num ph_offset] w;
          (phdr, fp, count, loc) = scan_headers s (unat ph_count) ph0 (fseek_set fp (unat ph_offset)) 0 0
      in if count < 1 then
           give_up name [(''No loadable ELF sections were found in the input file.\<newline>Are you sure this is a loadable image?\<newline>'', [])] w
         else if count > 1 then
           give_up name [(''Too many loadable ELF sections were found in the input file. Found %d sections.\<newline>'', [Num (of_nat count)])] w
         else let (phdr, fp) = fread phdr (fseek_set fp (unat loc))
              in Inr (elf32_phdr_of LE phdr, fp, w))"

section \<open>The image\<close>

definition read_image :: "bool \<Rightarrow> elf32_phdr \<Rightarrow> stream \<Rightarrow> world \<Rightarrow> (u8 list \<times> world) tool" where
  "read_image s phdr fp w =
     (let im_offset = swap32_if s (ph_offset phdr);
          im_file_size = swap32_if s (ph_filesz phdr)
      in case heap w (unat im_file_size) of
           None \<Rightarrow> Inl Undefined
         | Some junk \<Rightarrow>
             let w = print_all [(''DEBUG: allocated %08x byte image\<newline>'', [Num im_file_size]),
                       (''DEBUG: offset in file: %08x\<newline>'', [Num im_offset])] w;
                 (img, _) = fread junk (fseek_set fp (unat im_offset))
             in Inr (img, w))"

text \<open>The header but for the checksums.\<close>

definition fill_header :: "bool \<Rightarrow> elf32_header \<Rightarrow> elf32_phdr \<Rightarrow> u32 \<Rightarrow> mzip_header" where
  "fill_header s elf_hdr phdr seg_size = mzip_blank\<lparr>
     hdr_flags1 := swap32_if s 1, hdr_flags2 := swap32_if s 1, hdr_version := swap32_if s 1,
     hdr_entrypt := eh_entry elf_hdr, hdr_header_size := swap32_if s 0x70,
     hdr_loader_addr := ph_paddr phdr, hdr_code_unpacked_size := ph_filesz phdr,
     hdr_memory_image_size := ph_memsz phdr, hdr_code_packed_size := swap32_if s seg_size\<rparr>"

definition seal_header :: "bool \<Rightarrow> u8 list \<Rightarrow> u32 \<Rightarrow> mzip_header \<Rightarrow> mzip_header \<times> u16 \<times> u16" where
  "seal_header s seg seg_size h =
     (let body_crc = mzip_calculate_crc h seg (unat seg_size);
          h1 = h\<lparr>hdr_crc_code := swap16_if s body_crc\<rparr>;
          h2 = h1\<lparr>hdr_crc_header := swap16_if s (hdr_crc_header h1)\<rparr>;
          hdr_crc = mzip_calculate_hdr_crc h2
      in (h2\<lparr>hdr_crc_header := swap16_if s hdr_crc\<rparr>, hdr_crc, body_crc))"

text \<open>The result of \<open>mzip_codeseg_build\<close> is not looked at: after a failure \<open>mzip_code_seg\<close> is
  used without ever having been set.\<close>

definition write_image ::
    "zip_env \<Rightarrow> bool \<Rightarrow> string \<Rightarrow> elf32_header \<Rightarrow> elf32_phdr \<Rightarrow> u8 list \<Rightarrow> world \<Rightarrow> tool_end" where
  "write_image Z s out elf_hdr phdr img w =
     (let w = print_all [(''DEBUG: phdr.paddr = %08x\<newline>'', [Num (ph_paddr phdr)]),
                (''DEBUG: phdr.filesz = %08x\<newline>'', [Num (ph_filesz phdr)])] w
      in case mzip_codeseg_build Z img of
           None \<Rightarrow> Undefined
         | Some (seg, seg_size) \<Rightarrow>
             let (h, hdr_crc, body_crc) = seal_header s seg seg_size (fill_header s elf_hdr phdr seg_size);
                 w = print ''DEBUG: CRCs: header: %04x file: %04x\<newline>'' [Num (ucast hdr_crc), Num (ucast body_crc)] w;
                 w = mzip_print_header h w;
                 fp_out = mzip_write_codeseg (take (unat seg_size) seg) (mzip_write_header h (stream_of []))
             in Exit (store_file out fp_out w) 0)"

definition elf2mzip_main :: "zip_env \<Rightarrow> u8 list \<Rightarrow> u8 list \<Rightarrow> string list \<Rightarrow> world \<Rightarrow> tool_end" where
  "elf2mzip_main Z elf0 ph0 argv w =
     (case
        bindE (open_files argv (print ''elf2mzip version 0.1 - convert ELF files to MZIP files.\<newline>'' [] w)) (\<lambda>(fp, w).
        bindE (read_elf_header (argv ! 0) elf0 fp w) (\<lambda>(elf_hdr, s, fp, w).
        bindE (find_segment (argv ! 0) elf_hdr s ph0 fp w) (\<lambda>(phdr, fp, w).
        bindE (read_image s phdr fp w) (\<lambda>(img, w).
        Inr (write_image Z s (argv ! 2) elf_hdr phdr img w)))))
      of Inl e \<Rightarrow> e | Inr e \<Rightarrow> e)"

section \<open>The checksums of a sealed header\<close>

definition order_of :: "bool \<Rightarrow> endian" where
  "order_of s = (if s then BE else LE)"

lemma swap_if_swap [simp]: "swap32_if s (swap32_if s x) = x" "swap16_if s (swap16_if s y) = y"
  by (simp_all add: swap32_if_def swap16_if_def byte_simps)

text \<open>Reading in the file's order is reading in the host's and swapping.\<close>

lemma u32_of_order: "u32_of (order_of s) bs = swap32_if s (u32_of LE bs)"
  by (simp add: order_of_def swap32_if_def SWAP_32_load del: u32_of.simps)

lemma u16_of_order: "u16_of (order_of s) bs = swap16_if s (u16_of LE bs)"
  by (simp add: order_of_def swap16_if_def SWAP_16_load del: u16_of.simps)

lemma fill_header_wf: "mzip_wf (fill_header s eh ph n)"
  using mzip_blank_wf by (simp add: fill_header_def mzip_wf_def)

lemma seal_header_eq:
  assumes "mzip_wf h" and "length seg < 2 ^ 32"
  shows "\<exists>h' c d. seal_header s seg (of_nat (length seg)) h = (h', c, d) \<and>
    h' = h\<lparr>hdr_crc_code := swap16_if s d, hdr_crc_header := swap16_if s c\<rparr> \<and>
    c = crc_division 0 (take 0x36 (mzip_header_bytes LE h')) \<and>
    d = crc_division 0 (drop 0x38 (mzip_header_bytes LE h') @ seg)"
proof -
  define d where "d = mzip_calculate_crc h seg (length seg)"
  define h2 where "h2 = h\<lparr>hdr_crc_code := swap16_if s d, hdr_crc_header := swap16_if s (hdr_crc_header h)\<rparr>"
  define c where "c = mzip_calculate_hdr_crc h2"
  define h' where "h' = h2\<lparr>hdr_crc_header := swap16_if s c\<rparr>"
  have wf: "mzip_wf h2" using assms(1) by (simp add: h2_def mzip_wf_def)
  have "seal_header s seg (of_nat (length seg)) h = (h', c, d)"
    using assms(2) by (simp add: seal_header_def Let_def d_def h2_def c_def h'_def)
  moreover have h': "h' = h\<lparr>hdr_crc_code := swap16_if s d, hdr_crc_header := swap16_if s c\<rparr>"
    by (simp add: h'_def h2_def)
  moreover have "c = crc_division 0 (take 0x36 (mzip_header_bytes LE h'))"
    unfolding h'_def take_header_54 [OF wf] c_def by (rule mzip_crcs(2) [OF wf])
  moreover have "h' = h\<lparr>hdr_crc_header := swap16_if s c, hdr_crc_code := swap16_if s d\<rparr>"
    by (simp add: h')
  then have "d = crc_division 0 (drop 0x38 (mzip_header_bytes LE h') @ seg)"
    using drop_header_56 [OF assms(1)] mzip_crcs(1) [OF assms(1), of "length seg" seg] by (simp add: d_def)
  ultimately show ?thesis by blast
qed

text \<open>The same seen from the image that is written.\<close>

lemma sealed_image:
  assumes "seal_header s seg (of_nat (length seg)) (fill_header s eh ph n) = (h, c, d)" and "length seg < 2 ^ 32"
  defines "bs \<equiv> mzip_header_bytes LE h @ seg"
  shows "hdr_crc_header (mzip_header_of (order_of s) bs) = crc_division 0 (take 0x36 bs)"
    and "hdr_crc_code (mzip_header_of (order_of s) bs) = crc_division 0 (drop 0x38 bs)"
    and "hdr_entrypt (mzip_header_of (order_of s) bs) = swap32_if s (eh_entry eh)"
    and "hdr_loader_addr (mzip_header_of (order_of s) bs) = swap32_if s (ph_paddr ph)"
    and "hdr_memory_image_size (mzip_header_of (order_of s) bs) = swap32_if s (ph_memsz ph)"
    and "hdr_code_packed_size (mzip_header_of (order_of s) bs) = n"
    and "mzip_wf h"
proof -
  have wf0: "mzip_wf (fill_header s eh ph n)" by (rule fill_header_wf)
  obtain h' c' d' where res: "seal_header s seg (of_nat (length seg)) (fill_header s eh ph n) = (h', c', d')"
    and h': "h' = (fill_header s eh ph n)\<lparr>hdr_crc_code := swap16_if s d', hdr_crc_header := swap16_if s c'\<rparr>"
    and c': "c' = crc_division 0 (take 0x36 (mzip_header_bytes LE h'))"
    and d': "d' = crc_division 0 (drop 0x38 (mzip_header_bytes LE h') @ seg)"
    using seal_header_eq [OF wf0 assms(2), of s] by blast
  have eq: "h' = h" "c' = c" "d' = d" using assms(1) unfolding res by simp_all
  note hh = h' [unfolded eq] and cc = c' [unfolded eq] and dd = d' [unfolded eq]
  have wf': "mzip_wf ((fill_header s eh ph n)\<lparr>hdr_crc_code := u, hdr_crc_header := v\<rparr>)" for u v
    using wf0 by (simp add: mzip_wf_def)
  show wf: "mzip_wf h" by (subst hh) (rule wf')
  have len: "length (mzip_header_bytes LE h) = 112"
    using length_mzip_header_bytes [OF wf] by (simp add: MZIP_HDR_SIZE_def)
  have le: "mzip_header_of LE bs = h" unfolding bs_def by (rule mzip_header_roundtrip [OF wf])
  have in_file: "hdr_crc_header (mzip_header_of (order_of s) bs) = swap16_if s (hdr_crc_header (mzip_header_of LE bs))"
    "hdr_crc_code (mzip_header_of (order_of s) bs) = swap16_if s (hdr_crc_code (mzip_header_of LE bs))"
    "hdr_entrypt (mzip_header_of (order_of s) bs) = swap32_if s (hdr_entrypt (mzip_header_of LE bs))"
    "hdr_loader_addr (mzip_header_of (order_of s) bs) = swap32_if s (hdr_loader_addr (mzip_header_of LE bs))"
    "hdr_memory_image_size (mzip_header_of (order_of s) bs) = swap32_if s (hdr_memory_image_size (mzip_header_of LE bs))"
    "hdr_code_packed_size (mzip_header_of (order_of s) bs) = swap32_if s (hdr_code_packed_size (mzip_header_of LE bs))"
    by (simp_all only: mzip_header_of_def mzip_header.select_convs u32_of_order u16_of_order)
  note field = in_file [unfolded le]
  have fields: "hdr_crc_header h = swap16_if s c" "hdr_crc_code h = swap16_if s d"
    "hdr_entrypt h = eh_entry eh" "hdr_loader_addr h = ph_paddr ph" "hdr_memory_image_size h = ph_memsz ph"
    "hdr_code_packed_size h = swap32_if s n"
    by (subst hh, simp add: fill_header_def)+
  show "hdr_crc_header (mzip_header_of (order_of s) bs) = crc_division 0 (take 0x36 bs)"
    unfolding field fields(1) using cc len by (simp add: bs_def)
  show "hdr_crc_code (mzip_header_of (order_of s) bs) = crc_division 0 (drop 0x38 bs)"
    unfolding field fields(2) using dd len by (simp add: bs_def)
  show "hdr_entrypt (mzip_header_of (order_of s) bs) = swap32_if s (eh_entry eh)"
    "hdr_loader_addr (mzip_header_of (order_of s) bs) = swap32_if s (ph_paddr ph)"
    "hdr_memory_image_size (mzip_header_of (order_of s) bs) = swap32_if s (ph_memsz ph)"
    "hdr_code_packed_size (mzip_header_of (order_of s) bs) = n"
    by (simp_all add: field fields)
qed


section \<open>What a successful run writes\<close>

lemma codeseg_built:
  "mzip_codeseg_build Z img = Some (seg, k) \<Longrightarrow> zip_file Z img = Some seg \<and> k = of_nat (length seg)"
  by (auto simp: mzip_codeseg_build_def split: if_splits option.splits)

lemma write_image_ok:
  assumes run: "write_image Z s out eh ph img w = Exit w' 0" and small: "\<And>seg. zip_file Z img = Some seg \<Longrightarrow> length seg < 2 ^ 32"
  shows "\<exists>seg h c d. zip_file Z img = Some seg \<and>
    seal_header s seg (of_nat (length seg)) (fill_header s eh ph (of_nat (length seg))) = (h, c, d) \<and>
    disk w' out = Some (mzip_header_bytes LE h @ seg)"
proof -
  obtain seg k where b: "mzip_codeseg_build Z img = Some (seg, k)"
    using run by (auto simp: write_image_def split: option.splits)
  note z = codeseg_built [OF b]
  obtain h c d where s: "seal_header s seg k (fill_header s eh ph k) = (h, c, d)" by (metis prod_cases3)
  have len: "length seg < 2 ^ 32" using small z by blast
  then have n: "take (unat k) seg = seg" using z by simp
  have wf: "mzip_wf h" by (rule sealed_image(7)) (use s z len in simp_all)
  have "s_bytes (mzip_write_codeseg seg (mzip_write_header h (stream_of []))) = s_bytes (mzip_write h seg [] (stream_of []))"
    by (simp add: mzip_write_def mzip_write_footer_def)
  also have "\<dots> = mzip_header_bytes LE h @ seg" using mzip_write_bytes [OF wf] by simp
  finally have bytes: "s_bytes (mzip_write_codeseg seg (mzip_write_header h (stream_of []))) = mzip_header_bytes LE h @ seg" .
  have "disk w' out = Some (mzip_header_bytes LE h @ seg)"
    using run unfolding write_image_def Let_def b option.case prod.case s n
    by (auto simp: store_file_def bytes)
  then show ?thesis using z s by blast
qed

text \<open>The stages of a run that exits with 0.\<close>

lemma give_up_end: "give_up name msgs w \<noteq> Inr x" "give_up name msgs w \<noteq> Inl (Exit w' 0)"
  by (simp_all add: give_up_def)

lemma remove_old_end: "remove_old name out w \<noteq> Inl (Exit w' 0)"
  by (simp add: remove_old_def give_up_end split: option.splits)

lemma open_files_end:
  "open_files argv w \<noteq> Inl (Exit w' 0)"
  "open_files argv w = Inr (fp, w1) \<Longrightarrow> 3 \<le> length argv \<and> (\<exists>bs. disk w (argv ! 1) = Some bs \<and> fp = stream_of bs)"
  by (auto simp: open_files_def give_up_end bindE_Inl_iff bindE_Inr_iff remove_old_end split: if_splits option.splits)

lemma read_elf_header_end:
  "read_elf_header name elf0 fp w \<noteq> Inl (Exit w' 0)"
  "read_elf_header name elf0 fp w = Inr (eh, s, fp1, w1) \<Longrightarrow>
     eh = elf32_header_of LE (fst (fread elf0 (fseek_set fp 0))) \<and> s = (eh_ident eh ! ELF_INDEX_DATA = ELF_DATA_MSB) \<and>
     \<not> not_elf (eh_ident eh) \<and> eh_ident eh ! ELF_INDEX_CLASS = ELF_CLASS_32"
  by (auto simp: read_elf_header_def Let_def give_up_end case_prod_unfold split: if_splits)

lemma find_segment_end: "find_segment name eh s ph0 fp w \<noteq> Inl (Exit w' 0)"
  by (simp add: find_segment_def Let_def give_up_end case_prod_unfold)

lemma read_image_end: "read_image s phdr fp w \<noteq> Inl (Exit w' 0)"
  by (simp add: read_image_def Let_def split: option.splits prod.splits)

lemma elf2mzip_main_ok:
  assumes "elf2mzip_main Z elf0 ph0 argv w = Exit w' 0"
  shows "\<exists>bs fp eh s ph img w1 w2 w3. disk w (argv ! 1) = Some bs \<and> 3 \<le> length argv \<and>
    read_elf_header (argv ! 0) elf0 (stream_of bs) w1 = Inr (eh, s, fp, w2) \<and>
    write_image Z s (argv ! 2) eh ph img w3 = Exit w' 0"
proof -
  let ?run = "bindE (open_files argv (print ''elf2mzip version 0.1 - convert ELF files to MZIP files.\<newline>'' [] w)) (\<lambda>(fp, w).
    bindE (read_elf_header (argv ! 0) elf0 fp w) (\<lambda>(elf_hdr, s, fp, w).
    bindE (find_segment (argv ! 0) elf_hdr s ph0 fp w) (\<lambda>(phdr, fp, w).
    bindE (read_image s phdr fp w) (\<lambda>(img, w).
    Inr (write_image Z s (argv ! 2) elf_hdr phdr img w)))))"
  have "?run \<noteq> Inl (Exit w' 0)"
    by (auto simp: bindE_Inl_iff open_files_end read_elf_header_end find_segment_end read_image_end split: prod.splits)
  then have "?run = Inr (Exit w' 0)"
    using assms unfolding elf2mzip_main_def by (auto split: sum.splits)
  then show ?thesis
    by (auto simp: bindE_Inr_iff split: prod.splits dest!: open_files_end(2)) blast
qed


section \<open>What a good file gives\<close>

text \<open>The places of the program headers of a file, and those of the loadable ones.\<close>

definition header_places :: "endian \<Rightarrow> u8 list \<Rightarrow> nat list" where
  "header_places e bs =
     (let h = elf32_header_of e bs in map (\<lambda>i. unat (eh_phoff h) + 32 * i) [0..<unat (eh_phnum h)])"

definition loadable_at :: "endian \<Rightarrow> u8 list \<Rightarrow> nat \<Rightarrow> bool" where
  "loadable_at e bs k \<longleftrightarrow> ph_type (elf32_phdr_of e (drop k bs)) = ELF_PT_LOAD"

lemma ph_type_order: "ph_type (elf32_phdr_of (order_of s) bs) = swap32_if s (ph_type (elf32_phdr_of LE bs))"
  by (simp only: elf32_phdr_of_def elf32_phdr.select_convs u32_of_order)

lemma scan_headers_count:
  "s_pos fp + 32 * n \<le> length (s_bytes fp) \<Longrightarrow> length phdr = 32 \<Longrightarrow> length (s_bytes fp) < 2 ^ 32 \<Longrightarrow>
   (\<exists>ph fp'. scan_headers s n phdr fp c l = (ph, fp', c + length is,
     if is = [] then l else of_nat (last is)) \<and> s_bytes fp' = s_bytes fp \<and> length ph = 32)"
  if "is = filter (loadable_at (order_of s) (s_bytes fp)) (map (\<lambda>i. s_pos fp + 32 * i) [0..<n])" for "is"
  using that
proof (induction n arbitrary: phdr fp c l "is")
  case (Suc n)
  let ?bs = "s_bytes fp" and ?fp = "fp\<lparr>s_pos := s_pos fp + 32\<rparr>"
  let ?ph = "take 32 (drop (s_pos fp) ?bs)"
  let ?P = "loadable_at (order_of s) ?bs" and ?pl = "\<lambda>n a. map (\<lambda>i. a + 32 * i) [0..<n]"
  have rd: "fread phdr fp = (?ph, ?fp)" using Suc.prems(1,2) by (simp add: fread_whole)
  have "ph_type (elf32_phdr_of LE ?ph) = ph_type (elf32_phdr_of LE (drop (s_pos fp) ?bs))"
    using elf32_phdr_of_take [of "drop (s_pos fp) ?bs" LE] Suc.prems(1) by simp
  then have ty: "swap32_if s (ph_type (elf32_phdr_of LE ?ph)) = ELF_PT_LOAD \<longleftrightarrow> ?P (s_pos fp)"
    by (simp add: loadable_at_def ph_type_order)
  have places: "?pl (Suc n) a = a # ?pl n (a + 32)" for a :: nat
  proof -
    have "[0..<Suc n] = 0 # map Suc [0..<n]" by (simp add: upt_conv_Cons map_Suc_upt del: upt_Suc)
    then show ?thesis by simp
  qed
  define js where "js = filter ?P (?pl n (s_pos fp + 32))"
  have "is": "is = (if ?P (s_pos fp) then s_pos fp # js else js)"
    using Suc.prems(4) unfolding places js_def by simp
  have loc: "of_nat (ftell ?fp) - of_nat elf32_phdr_size = (of_nat (s_pos fp) :: u32)"
    by (simp add: ftell_def elf32_phdr_size_def)
  have IH: "\<exists>ph fp'. scan_headers s n ?ph ?fp c' l' = (ph, fp', c' + length js, if js = [] then l' else of_nat (last js)) \<and>
      s_bytes fp' = ?bs \<and> length ph = 32" for c' l'
    using Suc.IH [of ?fp ?ph js c' l'] Suc.prems js_def by simp
  show ?case
    using IH [of "c + 1" "of_nat (s_pos fp)"] IH [of c l] unfolding scan_headers.simps rd Let_def prod.case ty loc "is"
    by auto
qed simp


lemma print_all_simps [simp]:
  "disk (print_all ls w) = disk w" "unlink_error (print_all ls w) = unlink_error w"
  "can_create (print_all ls w) = can_create w" "heap (print_all ls w) = heap w"
  by (induction ls arbitrary: w) (auto simp: print_all_def)

lemma header_order:
  "eh_phnum (elf32_header_of (order_of s) bs) = swap16_if s (eh_phnum (elf32_header_of LE bs))"
  "eh_phoff (elf32_header_of (order_of s) bs) = swap32_if s (eh_phoff (elf32_header_of LE bs))"
  "eh_entry (elf32_header_of (order_of s) bs) = swap32_if s (eh_entry (elf32_header_of LE bs))"
  by (simp_all only: elf32_header_of_def elf32_header.select_convs u32_of_order u16_of_order)

lemma phdr_order:
  "ph_offset (elf32_phdr_of (order_of s) bs) = swap32_if s (ph_offset (elf32_phdr_of LE bs))"
  "ph_paddr (elf32_phdr_of (order_of s) bs) = swap32_if s (ph_paddr (elf32_phdr_of LE bs))"
  "ph_filesz (elf32_phdr_of (order_of s) bs) = swap32_if s (ph_filesz (elf32_phdr_of LE bs))"
  "ph_memsz (elf32_phdr_of (order_of s) bs) = swap32_if s (ph_memsz (elf32_phdr_of LE bs))"
  by (simp_all only: elf32_phdr_of_def elf32_phdr.select_convs u32_of_order)

text \<open>A file the converter can use: 32 bits, with one loadable segment, everything inside the file.\<close>

definition convertible :: "u8 list \<Rightarrow> nat \<Rightarrow> bool" where
  "convertible bs k \<longleftrightarrow>
     (let e = order_of (bs ! 5 = ELF_DATA_MSB); h = elf32_header_of e bs; ph = elf32_phdr_of e (drop k bs)
      in 52 \<le> length bs \<and> length bs < 2 ^ 32 \<and> take 4 bs = ELF_MAGIC \<and> bs ! 4 = ELF_CLASS_32 \<and>
         unat (eh_phoff h) + 32 * unat (eh_phnum h) \<le> length bs \<and>
         filter (loadable_at e bs) (header_places e bs) = [k] \<and>
         unat (ph_offset ph) + unat (ph_filesz ph) \<le> length bs)"

lemma read_elf_header_good:
  assumes "52 \<le> length bs" and "take 4 bs = ELF_MAGIC" and "bs ! 4 = ELF_CLASS_32" and "length elf0 = 52"
  shows "\<exists>fp w'. read_elf_header name elf0 (stream_of bs) w =
      Inr (elf32_header_of LE bs, bs ! 5 = ELF_DATA_MSB, fp, w') \<and> s_bytes fp = bs \<and> heap w' = heap w"
proof -
  have rd: "fread elf0 (fseek_set (stream_of bs) 0) = (take 52 bs, (stream_of bs)\<lparr>s_pos := 52\<rparr>)"
    using fread_whole [of "fseek_set (stream_of bs) 0" elf0] assms(1,4) by (simp add: fseek_set_def)
  define ident where "ident = eh_ident (elf32_header_of LE bs)"
  have nth: "ident ! i = bs ! i" if "i < 16" for i
    using that assms(1) by (simp add: ident_def elf32_header_of_def)
  have "ident ! i = ELF_MAGIC ! i" if "i < 4" for i
    using that nth nth_take [of i 4 bs] by (simp add: assms(2))
  then have magic: "\<not> not_elf ident" by (simp add: not_elf_def)
  show ?thesis
    unfolding read_elf_header_def rd Let_def prod.case elf32_header_of_take [OF assms(1)] ident_def [symmetric]
    using magic nth assms(3) by (simp add: ELF_INDEX_CLASS_def ELF_INDEX_DATA_def)
qed

lemma find_segment_good:
  fixes s :: bool
  assumes bytes: "s_bytes fp = bs" "length bs < 2 ^ 32" and ph0: "length ph0 = 32"
    and tab: "unat (eh_phoff (elf32_header_of (order_of s) bs)) + 32 * unat (eh_phnum (elf32_header_of (order_of s) bs)) \<le> length bs"
    and one: "filter (loadable_at (order_of s) bs) (header_places (order_of s) bs) = [k]"
  shows "\<exists>fp' w'. find_segment name (elf32_header_of LE bs) s ph0 fp w = Inr (elf32_phdr_of LE (drop k bs), fp', w') \<and>
    s_bytes fp' = bs \<and> heap w' = heap w"
proof -
  let ?h = "elf32_header_of (order_of s) bs" and ?fp = "fseek_set fp (unat (eh_phoff (elf32_header_of (order_of s) bs)))"
  have "[k] = filter (loadable_at (order_of s) (s_bytes ?fp)) (map (\<lambda>i. s_pos ?fp + 32 * i) [0..<unat (eh_phnum ?h)])"
    using one bytes(1) by (simp add: header_places_def Let_def)
  from scan_headers_count [OF this, of ph0 0 0] obtain ph fp1 where
    scan: "scan_headers s (unat (eh_phnum ?h)) ph0 ?fp 0 0 = (ph, fp1, 1, of_nat k)"
    and fp1: "s_bytes fp1 = bs" "length ph = 32"
    using tab bytes ph0 by auto
  have "k \<in> set (filter (loadable_at (order_of s) bs) (header_places (order_of s) bs))" by (simp add: one)
  then have "k \<in> set (header_places (order_of s) bs)" by simp
  then have k: "k + 32 \<le> length bs" using tab by (auto simp: header_places_def Let_def)
  have "fread ph (fseek_set fp1 k) = (take 32 (drop k bs), fp1\<lparr>s_pos := k + 32\<rparr>)"
    using fread_whole [of "fseek_set fp1 k" ph] fp1 k by (simp add: fseek_set_def)
  moreover have "unat (of_nat k :: u32) = k" using k bytes(2) by simp
  moreover have "elf32_phdr_of LE (take 32 (drop k bs)) = elf32_phdr_of LE (drop k bs)"
    using k by (intro elf32_phdr_of_take) simp
  moreover have "unat (ucast (eh_phnum ?h) :: u32) = unat (eh_phnum ?h)"
  proof -
    have "unat (eh_phnum ?h) < 2 ^ LENGTH(16)" by (rule unsigned_less)
    then show ?thesis by (simp add: unsigned_ucast_eq take_bit_nat_eq_self)
  qed
  ultimately show ?thesis
    using fp1 unfolding find_segment_def Let_def header_order [symmetric]
    by (simp add: scan)
qed

lemma read_image_good:
  fixes s :: bool and bs :: "u8 list" and k :: nat
  defines "ph \<equiv> elf32_phdr_of (order_of s) (drop k bs)"
  assumes "s_bytes fp = bs" and "unat (ph_offset ph) + unat (ph_filesz ph) \<le> length bs"
    and "heap w (unat (ph_filesz ph)) = Some junk" "length junk = unat (ph_filesz ph)"
  shows "\<exists>w'. read_image s (elf32_phdr_of LE (drop k bs)) fp w =
    Inr (take (unat (ph_filesz ph)) (drop (unat (ph_offset ph)) bs), w') \<and> heap w' = heap w"
proof -
  have "fread junk (fseek_set fp (unat (ph_offset ph))) =
      (take (unat (ph_filesz ph)) (drop (unat (ph_offset ph)) bs), fp\<lparr>s_pos := unat (ph_offset ph) + unat (ph_filesz ph)\<rparr>)"
    using fread_whole [of "fseek_set fp (unat (ph_offset ph))" junk] assms by (simp add: fseek_set_def)
  then show ?thesis
    using assms(4) by (simp add: read_image_def Let_def phdr_order [of s, symmetric] flip: ph_def)
qed

text \<open>What a reader of an image finds in it: the two checksums fit the bytes they cover.\<close>

definition image_verifies :: "endian \<Rightarrow> u8 list \<Rightarrow> bool" where
  "image_verifies e out \<longleftrightarrow>
     hdr_crc_header (mzip_header_of e out) = crc_division 0 (take 0x36 out) \<and>
     hdr_crc_code (mzip_header_of e out) = crc_division 0 (drop 0x38 out)"

text \<open>The fields that tell the machine where to put the image and where to start.\<close>

definition image_places :: "endian \<Rightarrow> u8 list \<Rightarrow> u32 \<Rightarrow> u32 \<Rightarrow> u32 \<Rightarrow> bool" where
  "image_places e out entry loader memsz \<longleftrightarrow>
     hdr_entrypt (mzip_header_of e out) = entry \<and> hdr_loader_addr (mzip_header_of e out) = loader \<and>
     hdr_memory_image_size (mzip_header_of e out) = memsz"

lemma sealed_verifies:
  assumes "seal_header s seg (of_nat (length seg)) (fill_header s eh ph n) = (h, c, d)" and "length seg < 2 ^ 32"
  shows "image_verifies (order_of s) (mzip_header_bytes LE h @ seg)"
    and "image_places (order_of s) (mzip_header_bytes LE h @ seg) (swap32_if s (eh_entry eh)) (swap32_if s (ph_paddr ph))
      (swap32_if s (ph_memsz ph))"
  using sealed_image [OF assms] by (simp_all add: image_verifies_def image_places_def)

lemma open_files_good:
  assumes "disk w src = Some bs" and "disk w out = None \<or> unlink_error w out = None" and "can_create w out"
  shows "\<exists>w'. open_files [name, src, out] w = Inr (stream_of bs, w') \<and> heap w' = heap w"
proof -
  obtain w1 where "remove_old name out w = Inr w1" "can_create w1 = can_create w" "heap w1 = heap w"
    using assms(2) by (cases "disk w out") (auto simp: remove_old_def)
  then show ?thesis using assms(1,3) by (simp add: open_files_def)
qed

lemma write_image_good:
  assumes "mzip_codeseg_build Z img = Some (seg, n)" and "length seg < 2 ^ 32"
  shows "\<exists>w' out. write_image Z s name eh ph img w = Exit w' 0 \<and> disk w' name = Some out \<and> drop MZIP_HDR_SIZE out = seg \<and>
    image_verifies (order_of s) out \<and>
    image_places (order_of s) out (swap32_if s (eh_entry eh)) (swap32_if s (ph_paddr ph)) (swap32_if s (ph_memsz ph))"
proof -
  have zip: "zip_file Z img = Some seg" and n: "n = of_nat (length seg)"
    using codeseg_built [OF assms(1)] by blast+
  obtain w' where run: "write_image Z s name eh ph img w = Exit w' 0"
    unfolding write_image_def Let_def assms(1) option.case prod.case by (simp add: case_prod_unfold)
  then obtain h c d where res: "seal_header s seg (of_nat (length seg)) (fill_header s eh ph (of_nat (length seg))) = (h, c, d)"
      "disk w' name = Some (mzip_header_bytes LE h @ seg)"
    using write_image_ok [OF run] zip assms(2) by auto
  have "mzip_wf h" by (rule sealed_image(7) [OF res(1) assms(2)])
  then have "drop MZIP_HDR_SIZE (mzip_header_bytes LE h @ seg) = seg"
    by (simp add: length_mzip_header_bytes)
  then show ?thesis using run res sealed_verifies [OF res(1) assms(2)] by blast
qed

lemma elf2mzip_main_converts:
  assumes "convertible bs k" and "disk w src = Some bs" and "disk w outf = None \<or> unlink_error w outf = None"
    and "can_create w outf" and "length elf0 = 52" and "length ph0 = 32"
    and "heap w (unat (ph_filesz (elf32_phdr_of (order_of (bs ! 5 = ELF_DATA_MSB)) (drop k bs)))) = Some junk"
    and "length junk = unat (ph_filesz (elf32_phdr_of (order_of (bs ! 5 = ELF_DATA_MSB)) (drop k bs)))"
    and "mzip_codeseg_build Z (take (length junk)
      (drop (unat (ph_offset (elf32_phdr_of (order_of (bs ! 5 = ELF_DATA_MSB)) (drop k bs)))) bs)) = Some (seg, n)"
    and "length seg < 2 ^ 32"
  shows "\<exists>w' out. elf2mzip_main Z elf0 ph0 [name, src, outf] w = Exit w' 0 \<and> disk w' outf = Some out \<and>
    drop MZIP_HDR_SIZE out = seg \<and> image_verifies (order_of (bs ! 5 = ELF_DATA_MSB)) out \<and>
    image_places (order_of (bs ! 5 = ELF_DATA_MSB)) out
      (eh_entry (elf32_header_of (order_of (bs ! 5 = ELF_DATA_MSB)) bs))
      (ph_paddr (elf32_phdr_of (order_of (bs ! 5 = ELF_DATA_MSB)) (drop k bs)))
      (ph_memsz (elf32_phdr_of (order_of (bs ! 5 = ELF_DATA_MSB)) (drop k bs)))"
proof -
  define s where "s = (bs ! 5 = ELF_DATA_MSB)"
  note C = assms(1) [unfolded convertible_def Let_def, folded s_def]
  obtain w1 where w1: "open_files [name, src, outf] (print ''elf2mzip version 0.1 - convert ELF files to MZIP files.\<newline>'' [] w) =
      Inr (stream_of bs, w1)" "heap w1 = heap w"
    using open_files_good [of "print ''elf2mzip version 0.1 - convert ELF files to MZIP files.\<newline>'' [] w" src bs outf name]
      assms(2-4) by auto
  obtain fp2 w2 where w2: "read_elf_header name elf0 (stream_of bs) w1 = Inr (elf32_header_of LE bs, s, fp2, w2)"
      "s_bytes fp2 = bs" "heap w2 = heap w1"
    using read_elf_header_good [of bs elf0 name w1] C assms(5) unfolding s_def by blast
  obtain fp3 w3 where w3: "find_segment name (elf32_header_of LE bs) s ph0 fp2 w2 = Inr (elf32_phdr_of LE (drop k bs), fp3, w3)"
      "s_bytes fp3 = bs" "heap w3 = heap w2"
    using find_segment_good [OF w2(2), of ph0 s k name w2] C assms(6) by blast
  obtain w4 where w4: "read_image s (elf32_phdr_of LE (drop k bs)) fp3 w3 =
      Inr (take (length junk) (drop (unat (ph_offset (elf32_phdr_of (order_of s) (drop k bs)))) bs), w4)"
    using read_image_good [OF w3(2), of s k w3 junk] C assms(7,8) w1(2) w2(3) w3(3) by (auto simp: s_def)
  show ?thesis
    unfolding elf2mzip_main_def nth_Cons_0 w1(1) bindE.simps prod.case w2(1) w3(1) w4 sum.case s_def [symmetric]
      header_order(3) phdr_order(2,4)
    using write_image_good [OF assms(9,10), folded s_def] by (simp add: numeral_2_eq_2)
qed

lemma sample_convertible: "convertible sample_kernel 52"
proof -
  have msb: "order_of (sample_kernel ! 5 = ELF_DATA_MSB) = BE" by code_simp
  have hdr: "eh_phnum (elf32_header_of BE sample_kernel) = 1" "eh_phoff (elf32_header_of BE sample_kernel) = 52"
    by code_simp+
  have ph: "ph_type (elf32_phdr_of BE (drop 52 sample_kernel)) = ELF_PT_LOAD"
    "ph_filesz (elf32_phdr_of BE (drop 52 sample_kernel)) = 4" "ph_offset (elf32_phdr_of BE (drop 52 sample_kernel)) = 84"
    by code_simp+
  have "length sample_kernel = 88" "take 4 sample_kernel = ELF_MAGIC" "sample_kernel ! 4 = ELF_CLASS_32"
    by (simp_all add: sample_kernel_def ELF_MAGIC_def ELF_CLASS_32_def)
  then show ?thesis
    by (simp add: convertible_def msb header_places_def hdr loadable_at_def ph)
qed

definition sample_zip :: zip_env where
  "sample_zip = \<lparr>zip_opens = True, zip_source_made = True, zip_added = True, zip_file = (\<lambda>b. if length b < 9 then Some (9 # b) else None),
     zip_stat_ok = True, zip_alloc_ok = True\<rparr>"

definition sample_world :: world where
  "sample_world = \<lparr>disk = [''k'' \<mapsto> sample_kernel], unlink_error = (\<lambda>_. None), can_create = (\<lambda>_. True),
     heap = (\<lambda>n. Some (replicate n 7)), printed = []\<rparr>"

lemma sample_facts:
  "order_of (sample_kernel ! 5 = ELF_DATA_MSB) = BE"
  "ph_filesz (elf32_phdr_of BE (drop 52 sample_kernel)) = 4" "ph_offset (elf32_phdr_of BE (drop 52 sample_kernel)) = 84"
  "take 4 (drop 84 sample_kernel) = [0x3c, 8, 0x80, 3]"
  "disk sample_world ''k'' = Some sample_kernel" "disk sample_world ''k.mz'' = None" "can_create sample_world ''k.mz''"
  "heap sample_world 4 = Some (replicate 4 7)"
  "mzip_codeseg_build sample_zip [0x3c, 8, 0x80, 3] = Some ([9, 0x3c, 8, 0x80, 3], 5)"
proof -
  show "order_of (sample_kernel ! 5 = ELF_DATA_MSB) = BE" by code_simp
  show "ph_filesz (elf32_phdr_of BE (drop 52 sample_kernel)) = 4" by code_simp
  show "ph_offset (elf32_phdr_of BE (drop 52 sample_kernel)) = 84" by code_simp
qed (simp_all add: sample_kernel_def sample_world_def sample_zip_def mzip_codeseg_build_def)

lemma sample_run:
  "\<exists>w'. elf2mzip_main sample_zip (replicate 52 0) (replicate 32 0) [''elf2mzip'', ''k'', ''k.mz''] sample_world = Exit w' 0"
  using elf2mzip_main_converts [OF sample_convertible, of sample_world "''k''" "''k.mz''" "replicate 52 0" "replicate 32 0"
      "replicate 4 7" sample_zip "[9, 0x3c, 8, 0x80, 3]" 5 "''elf2mzip''", unfolded sample_facts(1)]
  by (auto simp: sample_facts)

section \<open>Properties\<close>

text \<open>C12: a 32-bit ELF file with one loadable segment inside it is converted: the program exits
  with 0, the image ends with the zipped file part of that segment, its header has the
  entry point, the load address and the memory size of the file in the file's byte order,
  and both checksums fit the bytes of the image they are meant to cover.\<close>

theorem elf2mzip_converts:
  assumes "convertible bs k" and "disk w src = Some bs" and "disk w outf = None \<or> unlink_error w outf = None"
    and "can_create w outf" and "length elf0 = 52" and "length ph0 = 32"
    and "heap w (unat (ph_filesz (elf32_phdr_of (order_of (bs ! 5 = ELF_DATA_MSB)) (drop k bs)))) = Some junk"
    and "length junk = unat (ph_filesz (elf32_phdr_of (order_of (bs ! 5 = ELF_DATA_MSB)) (drop k bs)))"
    and "mzip_codeseg_build Z (take (length junk)
      (drop (unat (ph_offset (elf32_phdr_of (order_of (bs ! 5 = ELF_DATA_MSB)) (drop k bs)))) bs)) = Some (seg, n)"
    and "length seg < 2 ^ 32"
  shows "\<exists>w' out. elf2mzip_main Z elf0 ph0 [name, src, outf] w = Exit w' 0 \<and> disk w' outf = Some out \<and>
    drop MZIP_HDR_SIZE out = seg \<and> image_verifies (order_of (bs ! 5 = ELF_DATA_MSB)) out \<and>
    image_places (order_of (bs ! 5 = ELF_DATA_MSB)) out
      (eh_entry (elf32_header_of (order_of (bs ! 5 = ELF_DATA_MSB)) bs))
      (ph_paddr (elf32_phdr_of (order_of (bs ! 5 = ELF_DATA_MSB)) (drop k bs)))
      (ph_memsz (elf32_phdr_of (order_of (bs ! 5 = ELF_DATA_MSB)) (drop k bs)))"
  by (rule elf2mzip_main_converts [OF assms])

lemma elf2mzip_converts_witness:
  "\<exists>w' out. elf2mzip_main sample_zip (replicate 52 0) (replicate 32 0) [''elf2mzip'', ''k'', ''k.mz''] sample_world = Exit w' 0 \<and>
     disk w' ''k.mz'' = Some out \<and> drop MZIP_HDR_SIZE out = [9, 0x3c, 8, 0x80, 3] \<and> image_verifies BE out"
  using elf2mzip_converts [OF sample_convertible, of sample_world "''k''" "''k.mz''" "replicate 52 0" "replicate 32 0"
      "replicate 4 7" sample_zip "[9, 0x3c, 8, 0x80, 3]" 5 "''elf2mzip''", unfolded sample_facts(1)]
  by (auto simp: sample_facts)



end
