(* ===== verification/Elf2img.thy ===== *)
theory Elf2img
  imports Elf2mzip ElfLoader
begin

text \<open>
  The converter \<^verbatim>\<open>elf2mzip/elf2img.c\<close>: the loadable segments of an ELF file are put together in
  one block of memory, which is written out as it is or as the code segment of an MZIP image
  with a description after it. The tool's own swap routines do what those of the elftool do. Where it
  writes past its block, goes on after a failed compression or frees a pointer that was never
  set, the result is \<open>Undefined\<close>.
\<close>

section \<open>Arguments\<close>

definition img_usage :: "string \<Rightarrow> world \<Rightarrow> world" where
  "img_usage name =
     print_all [(''usage: %s [-m] [elffile] [outfile] [descrfile]\<newline>'', [Text name]),
       (CHR 0x09 # ''-m Generates an MZIP image\<newline>'', []),
       (CHR 0x09 # ''[elffile] Input ELF file\<newline>'', []),
       (CHR 0x09 # ''[outfile] Output image\<newline>'', []),
       (CHR 0x09 # ''[descrfile] file containing textual description of image\<newline>'', []),
       (''The parameters of the format to be converted to are determined based\<newline>on the structure of the input ELF file.\<newline>\<newline>'', [])]"

definition img_fail :: "string \<Rightarrow> string \<Rightarrow> printed_arg list \<Rightarrow> world \<Rightarrow> 'a tool" where
  "img_fail name fmt args w = Inl (Exit (img_usage name (print fmt args w)) (-1))"

text \<open>The files are the last three arguments, whatever the number of arguments: with two of them
  the first is the tool itself.\<close>

definition parse_args :: "string list \<Rightarrow> world \<Rightarrow> (string \<times> string \<times> string \<times> bool \<times> world) tool" where
  "parse_args argv w =
     (let argc = length argv;
          w = print_all [(''elf2img - Cisco Router Image Generation Utility.\<newline>'', []),
                (''(c) 2009 Philippe Vachon <philippe@cowpig.ca>\<newline>\<newline>'', [])] w
      in if argc < 3 then img_fail (argv ! 0) ''Insufficient arguments.\<newline>'' [] w
         else
           let m = filter (\<lambda>a. a = ''-m'') (tl argv);
               w = print_all (map (\<lambda>_. (''DEBUG: generating an MZIP image as output.\<newline>'', [])) m) w
           in Inr (argv ! (argc - 3), argv ! (argc - 2), argv ! (argc - 1), m \<noteq> [], w))"

section \<open>Swapping\<close>

definition img_swap_elf32_program_header :: "elf32_phdr \<Rightarrow> elf32_phdr" where
  "img_swap_elf32_program_header phdr =
     phdr\<lparr>ph_type := SWAP_32 (ph_type phdr),
      ph_offset := SWAP_32 (ph_offset phdr),
      ph_vaddr := SWAP_32 (ph_vaddr phdr),
      ph_paddr := SWAP_32 (ph_paddr phdr),
      ph_filesz := SWAP_32 (ph_filesz phdr),
      ph_memsz := SWAP_32 (ph_memsz phdr),
      ph_flags := SWAP_32 (ph_flags phdr),
      ph_align := SWAP_32 (ph_align phdr)\<rparr>"

definition img_swap_elf32_header :: "elf32_header \<Rightarrow> elf32_header" where
  "img_swap_elf32_header hdr =
     hdr\<lparr>eh_type := SWAP_16 (eh_type hdr),
      eh_machine := SWAP_16 (eh_machine hdr),
      eh_version := SWAP_32 (eh_version hdr),
      eh_entry := SWAP_32 (eh_entry hdr),
      eh_phoff := SWAP_32 (eh_phoff hdr),
      eh_shoff := SWAP_32 (eh_shoff hdr),
      eh_flags := SWAP_32 (eh_flags hdr),
      eh_ehsize := SWAP_16 (eh_ehsize hdr),
      eh_phentsize := SWAP_16 (eh_phentsize hdr),
      eh_phnum := SWAP_16 (eh_phnum hdr),
      eh_shentsize := SWAP_16 (eh_shentsize hdr),
      eh_shnum := SWAP_16 (eh_shnum hdr),
      eh_shstrndx := SWAP_16 (eh_shstrndx hdr)\<rparr>"

lemma img_swap_eq: "img_swap_elf32_program_header = swap_elf32_program_header" "img_swap_elf32_header = swap_elf32_header"
  by (simp_all add: fun_eq_iff img_swap_elf32_program_header_def swap_elf32_program_header_def
      img_swap_elf32_header_def swap_elf32_header_def)

section \<open>Reading the file\<close>

definition img_header ::
    "string \<Rightarrow> string \<Rightarrow> u8 list \<Rightarrow> world \<Rightarrow> (elf32_header \<times> bool \<times> stream) tool" where
  "img_header name file_in elf0 w =
     (case disk w file_in of
        None \<Rightarrow> img_fail name ''Unable to open input file, %s.\<newline>'' [Text file_in] w
      | Some bytes \<Rightarrow>
          let (bs, fp) = fread elf0 (stream_of bytes);
              hdr = elf32_header_of LE bs;
              swap = (eh_ident hdr ! ELF_INDEX_DATA = ELF_DATA_MSB);
              hdr' = (if swap then img_swap_elf32_header hdr else hdr)
          in if not_elf (eh_ident hdr) then img_fail name ''input file is not an ELF file.\<newline>'' [] w
             else if eh_phnum hdr' = 0 then img_fail name ''No program headers found. Aborting.\<newline>'' [] w
             else Inr (hdr', swap, fp))"

definition img_phdrs :: "string \<Rightarrow> elf32_header \<Rightarrow> bool \<Rightarrow> stream \<Rightarrow> world \<Rightarrow> (elf32_phdr list \<times> stream) tool" where
  "img_phdrs name hdr swap fp w =
     (let n = unat (eh_phnum hdr) in
      case heap w (elf32_phdr_size * n) of
        None \<Rightarrow> img_fail name ''error while trying to allocate %08x bytes. Aborting.\<newline>'' [Num (of_nat (elf32_phdr_size * n))] w
      | Some tab0 \<Rightarrow>
          let (tab, fp) = fread tab0 (fseek_set fp (unat (eh_phoff hdr)));
              raw = map (\<lambda>i. elf32_phdr_of LE (drop (elf32_phdr_size * i) tab)) [0..<n]
          in Inr (if swap then map img_swap_elf32_program_header raw else raw, fp))"

text \<open>The lowest address of a loadable segment and the end of the highest, in 32 bits.\<close>

definition img_bounds :: "elf32_phdr list \<Rightarrow> u32 \<times> u32" where
  "img_bounds phdrs =
     fold (\<lambda>ph (min_addr, max_addr).
         if ph_type ph \<noteq> ELF_PT_LOAD then (min_addr, max_addr)
         else (if ph_paddr ph < min_addr then ph_paddr ph else min_addr,
               if ph_paddr ph + ph_memsz ph > max_addr then ph_paddr ph + ph_memsz ph else max_addr))
       phdrs (0xffffffff, 0)"

text \<open>A block of memory with \<open>bs\<close> stored at offset \<open>off\<close>; what does not fit is not defined.\<close>

definition poke :: "nat \<Rightarrow> u8 list \<Rightarrow> u8 list \<Rightarrow> u8 list" where
  "poke off bs img = take off img @ bs @ drop (off + length bs) img"

fun img_load :: "elf32_phdr list \<Rightarrow> u32 \<Rightarrow> stream \<Rightarrow> u8 list \<Rightarrow> u8 list tool" where
  "img_load [] min_addr fp img = Inr img"
| "img_load (ph # phs) min_addr fp img =
     (if ph_type ph \<noteq> ELF_PT_LOAD then img_load phs min_addr fp img
      else
        let buf_off = unat (ph_paddr ph - min_addr);
            len = unat (ph_filesz ph);
            (bs, fp) = fread (take len (drop buf_off img)) (fseek_set fp (unat (ph_offset ph)))
        in if buf_off + len > length img then Inl Undefined
           else img_load phs min_addr fp (poke buf_off bs img))"

definition img_build ::
    "string \<Rightarrow> elf32_phdr list \<Rightarrow> stream \<Rightarrow> world \<Rightarrow> (u8 list \<times> u32) tool" where
  "img_build name phdrs fp w =
     (let (min_addr, max_addr) = img_bounds phdrs;
          memsz = max_addr - min_addr
      in if memsz = 1 then
           img_fail name ''Allocated area is 0. Does this ELF file have any LOAD-able segments?\<newline>'' [] w
         else case heap w (unat memsz) of
           None \<Rightarrow> img_fail name ''Unable to allocate %d bytes for the image. Aborting.\<newline>'' [Num memsz] w
         | Some _ \<Rightarrow>
             bindE (img_load phdrs min_addr fp (replicate (unat memsz) 0)) (\<lambda>img. Inr (img, min_addr)))"

section \<open>Writing the image\<close>

definition img_mzip_header :: "elf32_header \<Rightarrow> u32 \<Rightarrow> u32 \<Rightarrow> u32 \<Rightarrow> mzip_header" where
  "img_mzip_header hdr min_addr memsz seg_size = mzip_blank\<lparr>
     hdr_version := 1, hdr_entrypt := eh_entry hdr, hdr_flags1 := 1, hdr_flags2 := 1, hdr_header_size := 0x70,
     hdr_loader_addr := min_addr, hdr_flags3 := 1, hdr_code_packed_size := seg_size,
     hdr_code_unpacked_size := memsz, hdr_memory_image_size := memsz\<rparr>"

definition img_seal :: "bool \<Rightarrow> u8 list \<Rightarrow> u32 \<Rightarrow> mzip_header \<Rightarrow> mzip_header" where
  "img_seal swap seg seg_size h =
     (let mz = (if swap then mzip_swap h else h);
          mz = mz\<lparr>hdr_crc_code := swap16_if swap (mzip_calculate_crc mz seg (unat seg_size))\<rparr>
      in mz\<lparr>hdr_crc_header := swap16_if swap (mzip_calculate_hdr_crc mz)\<rparr>)"

text \<open>The description is printed as a string, up to a NUL; without one, what lies behind it in
  memory is printed as well, which is not modelled.\<close>

definition img_write_mzip ::
    "zip_env \<Rightarrow> string \<Rightarrow> string \<Rightarrow> string \<Rightarrow> elf32_header \<Rightarrow> bool \<Rightarrow> u8 list \<Rightarrow> u32 \<Rightarrow> world \<Rightarrow> tool_end" where
  "img_write_mzip Z name file_out file_desc hdr swap img min_addr w =
     (case mzip_codeseg_build Z img of
        None \<Rightarrow> Undefined
      | Some (seg, seg_size) \<Rightarrow>
          let mz = img_seal swap seg seg_size (img_mzip_header hdr min_addr (of_nat (length img)) seg_size);
              w = mzip_print_header mz w
          in case disk w file_desc of
               None \<Rightarrow> Undefined
             | Some desc \<Rightarrow>
                 (case heap w (length desc) of
                    None \<Rightarrow> Exit (print ''Error while allocating memory for description buffer.\<newline>'' [] w) 0
                  | Some _ \<Rightarrow>
                      let w = print ''Descriptor:\<newline>%s''
                            [Text (map (\<lambda>c. char_of (unat c)) (takeWhile (\<lambda>c. c \<noteq> 0) desc))] w;
                          fp = mzip_write_codeseg (take (unat seg_size) seg) (mzip_write_header mz (stream_of []));
                          fp = fwrite desc (fseek_end fp)
                      in Exit (store_file file_out fp w) 0))"

definition img_write ::
    "zip_env \<Rightarrow> string \<Rightarrow> string \<Rightarrow> string \<Rightarrow> bool \<Rightarrow> elf32_header \<Rightarrow> bool \<Rightarrow> u8 list \<Rightarrow> u32 \<Rightarrow> world \<Rightarrow> tool_end" where
  "img_write Z name file_out file_desc mzip hdr swap img min_addr w =
     (if \<not> can_create w file_out then
        Exit (img_usage name (print ''Error while opening output file.\<newline>'' [] w)) (-1)
      else
        let w = w\<lparr>disk := (disk w)(file_out := Some [])\<rparr>
        in if \<not> mzip then Exit (store_file file_out (fwrite img (stream_of [])) w) 0
           else img_write_mzip Z name file_out file_desc hdr swap img min_addr w)"

definition elf2img_main :: "zip_env \<Rightarrow> u8 list \<Rightarrow> string list \<Rightarrow> world \<Rightarrow> tool_end" where
  "elf2img_main Z elf0 argv w =
     (case
        bindE (parse_args argv w) (\<lambda>(file_in, file_out, file_desc, mzip, w).
        bindE (img_header (argv ! 0) file_in elf0 w) (\<lambda>(hdr, swap, fp).
        bindE (img_phdrs (argv ! 0) hdr swap fp w) (\<lambda>(phdrs, fp).
        bindE (img_build (argv ! 0) phdrs fp w) (\<lambda>(img, min_addr).
        Inr (img_write Z (argv ! 0) file_out file_desc mzip hdr swap img min_addr w)))))
      of Inl e \<Rightarrow> e | Inr e \<Rightarrow> e)"

section \<open>The program headers of a file\<close>

definition file_phdrs :: "endian \<Rightarrow> u8 list \<Rightarrow> elf32_phdr list" where
  "file_phdrs e bs =
     (let h = elf32_header_of e bs
      in map (\<lambda>i. elf32_phdr_of e (drop (unat (eh_phoff h) + 32 * i) bs)) [0..<unat (eh_phnum h)])"

definition load_phdrs :: "endian \<Rightarrow> u8 list \<Rightarrow> elf32_phdr list" where
  "load_phdrs e bs = filter (\<lambda>ph. ph_type ph = ELF_PT_LOAD) (file_phdrs e bs)"

text \<open>For a big-endian file these are the segments the boot loader sees.\<close>

lemma load_phdrs_segments: "load_phdrs BE bs = elf32_segments bs"
  by (simp add: load_phdrs_def file_phdrs_def elf32_segments_def elf32_phdr_in_def [abs_def] Let_def)

lemma img_header_good:
  assumes "disk w src = Some bs" and "52 \<le> length bs" and "take 4 bs = ELF_MAGIC" and "length elf0 = 52"
    and "eh_phnum (elf32_header_of (order_of (bs ! 5 = ELF_DATA_MSB)) bs) \<noteq> 0"
  shows "\<exists>fp. img_header name src elf0 w =
      Inr (elf32_header_of (order_of (bs ! 5 = ELF_DATA_MSB)) bs, bs ! 5 = ELF_DATA_MSB, fp) \<and> s_bytes fp = bs"
proof -
  have rd: "fread elf0 (stream_of bs) = (take 52 bs, (stream_of bs)\<lparr>s_pos := 52\<rparr>)"
    using fread_whole [of "stream_of bs" elf0] assms(2,4) by simp
  define ident where "ident = eh_ident (elf32_header_of LE bs)"
  have nth: "ident ! i = bs ! i" if "i < 16" for i
    using that assms(2) by (simp add: ident_def elf32_header_of_def)
  have "ident ! i = ELF_MAGIC ! i" if "i < 4" for i
    using that nth nth_take [of i 4 bs] by (simp add: assms(3))
  then have magic: "\<not> not_elf ident" by (simp add: not_elf_def)
  have msb: "(ident ! ELF_INDEX_DATA = ELF_DATA_MSB) = (bs ! 5 = ELF_DATA_MSB)"
    using nth [of 5] by (simp add: ELF_INDEX_DATA_def)
  have hdr: "(if bs ! 5 = ELF_DATA_MSB then img_swap_elf32_header (elf32_header_of LE bs) else elf32_header_of LE bs) =
      elf32_header_of (order_of (bs ! 5 = ELF_DATA_MSB)) bs"
    by (simp add: order_of_def img_swap_eq swap_elf32_header_of)
  show ?thesis
    unfolding img_header_def assms(1) option.case rd Let_def prod.case elf32_header_of_take [OF assms(2)]
      ident_def [symmetric] msb hdr
    using magic assms(5) by simp
qed

lemma img_phdrs_good:
  fixes s :: bool and bs :: "u8 list"
  defines "h \<equiv> elf32_header_of (order_of s) bs"
  assumes "s_bytes fp = bs" and "unat (eh_phoff h) + 32 * unat (eh_phnum h) \<le> length bs"
    and "heap w (32 * unat (eh_phnum h)) = Some tab0" and "length tab0 = 32 * unat (eh_phnum h)"
  shows "\<exists>fp'. img_phdrs name h s fp w = Inr (file_phdrs (order_of s) bs, fp') \<and> s_bytes fp' = bs"
proof -
  let ?n = "unat (eh_phnum h)" and ?off = "unat (eh_phoff h)"
  let ?tab = "take (32 * ?n) (drop ?off bs)" and ?fp = "fp\<lparr>s_pos := ?off + 32 * ?n\<rparr>"
  have rd: "fread tab0 (fseek_set fp ?off) = (?tab, ?fp)"
    using fread_whole [of "fseek_set fp ?off" tab0] assms by (simp add: fseek_set_def)
  have entry: "elf32_phdr_of e (drop (32 * i) ?tab) = elf32_phdr_of e (drop (?off + 32 * i) bs)" if "i < ?n" for e i
  proof -
    have "32 \<le> 32 * ?n - 32 * i" using that by simp
    then have same: "take 32 (drop (32 * i) ?tab) = take 32 (drop (?off + 32 * i) bs)"
      by (simp add: drop_take min_absorb1 add.commute)
    have "elf32_phdr_of e (take 32 (drop (32 * i) ?tab)) = elf32_phdr_of e (drop (32 * i) ?tab)"
      using that assms(3) by (intro elf32_phdr_of_take) simp
    moreover have "elf32_phdr_of e (take 32 (drop (?off + 32 * i) bs)) = elf32_phdr_of e (drop (?off + 32 * i) bs)"
      using that assms(3) by (intro elf32_phdr_of_take) simp
    ultimately show ?thesis unfolding same by simp
  qed
  let ?raw = "map (\<lambda>i. elf32_phdr_of LE (drop (32 * i) ?tab)) [0..<?n]"
  have "(if s then map img_swap_elf32_program_header ?raw else ?raw) = file_phdrs (order_of s) bs"
    using entry by (auto simp: file_phdrs_def Let_def order_of_def img_swap_eq swap_elf32_program_header_of h_def)
  then show ?thesis
    using assms(2,4) by (simp add: img_phdrs_def Let_def elf32_phdr_size_def rd)
qed

section \<open>The extent of the image\<close>

lemma img_bounds_fold:
  "fold (\<lambda>ph (min_addr, max_addr).
       if ph_type ph \<noteq> ELF_PT_LOAD then (min_addr, max_addr)
       else (if ph_paddr ph < min_addr then ph_paddr ph else min_addr,
             if ph_paddr ph + ph_memsz ph > max_addr then ph_paddr ph + ph_memsz ph else max_addr)) phdrs (lo, hi) =
   fold (\<lambda>ph (a, b). (min (ph_paddr ph) a, max b (ph_paddr ph + ph_memsz ph)))
     (filter (\<lambda>ph. ph_type ph = ELF_PT_LOAD) phdrs) (lo, hi)"
  by (induction phdrs arbitrary: lo hi) (simp_all add: min_def max_def not_less order_less_le)

lemma img_bounds_cover:
  assumes "fold (\<lambda>ph (a, b). (min (ph_paddr ph) a, max b (ph_paddr ph + ph_memsz ph))) segs (lo, hi) = (lo', hi')"
  shows "lo' \<le> lo \<and> hi \<le> hi' \<and> (\<forall>ph \<in> set segs. lo' \<le> ph_paddr ph \<and> ph_paddr ph + ph_memsz ph \<le> hi')"
  using assms
proof (induction segs arbitrary: lo hi)
  case (Cons ph segs)
  from Cons.IH [of "min (ph_paddr ph) lo" "max hi (ph_paddr ph + ph_memsz ph)"] Cons.prems
  show ?case by (auto simp: min_le_iff_disj le_max_iff_disj intro: order_trans)
qed simp

text \<open>Without a loadable segment the size wraps around to 1.\<close>

lemma img_bounds_none: "filter (\<lambda>ph. ph_type ph = ELF_PT_LOAD) phdrs = [] \<Longrightarrow> img_bounds phdrs = (0xffffffff, 0)"
  by (simp only: img_bounds_def img_bounds_fold fold_simps)

lemma img_bounds_segment:
  assumes "img_bounds phdrs = (lo, hi)" and "ph \<in> set phdrs" "ph_type ph = ELF_PT_LOAD"
    and "unat (ph_paddr ph) + unat (ph_memsz ph) < 2 ^ 32"
  shows "unat (ph_paddr ph - lo) + unat (ph_memsz ph) \<le> unat (hi - lo)"
proof -
  have c: "lo \<le> ph_paddr ph" "ph_paddr ph + ph_memsz ph \<le> hi"
    using img_bounds_cover [of "filter (\<lambda>ph. ph_type ph = ELF_PT_LOAD) phdrs" "0xffffffff" 0 lo hi] assms(1-3)
    by (auto simp: img_bounds_def img_bounds_fold)
  have sum: "unat (ph_paddr ph + ph_memsz ph) = unat (ph_paddr ph) + unat (ph_memsz ph)"
    using assms(4) by (intro unat_add_lem [THEN iffD1]) simp
  then have "unat lo \<le> unat hi" "unat lo \<le> unat (ph_paddr ph)" "unat (ph_paddr ph) + unat (ph_memsz ph) \<le> unat hi"
    using c by (simp_all add: word_le_nat_alt)
  moreover from this have "unat (ph_paddr ph - lo) = unat (ph_paddr ph) - unat lo" "unat (hi - lo) = unat hi - unat lo"
    by (simp_all add: unat_sub word_le_nat_alt)
  ultimately show ?thesis by simp
qed

section \<open>What is in the image\<close>

lemma length_poke: "off + length bs \<le> length img \<Longrightarrow> length (poke off bs img) = length img"
  by (simp add: poke_def)

lemma nth_poke:
  "off + length bs \<le> length img \<Longrightarrow> i < length img \<Longrightarrow>
   poke off bs img ! i = (if off \<le> i \<and> i < off + length bs then bs ! (i - off) else img ! i)"
  by (auto simp: poke_def nth_append min_def)

text \<open>A segment whose file part is in the file and whose place is in a block of \<open>n\<close> bytes.\<close>

definition fits_in :: "u8 list \<Rightarrow> u32 \<Rightarrow> nat \<Rightarrow> elf32_phdr \<Rightarrow> bool" where
  "fits_in bs lo n ph \<longleftrightarrow>
     unat (ph_offset ph) + unat (ph_filesz ph) \<le> length bs \<and> unat (ph_filesz ph) \<le> unat (ph_memsz ph) \<and>
     unat (ph_paddr ph - lo) + unat (ph_memsz ph) \<le> n"

definition file_part :: "u8 list \<Rightarrow> elf32_phdr \<Rightarrow> u8 list" where
  "file_part bs ph = take (unat (ph_filesz ph)) (drop (unat (ph_offset ph)) bs)"

lemma img_load_step:
  assumes "s_bytes fp = bs" and "fits_in bs lo (length img) ph" and "ph_type ph = ELF_PT_LOAD"
  shows "\<exists>fp'. s_bytes fp' = bs \<and>
    img_load (ph # phs) lo fp img = img_load phs lo fp' (poke (unat (ph_paddr ph - lo)) (file_part bs ph) img)"
proof -
  have F: "unat (ph_offset ph) + unat (ph_filesz ph) \<le> length bs" "unat (ph_paddr ph - lo) + unat (ph_filesz ph) \<le> length img"
    using assms(2) by (simp_all add: fits_in_def)
  have "fread (take (unat (ph_filesz ph)) (drop (unat (ph_paddr ph - lo)) img)) (fseek_set fp (unat (ph_offset ph))) =
      (file_part bs ph, fp\<lparr>s_pos := unat (ph_offset ph) + unat (ph_filesz ph)\<rparr>)"
    using fread_whole [of "fseek_set fp (unat (ph_offset ph))" "take (unat (ph_filesz ph)) (drop (unat (ph_paddr ph - lo)) img)"]
      F assms(1) by (simp add: fseek_set_def file_part_def min_absorb2)
  then show ?thesis using F assms(1,3) by (intro exI [of _ "fp\<lparr>s_pos := unat (ph_offset ph) + unat (ph_filesz ph)\<rparr>"]) simp
qed

lemma img_load_pokes:
  assumes "s_bytes fp = bs" and "\<forall>ph \<in> set phs. ph_type ph = ELF_PT_LOAD \<longrightarrow> fits_in bs lo (length img) ph"
  shows "img_load phs lo fp img =
    Inr (fold (\<lambda>ph. poke (unat (ph_paddr ph - lo)) (file_part bs ph)) (filter (\<lambda>ph. ph_type ph = ELF_PT_LOAD) phs) img)"
  using assms
proof (induction phs arbitrary: fp img)
  case (Cons ph phs)
  show ?case
  proof (cases "ph_type ph = ELF_PT_LOAD")
    case True
    then have fit: "fits_in bs lo (length img) ph" using Cons.prems(2) by simp
    then have "length (poke (unat (ph_paddr ph - lo)) (file_part bs ph) img) = length img"
      by (intro length_poke) (auto simp: file_part_def fits_in_def)
    then show ?thesis using img_load_step [OF Cons.prems(1) fit True, of phs] Cons True by auto
  qed (use Cons in simp)
qed simp

definition side_by_side :: "u32 \<Rightarrow> elf32_phdr \<Rightarrow> elf32_phdr \<Rightarrow> bool" where
  "side_by_side lo a b \<longleftrightarrow>
     unat (ph_paddr a - lo) + unat (ph_memsz a) \<le> unat (ph_paddr b - lo) \<or>
     unat (ph_paddr b - lo) + unat (ph_memsz b) \<le> unat (ph_paddr a - lo)"

abbreviation put_part :: "u8 list \<Rightarrow> u32 \<Rightarrow> elf32_phdr \<Rightarrow> u8 list \<Rightarrow> u8 list" where
  "put_part bs lo ph \<equiv> poke (unat (ph_paddr ph - lo)) (file_part bs ph)"

lemma file_part_fits: "fits_in bs lo n ph \<Longrightarrow> length (file_part bs ph) = unat (ph_filesz ph)"
  by (auto simp: file_part_def fits_in_def)

lemma put_part_length: "fits_in bs lo (length img) ph \<Longrightarrow> length (put_part bs lo ph img) = length img"
  by (intro length_poke) (auto simp: file_part_fits fits_in_def)

lemma put_part_nth:
  assumes "fits_in bs lo (length img) ph" and "i < length img"
  shows "put_part bs lo ph img ! i =
    (if unat (ph_paddr ph - lo) \<le> i \<and> i < unat (ph_paddr ph - lo) + unat (ph_filesz ph)
     then file_part bs ph ! (i - unat (ph_paddr ph - lo)) else img ! i)"
  using nth_poke [of "unat (ph_paddr ph - lo)" "file_part bs ph" img i] assms file_part_fits [OF assms(1)]
  by (auto simp: fits_in_def)

lemma put_parts_length:
  "\<forall>ph \<in> set segs. fits_in bs lo (length img) ph \<Longrightarrow> length (fold (put_part bs lo) segs img) = length img"
  by (induction segs arbitrary: img) (simp_all add: put_part_length)

lemma put_parts_keep:
  assumes "\<forall>ph \<in> set segs. fits_in bs lo (length img) ph \<and> side_by_side lo a ph"
    and "i < length img" "unat (ph_paddr a - lo) \<le> i" "i < unat (ph_paddr a - lo) + unat (ph_memsz a)"
  shows "fold (put_part bs lo) segs img ! i = img ! i"
  using assms
proof (induction segs arbitrary: img)
  case (Cons ph segs)
  then have "fits_in bs lo (length img) ph" "side_by_side lo a ph" by simp_all
  then have "put_part bs lo ph img ! i = img ! i" "length (put_part bs lo ph img) = length img"
    using put_part_nth [of bs lo img ph i] put_part_length Cons.prems(2-) by (auto simp: side_by_side_def fits_in_def)
  then show ?case using Cons by simp
qed simp

lemma put_parts_segment:
  assumes "\<forall>ph \<in> set segs. fits_in bs lo (length img) ph" and "sorted_wrt (side_by_side lo) segs" and "ph \<in> set segs"
    and "i < length img" "unat (ph_paddr ph - lo) \<le> i" "i < unat (ph_paddr ph - lo) + unat (ph_memsz ph)" "img ! i = 0"
  shows "fold (put_part bs lo) segs img ! i = segment_image bs ph ! (i - unat (ph_paddr ph - lo))"
  using assms
proof (induction segs arbitrary: img)
  case (Cons a segs)
  let ?img = "put_part bs lo a img"
  have fit: "fits_in bs lo (length img) a" and len: "length ?img = length img"
    using Cons.prems(1) by (simp_all add: put_part_length)
  show ?case
  proof (cases "ph \<in> set segs")
    case True
    then have "side_by_side lo a ph" using Cons.prems(2) by simp
    then have "?img ! i = 0"
      using put_part_nth [OF fit Cons.prems(4)] fit Cons.prems(4-) by (auto simp: side_by_side_def fits_in_def)
    then show ?thesis using Cons True len by simp
  next
    case False
    then have "a = ph" using Cons.prems(3) by simp
    moreover have "fold (put_part bs lo) segs ?img ! i = ?img ! i"
      using Cons.prems len \<open>a = ph\<close> by (intro put_parts_keep [of _ _ _ _ ph]) simp_all
    moreover have "?img ! i = segment_image bs a ! (i - unat (ph_paddr a - lo))"
      using put_part_nth [OF fit Cons.prems(4)] file_part_fits [OF fit] Cons.prems(5-) \<open>a = ph\<close>
      by (auto simp: segment_image_def nth_append file_part_def)
    ultimately show ?thesis by simp
  qed
qed simp

text \<open>Segments apart in memory are apart in the image.\<close>

lemma apart_side_by_side:
  assumes "segments_apart a b" and "lo \<le> ph_paddr a" "lo \<le> ph_paddr b"
  shows "side_by_side lo a b"
proof -
  have sub: "unat (ph_paddr a - lo) = unat (ph_paddr a) - unat lo" "unat (ph_paddr b - lo) = unat (ph_paddr b) - unat lo"
    using assms(2,3) by (simp_all add: unat_sub)
  have le: "unat lo \<le> unat (ph_paddr a)" "unat lo \<le> unat (ph_paddr b)"
    using assms(2,3) by (simp_all add: word_le_nat_alt)
  show ?thesis
  proof (cases "ph_paddr a \<le> ph_paddr b")
    case True
    then have "unat (ph_paddr b - ph_paddr a) = unat (ph_paddr b) - unat (ph_paddr a)" by (rule unat_sub)
    moreover have "unat (ph_paddr a) \<le> unat (ph_paddr b)" using True by (simp add: word_le_nat_alt)
    ultimately show ?thesis using assms(1) le sub by (auto simp: segments_apart_def apart_def side_by_side_def)
  next
    case False
    then have "unat (ph_paddr a - ph_paddr b) = unat (ph_paddr a) - unat (ph_paddr b)" by (intro unat_sub) simp
    moreover have "unat (ph_paddr b) \<le> unat (ph_paddr a)" using False by (simp add: word_le_nat_alt)
    ultimately show ?thesis using assms(1) le sub by (auto simp: segments_apart_def apart_def side_by_side_def)
  qed
qed

section \<open>Building the image of a sound file\<close>

text \<open>Every loadable segment is in the file, fits below the end of the address space, and no two
  overlap.\<close>

definition sound_segments :: "u8 list \<Rightarrow> elf32_phdr list \<Rightarrow> bool" where
  "sound_segments bs segs \<longleftrightarrow>
     list_all (\<lambda>ph. unat (ph_offset ph) + unat (ph_filesz ph) \<le> length bs \<and> unat (ph_filesz ph) \<le> unat (ph_memsz ph) \<and>
       unat (ph_paddr ph) + unat (ph_memsz ph) < 2 ^ 32) segs \<and>
     sorted_wrt segments_apart segs"

definition holds_segment :: "u8 list \<Rightarrow> u32 \<Rightarrow> u8 list \<Rightarrow> elf32_phdr \<Rightarrow> bool" where
  "holds_segment bs lo img ph \<longleftrightarrow>
     take (unat (ph_memsz ph)) (drop (unat (ph_paddr ph - lo)) img) = segment_image bs ph"

lemma img_build_good:
  assumes "s_bytes fp = bs" and "sound_segments bs (filter (\<lambda>ph. ph_type ph = ELF_PT_LOAD) phdrs)"
    and "img_bounds phdrs = (lo, hi)" and "hi - lo \<noteq> 1" and "heap w (unat (hi - lo)) \<noteq> None"
  shows "\<exists>img. img_build name phdrs fp w = Inr (img, lo) \<and> length img = unat (hi - lo) \<and>
    (\<forall>ph \<in> set (filter (\<lambda>ph. ph_type ph = ELF_PT_LOAD) phdrs). holds_segment bs lo img ph)"
proof -
  let ?segs = "filter (\<lambda>ph. ph_type ph = ELF_PT_LOAD) phdrs" and ?z = "replicate (unat (hi - lo)) (0 :: u8)"
  have S: "unat (ph_offset ph) + unat (ph_filesz ph) \<le> length bs" "unat (ph_filesz ph) \<le> unat (ph_memsz ph)"
    "unat (ph_paddr ph) + unat (ph_memsz ph) < 2 ^ 32" "ph \<in> set phdrs" "ph_type ph = ELF_PT_LOAD" if "ph \<in> set ?segs" for ph
    using assms(2) that by (auto simp: sound_segments_def list_all_iff)
  have fit: "fits_in bs lo (length ?z) ph" if "ph \<in> set ?segs" for ph
    using S [OF that] img_bounds_segment [OF assms(3) S(4,5,3) [OF that]] by (simp add: fits_in_def)
  have lo: "lo \<le> ph_paddr ph" if "ph \<in> set ?segs" for ph
    using img_bounds_cover [of ?segs "0xffffffff" 0 lo hi] assms(3) that by (auto simp: img_bounds_def img_bounds_fold)
  have "sorted_wrt segments_apart ?segs" using assms(2) by (simp add: sound_segments_def)
  then have side: "sorted_wrt (side_by_side lo) ?segs"
    by (rule sorted_wrt_mono_rel [rotated]) (simp add: apart_side_by_side lo)
  define img where "img = fold (put_part bs lo) ?segs ?z"
  have len: "length img = unat (hi - lo)" unfolding img_def using put_parts_length [of ?segs bs lo ?z] fit by simp
  have "img_load phdrs lo fp ?z = Inr img"
    unfolding img_def using fit by (intro img_load_pokes [OF assms(1)]) simp
  then have build: "img_build name phdrs fp w = Inr (img, lo)"
    using assms(4,5) by (auto simp: img_build_def assms(3))
  have "holds_segment bs lo img ph" if ph: "ph \<in> set ?segs" for ph
    unfolding holds_segment_def
  proof (rule nth_equalityI)
    have upto: "unat (ph_paddr ph - lo) + unat (ph_memsz ph) \<le> length img" using fit [OF ph] len by (simp add: fits_in_def)
    have size: "length (segment_image bs ph) = unat (ph_memsz ph)" using S [OF ph] by (intro length_segment_image) simp_all
    show "length (take (unat (ph_memsz ph)) (drop (unat (ph_paddr ph - lo)) img)) = length (segment_image bs ph)"
      using upto size by simp
    fix i assume "i < length (take (unat (ph_memsz ph)) (drop (unat (ph_paddr ph - lo)) img))"
    then have i: "i < unat (ph_memsz ph)" by simp
    then have "img ! (unat (ph_paddr ph - lo) + i) = segment_image bs ph ! i"
      unfolding img_def using put_parts_segment [OF _ side ph, of bs ?z "unat (ph_paddr ph - lo) + i"] fit upto len by simp
    then show "take (unat (ph_memsz ph)) (drop (unat (ph_paddr ph - lo)) img) ! i = segment_image bs ph ! i"
      using i upto by simp
  qed
  then show ?thesis using build len by blast
qed

text \<open>A file the tool can use: an ELF header, the program headers behind it, sound segments.\<close>

definition sound_file :: "u8 list \<Rightarrow> bool" where
  "sound_file bs \<longleftrightarrow>
     (let e = order_of (bs ! 5 = ELF_DATA_MSB); h = elf32_header_of e bs
      in 52 \<le> length bs \<and> take 4 bs = ELF_MAGIC \<and> eh_phnum h \<noteq> 0 \<and>
         unat (eh_phoff h) + 32 * unat (eh_phnum h) \<le> length bs \<and> sound_segments bs (load_phdrs e bs))"

definition file_order :: "u8 list \<Rightarrow> endian" where
  "file_order bs = order_of (bs ! 5 = ELF_DATA_MSB)"

text \<open>The memory the tool asks for: the program headers, and the image.\<close>

definition img_memory :: "world \<Rightarrow> u8 list \<Rightarrow> nat \<Rightarrow> bool" where
  "img_memory w bs n \<longleftrightarrow>
     (\<exists>tab0. heap w (32 * unat (eh_phnum (elf32_header_of (file_order bs) bs))) = Some tab0 \<and>
        length tab0 = 32 * unat (eh_phnum (elf32_header_of (file_order bs) bs))) \<and> heap w n \<noteq> None"

lemma parse_args_files:
  assumes "3 \<le> length argv"
  shows "\<exists>w'. parse_args argv w = Inr (argv ! (length argv - 3), argv ! (length argv - 2), argv ! (length argv - 1),
      ''-m'' \<in> set (tl argv), w') \<and> disk w' = disk w \<and> heap w' = heap w \<and> can_create w' = can_create w"
  using assms by (auto simp: parse_args_def Let_def filter_empty_conv)

lemma elf2img_main_read:
  assumes "3 \<le> length argv" and "disk w (argv ! (length argv - 3)) = Some bs" and "sound_file bs" and "length elf0 = 52"
    and "img_memory w bs n"
  shows "\<exists>fp w1. elf2img_main Z elf0 argv w =
      (case img_build (argv ! 0) (file_phdrs (file_order bs) bs) fp w1 of Inl e \<Rightarrow> e
       | Inr (img, lo) \<Rightarrow> img_write Z (argv ! 0) (argv ! (length argv - 2)) (argv ! (length argv - 1)) (''-m'' \<in> set (tl argv))
           (elf32_header_of (file_order bs) bs) (bs ! 5 = ELF_DATA_MSB) img lo w1) \<and>
    s_bytes fp = bs \<and> disk w1 = disk w \<and> heap w1 = heap w \<and> can_create w1 = can_create w"
proof -
  define s where "s = (bs ! 5 = ELF_DATA_MSB)"
  note S = assms(3) [unfolded sound_file_def Let_def, folded s_def]
  obtain w1 where args: "parse_args argv w = Inr (argv ! (length argv - 3), argv ! (length argv - 2), argv ! (length argv - 1),
      ''-m'' \<in> set (tl argv), w1)" and w1: "disk w1 = disk w" "heap w1 = heap w" "can_create w1 = can_create w"
    using parse_args_files [OF assms(1)] by blast
  obtain fp1 where hdr: "img_header (argv ! 0) (argv ! (length argv - 3)) elf0 w1 = Inr (elf32_header_of (order_of s) bs, s, fp1)"
      "s_bytes fp1 = bs"
    using img_header_good [of w1 "argv ! (length argv - 3)" bs elf0 "argv ! 0", folded s_def] assms(2,4) S w1 by auto
  have order: "file_order bs = order_of s" by (simp add: file_order_def s_def)
  obtain tab0 where tab0: "heap w1 (32 * unat (eh_phnum (elf32_header_of (order_of s) bs))) = Some tab0"
      "length tab0 = 32 * unat (eh_phnum (elf32_header_of (order_of s) bs))"
    using assms(5) unfolding img_memory_def order w1 by blast
  obtain fp2 where tab: "img_phdrs (argv ! 0) (elf32_header_of (order_of s) bs) s fp1 w1 = Inr (file_phdrs (order_of s) bs, fp2)"
      "s_bytes fp2 = bs"
    using img_phdrs_good [OF hdr(2) _ tab0] S by blast
  have "elf2img_main Z elf0 argv w =
      (case img_build (argv ! 0) (file_phdrs (order_of s) bs) fp2 w1 of Inl e \<Rightarrow> e
       | Inr (img, lo) \<Rightarrow> img_write Z (argv ! 0) (argv ! (length argv - 2)) (argv ! (length argv - 1)) (''-m'' \<in> set (tl argv))
           (elf32_header_of (order_of s) bs) s img lo w1)"
    unfolding elf2img_main_def args hdr(1) tab(1) bindE.simps prod.case
    by (cases "img_build (argv ! 0) (file_phdrs (order_of s) bs) fp2 w1") auto
  then show ?thesis using w1 tab(2) unfolding order s_def [symmetric] by blast
qed

lemma elf2img_main_image:
  assumes "3 \<le> length argv" and "disk w (argv ! (length argv - 3)) = Some bs" and "sound_file bs" and "length elf0 = 52"
    and "img_bounds (file_phdrs (file_order bs) bs) = (lo, hi)" and "hi - lo \<noteq> 1" and "img_memory w bs (unat (hi - lo))"
  shows "\<exists>img w1. elf2img_main Z elf0 argv w =
      img_write Z (argv ! 0) (argv ! (length argv - 2)) (argv ! (length argv - 1)) (''-m'' \<in> set (tl argv))
        (elf32_header_of (file_order bs) bs) (bs ! 5 = ELF_DATA_MSB) img lo w1 \<and>
    disk w1 = disk w \<and> heap w1 = heap w \<and> can_create w1 = can_create w \<and> length img = unat (hi - lo) \<and>
    (\<forall>ph \<in> set (load_phdrs (file_order bs) bs). holds_segment bs lo img ph)"
proof -
  obtain fp w1 where run: "elf2img_main Z elf0 argv w =
      (case img_build (argv ! 0) (file_phdrs (file_order bs) bs) fp w1 of Inl e \<Rightarrow> e
       | Inr (img, lo) \<Rightarrow> img_write Z (argv ! 0) (argv ! (length argv - 2)) (argv ! (length argv - 1)) (''-m'' \<in> set (tl argv))
           (elf32_header_of (file_order bs) bs) (bs ! 5 = ELF_DATA_MSB) img lo w1)"
    "s_bytes fp = bs" and w1: "disk w1 = disk w" "heap w1 = heap w" "can_create w1 = can_create w"
    using elf2img_main_read [OF assms(1-4,7), of Z] by blast
  have "heap w1 (unat (hi - lo)) \<noteq> None" using assms(7) by (simp add: img_memory_def w1)
  moreover have "sound_segments bs (filter (\<lambda>ph. ph_type ph = ELF_PT_LOAD) (file_phdrs (file_order bs) bs))"
    using assms(3) by (simp add: sound_file_def Let_def load_phdrs_def file_order_def)
  ultimately obtain img where "img_build (argv ! 0) (file_phdrs (file_order bs) bs) fp w1 = Inr (img, lo)"
      "length img = unat (hi - lo)" "\<forall>ph \<in> set (load_phdrs (file_order bs) bs). holds_segment bs lo img ph"
    using img_build_good [OF run(2) _ assms(5,6), of w1 "argv ! 0"] unfolding load_phdrs_def by blast
  then show ?thesis using run(1) w1 by auto
qed

lemma img_write_raw:
  assumes "can_create w out"
  shows "img_write Z name out descr False hdr s img lo w =
    Exit (store_file out (fwrite img (stream_of [])) (w\<lparr>disk := (disk w)(out := Some [])\<rparr>)) 0"
    and "disk (store_file out (fwrite img (stream_of [])) (w\<lparr>disk := (disk w)(out := Some [])\<rparr>)) = (disk w)(out := Some img)"
  using assms by (simp_all add: img_write_def Let_def store_file_def fwrite_append)

section \<open>The MZIP image\<close>

lemma mzip_swap_wf: "mzip_wf (mzip_swap h) \<longleftrightarrow> mzip_wf h"
  by (simp add: mzip_wf_def mzip_swap_def)

lemma img_seal_eq:
  assumes "mzip_wf h"
  shows "img_seal s seg n h = fst (seal_header s seg n (if s then mzip_swap h else h))"
proof -
  let ?h = "if s then mzip_swap h else h"
  let ?h1 = "?h\<lparr>hdr_crc_code := swap16_if s (mzip_calculate_crc ?h seg (unat n))\<rparr>"
  have wf: "mzip_wf ?h1" using assms by (simp add: mzip_wf_def mzip_swap_def)
  have "mzip_wf (?h1\<lparr>hdr_crc_header := c\<rparr>)" for c using wf by (simp add: mzip_wf_def)
  then have "mzip_calculate_hdr_crc (?h1\<lparr>hdr_crc_header := c\<rparr>) = mzip_calculate_hdr_crc ?h1" for c
    using mzip_crcs(2) [OF wf] mzip_crcs(2) [of "?h1\<lparr>hdr_crc_header := c\<rparr>"] take_header_54 [OF wf] by simp
  then show ?thesis by (simp add: img_seal_def seal_header_def Let_def del: mzip_header.update_convs)
qed

lemma img_seal_image:
  fixes s :: bool and seg :: "u8 list" and h :: mzip_header
  assumes "mzip_wf h" and "length seg < 2 ^ 32"
  defines "h' \<equiv> img_seal s seg (of_nat (length seg)) h"
  shows "mzip_wf h'" and "image_verifies (order_of s) (mzip_header_bytes LE h' @ seg)"
    and "hdr_entrypt (mzip_header_of (order_of s) (mzip_header_bytes LE h' @ rest)) = hdr_entrypt h"
    and "hdr_memory_image_size (mzip_header_of (order_of s) (mzip_header_bytes LE h' @ rest)) = hdr_memory_image_size h"
    and "hdr_loader_addr (mzip_header_of (order_of s) (mzip_header_bytes LE h' @ rest)) = swap32_if s (hdr_loader_addr h)"
proof -
  let ?h = "if s then mzip_swap h else h"
  have wfh: "mzip_wf ?h" using assms(1) by (simp add: mzip_swap_wf)
  obtain h1 c d where res: "seal_header s seg (of_nat (length seg)) ?h = (h1, c, d)"
    and h1: "h1 = ?h\<lparr>hdr_crc_code := swap16_if s d, hdr_crc_header := swap16_if s c\<rparr>"
    and c: "c = crc_division 0 (take 0x36 (mzip_header_bytes LE h1))"
    and d: "d = crc_division 0 (drop 0x38 (mzip_header_bytes LE h1) @ seg)"
    using seal_header_eq [OF wfh assms(2), of s] by (elim exE conjE)
  have h': "h' = h1" by (simp add: h'_def img_seal_eq [OF assms(1)] res)
  have "mzip_wf (?h\<lparr>hdr_crc_code := u, hdr_crc_header := v\<rparr>)" for u v using wfh by (simp add: mzip_wf_def)
  then show wf: "mzip_wf h'" unfolding h' h1 .
  have len: "length (mzip_header_bytes LE h') = 112"
    using length_mzip_header_bytes [OF wf] by (simp add: MZIP_HDR_SIZE_def)
  note le = mzip_header_roundtrip [OF wf, of LE]
  have at: "hdr_crc_header (mzip_header_of (order_of s) bs) = swap16_if s (hdr_crc_header (mzip_header_of LE bs))"
    "hdr_crc_code (mzip_header_of (order_of s) bs) = swap16_if s (hdr_crc_code (mzip_header_of LE bs))"
    "hdr_entrypt (mzip_header_of (order_of s) bs) = swap32_if s (hdr_entrypt (mzip_header_of LE bs))"
    "hdr_loader_addr (mzip_header_of (order_of s) bs) = swap32_if s (hdr_loader_addr (mzip_header_of LE bs))"
    "hdr_memory_image_size (mzip_header_of (order_of s) bs) = swap32_if s (hdr_memory_image_size (mzip_header_of LE bs))" for bs
    by (simp_all only: mzip_header_of_def mzip_header.select_convs u32_of_order u16_of_order)
  have crc: "hdr_crc_header h' = swap16_if s c" "hdr_crc_code h' = swap16_if s d"
    unfolding h' h1 by simp_all
  have fields: "hdr_entrypt h' = swap32_if s (hdr_entrypt h)" "hdr_loader_addr h' = hdr_loader_addr h"
    "hdr_memory_image_size h' = swap32_if s (hdr_memory_image_size h)"
    unfolding h' h1 by (simp_all add: mzip_swap_def swap32_if_def)
  show "image_verifies (order_of s) (mzip_header_bytes LE h' @ seg)"
    using c [folded h'] d [folded h'] len unfolding image_verifies_def at le crc by simp
  show "hdr_entrypt (mzip_header_of (order_of s) (mzip_header_bytes LE h' @ rest)) = hdr_entrypt h"
    and "hdr_memory_image_size (mzip_header_of (order_of s) (mzip_header_bytes LE h' @ rest)) = hdr_memory_image_size h"
    and "hdr_loader_addr (mzip_header_of (order_of s) (mzip_header_bytes LE h' @ rest)) = swap32_if s (hdr_loader_addr h)"
    unfolding at le fields by simp_all
qed

lemma img_write_mzip_good:
  assumes "can_create w out" and "disk w descr = Some txt" "descr \<noteq> out" and "heap w (length txt) \<noteq> None"
    and "mzip_codeseg_build Z img = Some (seg, n)" and "length seg < 2 ^ 32"
  shows "\<exists>w' h. img_write Z name out descr True hdr s img lo w = Exit w' 0 \<and>
    disk w' out = Some (mzip_header_bytes LE h @ seg @ txt) \<and> mzip_wf h \<and>
    h = img_seal s seg n (img_mzip_header hdr lo (of_nat (length img)) n)"
proof -
  define h where "h = img_seal s seg n (img_mzip_header hdr lo (of_nat (length img)) n)"
  have n: "n = of_nat (length seg)" using codeseg_built [OF assms(5)] by simp
  have "mzip_wf (img_mzip_header hdr lo (of_nat (length img)) n)"
    using mzip_blank_wf by (simp add: img_mzip_header_def mzip_wf_def)
  from img_seal_image(1) [OF this assms(6)] have wf: "mzip_wf h" by (simp add: h_def n)
  have seg: "take (unat n) seg = seg" using assms(6) by (simp add: n)
  have "fwrite txt (fseek_end (mzip_write_codeseg seg (mzip_write_header h (stream_of [])))) = mzip_write h seg [txt] (stream_of [])"
    by (simp add: mzip_write_def mzip_write_footer_def)
  then have bytes: "s_bytes (fwrite txt (fseek_end (mzip_write_codeseg seg (mzip_write_header h (stream_of []))))) =
      mzip_header_bytes LE h @ seg @ txt"
    using mzip_write_bytes [OF wf] by simp
  have "disk (mzip_print_header g v) = disk v" "heap (mzip_print_header g v) = heap v" for g v
    by (simp_all add: mzip_print_header_def)
  then have "\<exists>w'. img_write Z name out descr True hdr s img lo w = Exit w' 0 \<and> disk w' out = Some (mzip_header_bytes LE h @ seg @ txt)"
    using assms(1-4) bytes
    by (auto simp: img_write_def img_write_mzip_def assms(5) Let_def seg store_file_def h_def [symmetric])
  then show ?thesis using wf h_def by blast
qed

section \<open>Which runs end well\<close>

lemma img_fail_end: "img_fail name fmt args w \<noteq> Inr x" "img_fail name fmt args w \<noteq> Inl (Exit w' 0)"
  by (simp_all add: img_fail_def)

lemma img_header_end: "img_header name src elf0 w \<noteq> Inl (Exit w' 0)"
  by (simp add: img_header_def Let_def img_fail_end case_prod_unfold split: option.splits)

lemma img_phdrs_end: "img_phdrs name h s fp w \<noteq> Inl (Exit w' 0)"
  by (simp add: img_phdrs_def Let_def img_fail_end case_prod_unfold split: option.splits)

lemma img_load_end: "img_load phs lo fp img \<noteq> Inl (Exit w' k)"
  by (induction phs lo fp img rule: img_load.induct) (auto simp: Let_def split: prod.splits)

lemma img_build_end: "img_build name phdrs fp w \<noteq> Inl (Exit w' 0)"
  by (auto simp: img_build_def Let_def img_fail_end bindE_Inl_iff img_load_end split: option.splits prod.splits)

text \<open>A run that exits with 0 has got as far as writing.\<close>

lemma elf2img_main_ok:
  assumes "elf2img_main Z elf0 argv w = Exit w' 0" and "parse_args argv w = Inr (src, dst, descr, m, w1)"
  shows "\<exists>hdr s img lo. img_write Z (argv ! 0) dst descr m hdr s img lo w1 = Exit w' 0"
proof (cases "img_header (argv ! 0) src elf0 w1")
  case (Inr r)
  obtain hdr s fp where r: "r = (hdr, s, fp)" by (metis prod_cases3)
  show ?thesis
  proof (cases "img_phdrs (argv ! 0) hdr s fp w1")
    case (Inr r2)
    obtain phdrs fp2 where r2: "r2 = (phdrs, fp2)" by (cases r2)
    show ?thesis
      using assms(1) \<open>img_header (argv ! 0) src elf0 w1 = Inr r\<close> Inr img_build_end [of "argv ! 0" phdrs fp2 w1 w']
      unfolding elf2img_main_def assms(2) r r2
      by (cases "img_build (argv ! 0) phdrs fp2 w1") (auto split: prod.splits)
  qed (use assms \<open>img_header (argv ! 0) src elf0 w1 = Inr r\<close> img_phdrs_end r in \<open>auto simp: elf2img_main_def\<close>)
qed (use assms img_header_end in \<open>auto simp: elf2img_main_def\<close>)

text \<open>A run without \<^verbatim>\<open>-m\<close> on a sound file.\<close>

lemma elf2img_main_raw:
  assumes "3 \<le> length argv" and "''-m'' \<notin> set (tl argv)" and "disk w (argv ! (length argv - 3)) = Some bs" and "sound_file bs"
    and "length elf0 = 52" and "img_bounds (file_phdrs (file_order bs) bs) = (lo, hi)" and "hi - lo \<noteq> 1"
    and "img_memory w bs (unat (hi - lo))" and "can_create w (argv ! (length argv - 2))"
  shows "\<exists>w' img. elf2img_main Z elf0 argv w = Exit w' 0 \<and> disk w' = (disk w)(argv ! (length argv - 2) := Some img) \<and>
    length img = unat (hi - lo) \<and> (\<forall>ph \<in> set (load_phdrs (file_order bs) bs). holds_segment bs lo img ph)"
proof -
  obtain img w1 where run: "elf2img_main Z elf0 argv w =
      img_write Z (argv ! 0) (argv ! (length argv - 2)) (argv ! (length argv - 1)) (''-m'' \<in> set (tl argv))
        (elf32_header_of (file_order bs) bs) (bs ! 5 = ELF_DATA_MSB) img lo w1"
      "disk w1 = disk w" "can_create w1 = can_create w" "length img = unat (hi - lo)"
      "\<forall>ph \<in> set (load_phdrs (file_order bs) bs). holds_segment bs lo img ph"
    using elf2img_main_image [OF assms(1,3-8), of Z] by (elim exE conjE)
  then show ?thesis using img_write_raw [of w1 "argv ! (length argv - 2)"] assms(2,9) by auto
qed

section \<open>A small kernel\<close>

definition img_sample_zip :: zip_env where
  "img_sample_zip = \<lparr>zip_opens = True, zip_source_made = True, zip_added = True, zip_file = (\<lambda>b. Some (take 9 b)),
     zip_stat_ok = True, zip_alloc_ok = True\<rparr>"

definition img_sample_world :: world where
  "img_sample_world = \<lparr>disk = [''k'' \<mapsto> sample_kernel, ''text'' \<mapsto> [67, 73]], unlink_error = (\<lambda>_. None),
     can_create = (\<lambda>_. True), heap = (\<lambda>n. Some (replicate n 7)), printed = []\<rparr>"

lemma sample_kernel_order: "file_order sample_kernel = BE" "(sample_kernel ! 5 = ELF_DATA_MSB) = True"
  by code_simp+

lemma sample_phdrs:
  "file_phdrs BE sample_kernel = [\<lparr>ph_type = 1, ph_offset = 84, ph_vaddr = 0x80030000, ph_paddr = 0x80030000, ph_filesz = 4,
     ph_memsz = 8, ph_flags = 5, ph_align = 4\<rparr>]"
  by code_simp

lemma sample_sound: "sound_file sample_kernel"
proof -
  have hdr: "eh_phnum (elf32_header_of BE sample_kernel) = 1" "eh_phoff (elf32_header_of BE sample_kernel) = 52"
    by code_simp+
  have "length sample_kernel = 88" "take 4 sample_kernel = ELF_MAGIC"
    by (simp_all add: sample_kernel_def ELF_MAGIC_def)
  then show ?thesis
    unfolding sound_file_def Let_def file_order_def [symmetric] sample_kernel_order(1)
    by (simp add: hdr load_phdrs_def sample_phdrs sound_segments_def)
qed

lemma sample_bounds: "img_bounds (file_phdrs BE sample_kernel) = (0x80030000, 0x80030008)"
  unfolding sample_phdrs by code_simp

lemma sample_memory: "img_memory img_sample_world sample_kernel 8"
  by (simp add: img_memory_def img_sample_world_def)

lemma sample_segment_image:
  "segment_image sample_kernel \<lparr>ph_type = 1, ph_offset = 84, ph_vaddr = 0x80030000, ph_paddr = 0x80030000, ph_filesz = 4,
     ph_memsz = 8, ph_flags = 5, ph_align = 4\<rparr> = [0x3c, 8, 0x80, 3, 0, 0, 0, 0]"
  by code_simp

text \<open>The tool itself as its input, as it happens when the description is left out.\<close>

lemma sample_two_arguments:
  "\<exists>w'. elf2img_main img_sample_zip (replicate 52 0) [''elf2img'', ''k'', ''k.img'']
     (img_sample_world\<lparr>disk := [''elf2img'' \<mapsto> sample_kernel, ''k'' \<mapsto> [1, 2, 3]]\<rparr>) = Exit w' 0"
proof -
  let ?argv = "[''elf2img'', ''k'', ''k.img'']" and ?w = "img_sample_world\<lparr>disk := [''elf2img'' \<mapsto> sample_kernel, ''k'' \<mapsto> [1, 2, 3]]\<rparr>"
  have args: "?argv ! (length ?argv - 3) = ''elf2img''" "?argv ! (length ?argv - 2) = ''k''" by simp_all
  have "img_memory ?w sample_kernel 8" by (simp add: img_memory_def img_sample_world_def)
  then show ?thesis
    using elf2img_main_raw [of ?argv ?w sample_kernel "replicate 52 0" "0x80030000" "0x80030008" img_sample_zip,
        unfolded args sample_kernel_order(1) sample_bounds]
    by (auto simp: sample_sound img_sample_world_def)
qed

text \<open>The small kernel with a note in place of its segment.\<close>

lemma sample_no_segment:
  "sound_file (sample_kernel[55 := 4])" "load_phdrs (file_order (sample_kernel[55 := 4])) (sample_kernel[55 := 4]) = []"
proof -
  let ?k = "sample_kernel[55 := 4]"
  have order: "file_order ?k = BE" by code_simp
  have hdr: "eh_phnum (elf32_header_of BE ?k) = 1" "eh_phoff (elf32_header_of BE ?k) = 52" by code_simp+
  show none: "load_phdrs (file_order ?k) ?k = []" unfolding order by code_simp
  have "length ?k = 88" "take 4 ?k = ELF_MAGIC" by (simp_all add: sample_kernel_def ELF_MAGIC_def)
  then show "sound_file ?k"
    unfolding sound_file_def Let_def file_order_def [symmetric] none unfolding order
    by (simp add: hdr sound_segments_def)
qed

section \<open>Properties\<close>

text \<open>C14: without \<^verbatim>\<open>-m\<close> the tool writes the memory image of a sound ELF file: it reaches from the
  lowest address of a loadable segment to the end of the highest, and holds every segment at
  its address, with zeros behind the file part.\<close>

theorem elf2img_raw_image:
  assumes "3 \<le> length argv" and "''-m'' \<notin> set (tl argv)" and "disk w (argv ! (length argv - 3)) = Some bs" and "sound_file bs"
    and "length elf0 = 52" and "img_bounds (file_phdrs (file_order bs) bs) = (lo, hi)" and "hi - lo \<noteq> 1"
    and "img_memory w bs (unat (hi - lo))" and "can_create w (argv ! (length argv - 2))"
  shows "\<exists>w' img. elf2img_main Z elf0 argv w = Exit w' 0 \<and> disk w' = (disk w)(argv ! (length argv - 2) := Some img) \<and>
    length img = unat (hi - lo) \<and> (\<forall>ph \<in> set (load_phdrs (file_order bs) bs). holds_segment bs lo img ph)"
  by (rule elf2img_main_raw [OF assms])

lemma elf2img_raw_image_witness:
  "\<exists>w' img. elf2img_main img_sample_zip (replicate 52 0) [''elf2img'', ''k'', ''k.img'', ''text''] img_sample_world = Exit w' 0 \<and>
     disk w' ''k.img'' = Some img \<and> take 8 img = [0x3c, 8, 0x80, 3, 0, 0, 0, 0]"
proof -
  let ?argv = "[''elf2img'', ''k'', ''k.img'', ''text'']"
  have args: "?argv ! (length ?argv - 3) = ''k''" "?argv ! (length ?argv - 2) = ''k.img''" by (simp_all add: numeral_2_eq_2)
  note run = elf2img_raw_image [of ?argv img_sample_world sample_kernel "replicate 52 0" "0x80030000" "0x80030008" img_sample_zip,
      unfolded args sample_kernel_order(1) sample_bounds]
  have "\<exists>w' img. elf2img_main img_sample_zip (replicate 52 0) ?argv img_sample_world = Exit w' 0 \<and>
      disk w' = (disk img_sample_world)(''k.img'' := Some img) \<and> length img = unat (0x80030008 - 0x80030000 :: u32) \<and>
      (\<forall>ph \<in> set (load_phdrs BE sample_kernel). holds_segment sample_kernel 0x80030000 img ph)"
    by (rule run) (use sample_memory in \<open>simp_all add: sample_sound img_sample_world_def\<close>)
  then show ?thesis
    by (simp add: load_phdrs_def sample_phdrs ELF_PT_LOAD_def holds_segment_def sample_segment_image) auto
qed





text \<open>An ELF file without a loadable segment is refused, with -1 and nothing written, because the
  size of the image wraps around to 1; an image of one byte is refused the same way.\<close>

theorem elf2img_refuses_size_one:
  assumes "3 \<le> length argv" and "disk w (argv ! (length argv - 3)) = Some bs" and "sound_file bs" and "length elf0 = 52"
    and "img_memory w bs 0"
    and "load_phdrs (file_order bs) bs = [] \<or> (\<exists>lo. img_bounds (file_phdrs (file_order bs) bs) = (lo, lo + 1))"
  shows "\<exists>w'. elf2img_main Z elf0 argv w = Exit w' (-1) \<and> disk w' = disk w"
proof -
  let ?phdrs = "file_phdrs (file_order bs) bs"
  obtain fp w1 where run: "elf2img_main Z elf0 argv w =
      (case img_build (argv ! 0) ?phdrs fp w1 of Inl e \<Rightarrow> e
       | Inr (img, lo) \<Rightarrow> img_write Z (argv ! 0) (argv ! (length argv - 2)) (argv ! (length argv - 1)) (''-m'' \<in> set (tl argv))
           (elf32_header_of (file_order bs) bs) (bs ! 5 = ELF_DATA_MSB) img lo w1)" "disk w1 = disk w"
    using elf2img_main_read [OF assms(1-5), of Z] by blast
  have "\<exists>lo. img_bounds ?phdrs = (lo, lo + 1)"
    using assms(6) img_bounds_none [of ?phdrs] by (auto simp: load_phdrs_def)
  then show ?thesis unfolding run(1) using run(2) by (auto simp: img_build_def img_fail_def img_usage_def)
qed

lemma elf2img_refuses_size_one_witness:
  "\<exists>w'. elf2img_main img_sample_zip (replicate 52 0) [''elf2img'', ''k'', ''k.img'', ''text'']
     (img_sample_world\<lparr>disk := [''k'' \<mapsto> sample_kernel[55 := 4]]\<rparr>) = Exit w' (-1) \<and> disk w' ''k.img'' = None"
proof -
  let ?argv = "[''elf2img'', ''k'', ''k.img'', ''text'']" and ?w = "img_sample_world\<lparr>disk := [''k'' \<mapsto> sample_kernel[55 := 4]]\<rparr>"
  have "\<exists>w'. elf2img_main img_sample_zip (replicate 52 0) ?argv ?w = Exit w' (-1) \<and> disk w' = disk ?w"
    by (rule elf2img_refuses_size_one [OF _ _ sample_no_segment(1) _ _ disjI1 [OF sample_no_segment(2)]])
      (simp_all add: img_sample_world_def img_memory_def)
  then show ?thesis by auto
qed

end
