(* ===== verification/Layouts.thy ===== *)
theory Layouts
  imports Elf2img
begin

text \<open>
  The C structures as they are declared, and where the rules of C put their fields. The other
  theories read and write structures at fixed offsets; here the declarations of the headers are
  data, the layout of the application binary interface is a function, and the fixed offsets and
  sizes are shown to be the ones it gives. The headers of the image tools and of the
  boot loader are compared, and the reading of 64-bit headers on a 32-bit target is explained.
\<close>

section \<open>Declarations\<close>

text \<open>The integer types of \<^verbatim>\<open>types.h\<close> (signed ones and \<^verbatim>\<open>char\<close> have the width of the unsigned ones) and pointers; \<open>uint64_t\<close> is \<open>unsigned long\<close>, whose width depends on the
  target: 32 bits on the routers, 64 on a present-day host.\<close>

datatype ctype = Uint8 | Uint16 | Uint32 | Ulong | Pointer | Array ctype nat

type_synonym decl = "(string \<times> ctype) list"

datatype abi = ILP32 | LP64

primrec csize :: "abi \<Rightarrow> ctype \<Rightarrow> nat" where
  "csize A Uint8 = 1"
| "csize A Uint16 = 2"
| "csize A Uint32 = 4"
| "csize A Ulong = (case A of ILP32 \<Rightarrow> 4 | LP64 \<Rightarrow> 8)"
| "csize A Pointer = (case A of ILP32 \<Rightarrow> 4 | LP64 \<Rightarrow> 8)"
| "csize A (Array t n) = n * csize A t"

primrec calign :: "abi \<Rightarrow> ctype \<Rightarrow> nat" where
  "calign A Uint8 = 1"
| "calign A Uint16 = 2"
| "calign A Uint32 = 4"
| "calign A Ulong = (case A of ILP32 \<Rightarrow> 4 | LP64 \<Rightarrow> 8)"
| "calign A Pointer = (case A of ILP32 \<Rightarrow> 4 | LP64 \<Rightarrow> 8)"
| "calign A (Array t n) = calign A t"

definition round_up :: "nat \<Rightarrow> nat \<Rightarrow> nat" where
  "round_up k n = (n + (k - 1)) div k * k"

text \<open>Every field at the next multiple of its alignment; the whole padded to the largest one.\<close>

primrec place_fields :: "abi \<Rightarrow> nat \<Rightarrow> decl \<Rightarrow> (string \<times> ctype \<times> nat) list" where
  "place_fields A off [] = []"
| "place_fields A off (d # ds) =
     (let o1 = round_up (calign A (snd d)) off
      in (fst d, snd d, o1) # place_fields A (o1 + csize A (snd d)) ds)"

primrec fields_end :: "abi \<Rightarrow> nat \<Rightarrow> decl \<Rightarrow> nat" where
  "fields_end A off [] = off"
| "fields_end A off (d # ds) = fields_end A (round_up (calign A (snd d)) off + csize A (snd d)) ds"

definition struct_align :: "abi \<Rightarrow> decl \<Rightarrow> nat" where
  "struct_align A ds = fold max (map (calign A \<circ> snd) ds) 1"

definition struct_size :: "abi \<Rightarrow> decl \<Rightarrow> nat" where
  "struct_size A ds = round_up (struct_align A ds) (fields_end A 0 ds)"

definition field_off :: "abi \<Rightarrow> decl \<Rightarrow> string \<Rightarrow> nat option" where
  "field_off A ds f = map_option snd (map_of (place_fields A 0 ds) f)"

text \<open>What a program finds in a field.\<close>

datatype cval = Value nat | Values "cval list"

fun u64_of :: "endian \<Rightarrow> u8 list \<Rightarrow> nat" where
  "u64_of BE bs = unat (u32_of BE bs) * 2 ^ 32 + unat (u32_of BE (drop 4 bs))"
| "u64_of LE bs = unat (u32_of LE (drop 4 bs)) * 2 ^ 32 + unat (u32_of LE bs)"

primrec cread :: "abi \<Rightarrow> endian \<Rightarrow> ctype \<Rightarrow> u8 list \<Rightarrow> cval" where
  "cread A e Uint8 bs = Value (unat (bs ! 0))"
| "cread A e Uint16 bs = Value (unat (u16_of e bs))"
| "cread A e Uint32 bs = Value (unat (u32_of e bs))"
| "cread A e Ulong bs = Value (case A of ILP32 \<Rightarrow> unat (u32_of e bs) | LP64 \<Rightarrow> u64_of e bs)"
| "cread A e Pointer bs = Value (case A of ILP32 \<Rightarrow> unat (u32_of e bs) | LP64 \<Rightarrow> u64_of e bs)"
| "cread A e (Array t n) bs = Values (map (\<lambda>i. cread A e t (drop (i * csize A t) bs)) [0..<n])"

definition read_struct :: "abi \<Rightarrow> endian \<Rightarrow> decl \<Rightarrow> u8 list \<Rightarrow> (string \<times> cval) list" where
  "read_struct A e ds bs = map (\<lambda>(f, t, k). (f, cread A e t (drop k bs))) (place_fields A 0 ds)"

definition num_field :: "abi \<Rightarrow> endian \<Rightarrow> decl \<Rightarrow> u8 list \<Rightarrow> string \<Rightarrow> nat" where
  "num_field A e ds bs f = (case map_of (read_struct A e ds bs) f of Some (Value n) \<Rightarrow> n | _ \<Rightarrow> 0)"

section \<open>The headers\<close>

text \<open>\<^verbatim>\<open>include/elf.h\<close>.\<close>

definition elf32_header_decl :: decl where
  "elf32_header_decl =
     [(''ident'', Array Uint8 16), (''type'', Uint16), (''machine'', Uint16), (''version'', Uint32),
      (''entry'', Uint32), (''phoff'', Uint32), (''shoff'', Uint32), (''flags'', Uint32), (''ehsize'', Uint16),
      (''phentsize'', Uint16), (''phnum'', Uint16), (''shentsize'', Uint16), (''shnum'', Uint16), (''shstrndx'', Uint16)]"

definition elf64_hdr_decl :: decl where
  "elf64_hdr_decl =
     [(''e_ident'', Array Uint8 16), (''e_type'', Uint16), (''e_machine'', Uint16), (''e_version'', Uint32),
      (''e_entry'', Ulong), (''e_phoff'', Ulong), (''e_shoff'', Ulong), (''e_flags'', Uint32), (''e_ehsize'', Uint16),
      (''e_phentsize'', Uint16), (''e_phnum'', Uint16), (''e_shentsize'', Uint16), (''e_shnum'', Uint16), (''e_shstrndx'', Uint16)]"

definition elf32_section_header_decl :: decl where
  "elf32_section_header_decl =
     [(''name'', Uint32), (''type'', Uint32), (''flags'', Uint32), (''addr'', Uint32), (''offset'', Uint32), (''size'', Uint32),
      (''link'', Uint32), (''info'', Uint32), (''addralign'', Uint32), (''entsize'', Uint32)]"

definition elf64_shdr_decl :: decl where
  "elf64_shdr_decl =
     [(''sh_name'', Uint32), (''sh_type'', Uint32), (''sh_flags'', Ulong), (''sh_addr'', Ulong), (''sh_offset'', Ulong),
      (''sh_size'', Ulong), (''sh_link'', Uint32), (''sh_info'', Uint32), (''sh_addralign'', Ulong), (''sh_entsize'', Ulong)]"

definition elf32_sym_table_entry_decl :: decl where
  "elf32_sym_table_entry_decl =
     [(''name'', Uint32), (''value'', Uint32), (''size'', Uint32), (''info'', Uint8), (''other'', Uint8), (''shndx'', Uint16)]"

definition elf32_rel_decl :: decl where
  "elf32_rel_decl = [(''offset'', Uint32), (''info'', Uint32)]"

definition elf32_rel_add_decl :: decl where
  "elf32_rel_add_decl = [(''offset'', Uint32), (''info'', Uint32), (''addend'', Uint32)]"

definition elf32_phdr_decl :: decl where
  "elf32_phdr_decl =
     [(''type'', Uint32), (''offset'', Uint32), (''vaddr'', Uint32), (''paddr'', Uint32), (''filesz'', Uint32), (''memsz'', Uint32),
      (''flags'', Uint32), (''align'', Uint32)]"

definition elf64_phdr_decl :: decl where
  "elf64_phdr_decl =
     [(''p_type'', Uint32), (''p_flags'', Uint32), (''p_offset'', Ulong), (''p_vaddr'', Ulong), (''p_paddr'', Ulong),
      (''p_filesz'', Ulong), (''p_memsz'', Ulong), (''p_align'', Ulong)]"

text \<open>The copy \<^verbatim>\<open>elf2mzip/elf.h\<close> that the image tools are built with.\<close>

definition tool_elf32_header_decl :: decl where
  "tool_elf32_header_decl =
     [(''ident'', Array Uint8 16), (''type'', Uint16), (''machine'', Uint16), (''version'', Uint32),
      (''entry'', Uint32), (''phoff'', Uint32), (''shoff'', Uint32), (''flags'', Uint32), (''ehsize'', Uint16),
      (''phentsize'', Uint16), (''phnum'', Uint16), (''shentsize'', Uint16), (''shnum'', Uint16), (''shstrndx'', Uint16)]"

definition tool_elf32_section_header_decl :: decl where
  "tool_elf32_section_header_decl =
     [(''name'', Uint32), (''type'', Uint32), (''flags'', Uint32), (''addr'', Uint32), (''offset'', Uint32), (''size'', Uint32),
      (''link'', Uint32), (''info'', Uint32), (''addralign'', Uint32), (''entsize'', Uint32)]"

definition tool_elf32_sym_table_entry_decl :: decl where
  "tool_elf32_sym_table_entry_decl =
     [(''name'', Uint32), (''value'', Uint32), (''size'', Uint32), (''info'', Uint8), (''other'', Uint8), (''shndx'', Uint16)]"

definition tool_elf32_rel_decl :: decl where
  "tool_elf32_rel_decl = [(''offset'', Uint32), (''info'', Uint32)]"

definition tool_elf32_rel_add_decl :: decl where
  "tool_elf32_rel_add_decl = [(''offset'', Uint32), (''info'', Uint32), (''addend'', Uint32)]"

definition tool_elf32_phdr_decl :: decl where
  "tool_elf32_phdr_decl =
     [(''type'', Uint32), (''offset'', Uint32), (''vaddr'', Uint32), (''paddr'', Uint32), (''filesz'', Uint32), (''memsz'', Uint32),
      (''flags'', Uint32), (''align'', Uint32)]"

text \<open>\<^verbatim>\<open>elf2mzip/mzip.h\<close> and the flash directories of the three boards.\<close>

definition mzip_header_decl :: decl where
  "mzip_header_decl =
     [(''hdr_magic'', Array Uint8 4), (''hdr_version'', Uint32), (''hdr_entrypt'', Uint32), (''hdr_flags1'', Uint32),
      (''hdr_flags2'', Uint32), (''hdr_padding1'', Array Uint32 8), (''hdr_crc_code'', Uint16), (''hdr_crc_header'', Uint16),
      (''hdr_header_size'', Uint32), (''hdr_loader_addr'', Uint32), (''hdr_flags3'', Uint32), (''hdr_code_packed_size'', Uint32),
      (''hdr_code_unpacked_size'', Uint32), (''hdr_memory_image_size'', Uint32), (''hdr_padding2'', Array Uint32 8)]"

definition c3600_fs_ent_decl :: decl where
  "c3600_fs_ent_decl =
     [(''magic'', Uint32), (''length'', Uint32), (''crc32'', Uint32), (''date'', Uint32), (''filename'', Array Uint8 48)]"

definition c1700_fs_ent_decl :: decl where
  "c1700_fs_ent_decl =
     [(''magic'', Uint32), (''length'', Uint32), (''crc32'', Uint32), (''date'', Uint32), (''filename'', Array Uint8 48)]"

definition c7200_fs_ent_decl :: decl where
  "c7200_fs_ent_decl =
     [(''magic'', Uint32), (''fileno'', Uint32), (''filename'', Array Uint8 64), (''length'', Uint32), (''seek'', Uint32),
      (''crc32'', Uint32), (''type'', Uint32), (''date'', Uint32), (''sg01'', Uint32), (''sg02'', Uint32), (''sg03'', Uint32),
      (''sg04'', Uint32), (''sg05'', Uint32), (''sg06'', Uint32), (''sg07'', Uint32), (''sg08'', Uint32), (''sg09'', Uint32)]"

text \<open>An open file, and the storage device of \<^verbatim>\<open>storage.h\<close>, which declares two routines that are nowhere defined.\<close>

definition file_decl :: decl where
  "file_decl =
     [(''dev'', Uint8), (''file_len'', Uint32), (''file_pos'', Uint32), (''filename'', Array Uint8 128), (''code'', Uint8),
      (''private'', Pointer)]"

definition storage_class_decl :: decl where
  "storage_class_decl =
     [(''dev_id'', Uint32), (''dev_name'', Array Uint8 16), (''start_addr'', Uint32), (''next'', Pointer), (''prev'', Pointer)]"

fun fs_ent_decl :: "platform \<Rightarrow> decl" where
  "fs_ent_decl C1700 = c1700_fs_ent_decl"
| "fs_ent_decl C3600 = c3600_fs_ent_decl"
| "fs_ent_decl C7200 = c7200_fs_ent_decl"

lemmas decl_defs =
  elf32_header_decl_def elf64_hdr_decl_def elf32_section_header_decl_def elf64_shdr_decl_def elf32_sym_table_entry_decl_def
  elf32_rel_decl_def elf32_rel_add_decl_def elf32_phdr_decl_def elf64_phdr_decl_def mzip_header_decl_def
  c3600_fs_ent_decl_def c1700_fs_ent_decl_def c7200_fs_ent_decl_def

lemmas tool_decl_defs =
  tool_elf32_header_decl_def tool_elf32_section_header_decl_def tool_elf32_sym_table_entry_decl_def
  tool_elf32_rel_decl_def tool_elf32_rel_add_decl_def tool_elf32_phdr_decl_def

section \<open>The layout is one of C\<close>

text \<open>Fields are aligned, in order, and within the structure, so that no two share a byte.\<close>

lemma round_up_bounds: "0 < k \<Longrightarrow> n \<le> round_up k n \<and> k dvd round_up k n"
proof -
  assume k: "0 < k"
  have "n + (k - 1) = (n + (k - 1)) div k * k + (n + (k - 1)) mod k" by simp
  moreover have "(n + (k - 1)) mod k < k" using k by simp
  ultimately have "n + (k - 1) < round_up k n + k" unfolding round_up_def by linarith
  then show ?thesis using k by (simp add: round_up_def)
qed

lemma calign_pos: "0 < calign A t"
  by (induction t) (simp_all split: abi.split)

lemma fields_end_mono: "off \<le> fields_end A off ds"
proof (induction ds arbitrary: off)
  case (Cons d ds)
  have "off \<le> round_up (calign A (snd d)) off" using round_up_bounds [OF calign_pos] by blast
  also have "\<dots> \<le> fields_end A (round_up (calign A (snd d)) off + csize A (snd d)) ds"
    using Cons.IH by (rule le_trans [OF le_add1])
  finally show ?case by simp
qed simp

lemma place_fields_inside:
  "(f, t, k) \<in> set (place_fields A off ds) \<Longrightarrow> off \<le> k \<and> calign A t dvd k \<and> k + csize A t \<le> fields_end A off ds"
proof (induction ds arbitrary: off)
  case (Cons d ds)
  let ?o = "round_up (calign A (snd d)) off"
  have o: "off \<le> ?o" "calign A (snd d) dvd ?o" using round_up_bounds [OF calign_pos] by blast+
  show ?case
  proof (cases "(f, t, k) = (fst d, snd d, ?o)")
    case True
    then show ?thesis using o fields_end_mono [of "?o + csize A (snd d)" A ds] by simp
  next
    case False
    then have "(f, t, k) \<in> set (place_fields A (?o + csize A (snd d)) ds)" using Cons.prems by (auto simp: Let_def)
    from Cons.IH [OF this] show ?thesis using o by auto
  qed
qed simp

lemma place_fields_apart:
  "sorted_wrt (\<lambda>(f, t, k) (g, u, l). k + csize A t \<le> l) (place_fields A off ds)"
proof (induction ds arbitrary: off)
  case (Cons d ds)
  then show ?case using place_fields_inside by (fastforce simp: Let_def)
qed simp

lemma struct_size_bounds:
  "fields_end A 0 ds \<le> struct_size A ds" "struct_align A ds dvd struct_size A ds"
proof -
  have "k \<le> fold max xs k" for xs :: "nat list" and k by (induction xs arbitrary: k) (auto intro: order_trans [OF max.cobounded2])
  from this [of 1] have "0 < struct_align A ds" unfolding struct_align_def by (rule less_le_trans [OF zero_less_one])
  then show "fields_end A 0 ds \<le> struct_size A ds" "struct_align A ds dvd struct_size A ds"
    using round_up_bounds unfolding struct_size_def by blast+
qed

section \<open>The fixed offsets are those of the declarations\<close>

definition bytes_val :: "u8 list \<Rightarrow> cval" where
  "bytes_val bs = Values (map (\<lambda>b. Value (unat b)) bs)"

definition words_val :: "u32 list \<Rightarrow> cval" where
  "words_val ws = Values (map (\<lambda>w. Value (unat w)) ws)"

definition elf32_header_vals :: "elf32_header \<Rightarrow> (string \<times> cval) list" where
  "elf32_header_vals h =
     [(''ident'', bytes_val (eh_ident h)), (''type'', Value (unat (eh_type h))), (''machine'', Value (unat (eh_machine h))),
      (''version'', Value (unat (eh_version h))), (''entry'', Value (unat (eh_entry h))), (''phoff'', Value (unat (eh_phoff h))),
      (''shoff'', Value (unat (eh_shoff h))), (''flags'', Value (unat (eh_flags h))), (''ehsize'', Value (unat (eh_ehsize h))),
      (''phentsize'', Value (unat (eh_phentsize h))), (''phnum'', Value (unat (eh_phnum h))),
      (''shentsize'', Value (unat (eh_shentsize h))), (''shnum'', Value (unat (eh_shnum h))), (''shstrndx'', Value (unat (eh_shstrndx h)))]"

definition elf32_phdr_vals :: "elf32_phdr \<Rightarrow> (string \<times> cval) list" where
  "elf32_phdr_vals ph =
     [(''type'', Value (unat (ph_type ph))), (''offset'', Value (unat (ph_offset ph))), (''vaddr'', Value (unat (ph_vaddr ph))),
      (''paddr'', Value (unat (ph_paddr ph))), (''filesz'', Value (unat (ph_filesz ph))), (''memsz'', Value (unat (ph_memsz ph))),
      (''flags'', Value (unat (ph_flags ph))), (''align'', Value (unat (ph_align ph)))]"

definition elf32_section_header_vals :: "elf32_section_header \<Rightarrow> (string \<times> cval) list" where
  "elf32_section_header_vals sh =
     [(''name'', Value (unat (sh_name sh))), (''type'', Value (unat (sh_type sh))), (''flags'', Value (unat (sh_flags sh))),
      (''addr'', Value (unat (sh_addr sh))), (''offset'', Value (unat (sh_offset sh))), (''size'', Value (unat (sh_size sh))),
      (''link'', Value (unat (sh_link sh))), (''info'', Value (unat (sh_info sh))), (''addralign'', Value (unat (sh_addralign sh))),
      (''entsize'', Value (unat (sh_entsize sh)))]"

definition elf64_phdr_vals :: "elf64_phdr \<Rightarrow> (string \<times> cval) list" where
  "elf64_phdr_vals ph =
     [(''p_type'', Value (unat (p_type ph))), (''p_flags'', Value (unat (p_flags ph))), (''p_offset'', Value (unat (p_offset ph))),
      (''p_vaddr'', Value (unat (p_vaddr ph))), (''p_paddr'', Value (unat (p_paddr ph))), (''p_filesz'', Value (unat (p_filesz ph))),
      (''p_memsz'', Value (unat (p_memsz ph))), (''p_align'', Value (unat (p_align ph)))]"

definition mzip_header_vals :: "mzip_header \<Rightarrow> (string \<times> cval) list" where
  "mzip_header_vals h =
     [(''hdr_magic'', bytes_val (hdr_magic h)), (''hdr_version'', Value (unat (hdr_version h))), (''hdr_entrypt'', Value (unat (hdr_entrypt h))),
      (''hdr_flags1'', Value (unat (hdr_flags1 h))), (''hdr_flags2'', Value (unat (hdr_flags2 h))), (''hdr_padding1'', words_val (hdr_padding1 h)),
      (''hdr_crc_code'', Value (unat (hdr_crc_code h))), (''hdr_crc_header'', Value (unat (hdr_crc_header h))),
      (''hdr_header_size'', Value (unat (hdr_header_size h))), (''hdr_loader_addr'', Value (unat (hdr_loader_addr h))),
      (''hdr_flags3'', Value (unat (hdr_flags3 h))), (''hdr_code_packed_size'', Value (unat (hdr_code_packed_size h))),
      (''hdr_code_unpacked_size'', Value (unat (hdr_code_unpacked_size h))), (''hdr_memory_image_size'', Value (unat (hdr_memory_image_size h))),
      (''hdr_padding2'', words_val (hdr_padding2 h))]"

lemma bytes_val_read: "n \<le> length bs \<Longrightarrow> Values (map (\<lambda>i. Value (unat (drop i bs ! 0))) [0..<n]) = bytes_val (take n bs)"
  by (auto simp: bytes_val_def intro!: nth_equalityI)

lemma words_val_read: "Values (map (\<lambda>i. Value (unat (u32_of e (drop (i * 4) bs)))) [0..<n]) = words_val (words_of e n bs)"
  by (simp add: words_val_def words_of_def mult.commute del: u32_of.simps)

lemmas layout_simps = read_struct_def Let_def round_up_def struct_size_def struct_align_def field_off_def

lemma elf32_header_read:
  "16 \<le> length bs \<Longrightarrow> read_struct A e elf32_header_decl bs = elf32_header_vals (elf32_header_of e bs)"
  using bytes_val_read [of 16 bs]
  by (simp add: layout_simps elf32_header_decl_def elf32_header_vals_def elf32_header_of_def del: u32_of.simps u16_of.simps upt_rec_numeral)

lemma elf32_phdr_read: "read_struct A e elf32_phdr_decl bs = elf32_phdr_vals (elf32_phdr_of e bs)"
  by (simp add: layout_simps elf32_phdr_decl_def elf32_phdr_vals_def elf32_phdr_of_def del: u32_of.simps)

lemma elf32_section_header_read: "read_struct A e elf32_section_header_decl bs = elf32_section_header_vals (elf32_section_header_of e bs)"
  by (simp add: layout_simps elf32_section_header_decl_def elf32_section_header_vals_def elf32_section_header_of_def del: u32_of.simps)

lemma elf64_phdr_read: "read_struct ILP32 e elf64_phdr_decl bs = elf64_phdr_vals (elf64_phdr_of e bs)"
  by (simp add: layout_simps elf64_phdr_decl_def elf64_phdr_vals_def elf64_phdr_of_def del: u32_of.simps)

lemma elf64_hdr_read:
  "16 \<le> length bs \<Longrightarrow> read_struct ILP32 e elf64_hdr_decl bs = map (\<lambda>(f, v). (''e_'' @ f, v)) (elf32_header_vals (elf32_header_of e bs))"
  using bytes_val_read [of 16 bs]
  by (simp add: layout_simps elf64_hdr_decl_def elf32_header_vals_def elf32_header_of_def del: u32_of.simps u16_of.simps upt_rec_numeral)

lemma mzip_header_read:
  "4 \<le> length bs \<Longrightarrow> read_struct A e mzip_header_decl bs = mzip_header_vals (mzip_header_of e bs)"
  using bytes_val_read [of 4 bs] words_val_read [of e "drop 20 bs" 8] words_val_read [of e "drop 80 bs" 8]
  by (simp add: layout_simps mzip_header_decl_def mzip_header_vals_def mzip_header_of_def add.commute del: u32_of.simps u16_of.simps upt_rec_numeral)

lemma struct_sizes:
  "struct_size A elf32_header_decl = elf32_header_size" "struct_size A elf32_phdr_decl = elf32_phdr_size"
  "struct_size A elf32_section_header_decl = elf32_section_header_size"
  "struct_size ILP32 elf64_hdr_decl = elf32_header_size" "struct_size ILP32 elf64_phdr_decl = elf32_phdr_size"
  "struct_size A mzip_header_decl = MZIP_HDR_SIZE" "struct_size A (fs_ent_decl p) = unat (fs_ent_size p)"
  by (simp_all add: layout_simps decl_defs elf32_header_size_def elf32_phdr_size_def elf32_section_header_size_def MZIP_HDR_SIZE_def)
    (cases p; simp add: layout_simps decl_defs)

text \<open>These two depend on the width of a pointer; the first has padding behind \<open>dev\<close> and \<open>code\<close>.\<close>

lemma other_structs:
  "place_fields ILP32 0 file_decl =
     [(''dev'', Uint8, 0), (''file_len'', Uint32, 4), (''file_pos'', Uint32, 8), (''filename'', Array Uint8 128, 12),
      (''code'', Uint8, 140), (''private'', Pointer, 144)]"
  "struct_size ILP32 file_decl = 148" "struct_size ILP32 storage_class_decl = 32" "struct_size LP64 storage_class_decl = 40"
  by (simp_all add: layout_simps file_decl_def storage_class_decl_def)

text \<open>On all three boards the size of an entry and the offset of its length are multiples of four.\<close>

lemma entries_aligned: "\<forall>p. 4 dvd unat (fs_ent_size p) \<and> 4 dvd unat (fs_ent_length_off p)"
  by code_simp

lemma fs_ent_offsets:
  "field_off A (fs_ent_decl p) ''magic'' = Some 0" "field_off A (fs_ent_decl p) ''length'' = Some (unat (fs_ent_length_off p))"
  "field_off A (fs_ent_decl p) ''filename'' = Some (unat (fs_ent_filename_off p))"
  "map_of (fs_ent_decl p) ''filename'' = Some (Array Uint8 (unat (filename_width p)))"
  by (cases p; simp add: layout_simps decl_defs)+

section \<open>The numbers of the header and their names\<close>

definition elf_file_types :: "(string \<times> u16) list" where
  "elf_file_types =
     [(''NONE'', 0), (''REL'', 1), (''EXEC'', 2), (''DYN'', 3), (''CORE'', 4), (''LOPROC'', 0xff00), (''HIPROC'', 0xffff)]"

definition elf_machine_types :: "(string \<times> u16) list" where
  "elf_machine_types =
     [(''NONE'', 0), (''M32'', 1), (''SPARC'', 2), (''386'', 3), (''68K'', 4), (''88K'', 5), (''860'', 7), (''MIPS'', 8), (''MIPS_R4K_BE'', 10)]"

definition elf_section_types :: "(string \<times> u32) list" where
  "elf_section_types =
     [(''NULL'', 0), (''PROGBITS'', 1), (''SYMTAB'', 2), (''STRTAB'', 3), (''RELA'', 4), (''HASH'', 5), (''DYNAMIC'', 6),
      (''NOTE'', 7), (''NOBITS'', 8), (''REL'', 9), (''SHLIB'', 10), (''DYNSYM'', 11),
      (''LOPROC'', 0x70000000), (''HIPROC'', 0x7fffffff), (''LOUSER'', 0x80000000), (''HIUSER'', 0xffffffff)]"

definition elf_segment_types :: "(string \<times> u32) list" where
  "elf_segment_types =
     [(''NULL'', 0), (''LOAD'', 1), (''DYNAMIC'', 2), (''INTERP'', 3), (''NOTE'', 4), (''SHLIB'', 5), (''PHDR'', 6),
      (''LOPROC'', 0x70000000), (''HIPROC'', 0x7fffffff)]"

text \<open>The elftool's tables, indexed by these numbers, name every type below the processor-specific ones, and
  every machine of the header has a name.\<close>

lemma names_of_header:
  "map (\<lambda>(n, v). file_type_to_string v) (take 5 elf_file_types) = e_types"
  "list_all (\<lambda>(n, v). machine_id_to_string v \<noteq> None) elf_machine_types"
  "list_all (\<lambda>(n, v). sh_type_to_string v = ''SHT_'' @ n) (take 12 elf_section_types)"
  "list_all (\<lambda>(n, v). segment_type_to_string v = ''PT_'' @ n) (take 7 elf_segment_types)"
  by (simp_all add: elf_file_types_def elf_machine_types_def elf_section_types_def elf_segment_types_def
      file_type_to_string_def e_types_def machine_id_to_string_None sh_type_to_string_def segment_type_to_string_def)

section \<open>A 64-bit header on a 32-bit target\<close>

lemma num_field_header:
  assumes "64 \<le> length bs"
  shows "num_field LP64 BE elf64_hdr_decl bs ''e_entry'' = unat (u32_of BE (drop 24 bs)) * 2 ^ 32 + unat (u32_of BE (drop 28 bs))"
    and "num_field LP64 BE elf64_hdr_decl bs ''e_phoff'' = unat (u32_of BE (drop 32 bs)) * 2 ^ 32 + unat (u32_of BE (drop 36 bs))"
    and "num_field LP64 BE elf64_hdr_decl bs ''e_shoff'' = unat (u32_of BE (drop 40 bs)) * 2 ^ 32 + unat (u32_of BE (drop 44 bs))"
    and "num_field LP64 BE elf64_hdr_decl bs ''e_phnum'' = unat (u16_of BE (drop 56 bs))"
  by (simp_all add: num_field_def layout_simps elf64_hdr_decl_def del: u32_of.simps u16_of.simps upt_rec_numeral)

lemma word_halves: "2 \<le> length bs \<Longrightarrow> unat (u32_of BE bs) = unat (u16_of BE bs) * 2 ^ 16 + unat (u16_of BE (drop 2 bs))"
proof -
  assume len: "2 \<le> length bs"
  have "be32 a b c d = push_bit 16 (ucast (be16 a b)) OR ucast (be16 c d)" for a b c d
    by (rule word_eq_by_bits [OF _ enum32]) (simp add: be32_def be16_def bit_simps)
  moreover have "unat (push_bit 16 (ucast (x :: u16)) OR ucast (y :: u16) :: u32) = unat x * 2 ^ 16 + unat y" for x y
  proof -
    have "push_bit 16 (ucast x) OR ucast y = (push_bit 16 (ucast x) + ucast y :: u32)"
      by (rule disjunctive_add_eq_or [symmetric]) (auto simp: bit_eq_iff bit_simps dest: bit_imp_le_length)
    moreover have "unat x < 65536" "unat y < 65536" by (rule less_le_trans [OF unsigned_less], simp)+
    then have "unat x * 65536 + unat y < 2 ^ 32" by simp
    moreover have "unat (ucast (z :: u16) :: u32) = unat z" for z
    proof -
      have "unat z < 2 ^ 32" by (rule less_le_trans [OF unsigned_less]) simp
      then show ?thesis by (simp add: unsigned_ucast_eq take_bit_nat_eq_self)
    qed
    ultimately show ?thesis by (simp add: unat_word_ariths push_bit_eq_mult)
  qed
  ultimately show ?thesis using len by simp
qed

text \<open>The header as the loader has it: the fields from the entry point on are those of other places.\<close>

lemma elf64_header_shifted:
  assumes "64 \<le> length bs"
  defines "h \<equiv> elf32_header_of BE bs"
  shows "unat (eh_entry h) = num_field LP64 BE elf64_hdr_decl bs ''e_entry'' div 2 ^ 32"
    and "unat (eh_phoff h) = num_field LP64 BE elf64_hdr_decl bs ''e_entry'' mod 2 ^ 32"
    and "unat (eh_phnum h) = num_field LP64 BE elf64_hdr_decl bs ''e_shoff'' mod 2 ^ 32 div 2 ^ 16"
proof -
  have less: "unat (u32_of BE xs) < 2 ^ 32" "unat (u16_of BE xs) < 2 ^ 16" for xs
    using unsigned_less [of "u32_of BE xs"] unsigned_less [of "u16_of BE xs"] by simp_all
  show "unat (eh_entry h) = num_field LP64 BE elf64_hdr_decl bs ''e_entry'' div 2 ^ 32"
    "unat (eh_phoff h) = num_field LP64 BE elf64_hdr_decl bs ''e_entry'' mod 2 ^ 32"
    using less by (simp_all add: h_def elf32_header_of_def num_field_header [OF assms(1)] del: u32_of.simps)
  show "unat (eh_phnum h) = num_field LP64 BE elf64_hdr_decl bs ''e_shoff'' mod 2 ^ 32 div 2 ^ 16"
  proof -
    have "num_field LP64 BE elf64_hdr_decl bs ''e_shoff'' mod 2 ^ 32 = unat (u32_of BE (drop 44 bs))"
      using less by (simp add: num_field_header [OF assms(1)] del: u32_of.simps)
    also have "\<dots> div 2 ^ 16 = unat (u16_of BE (drop 44 bs))"
      using less assms(1) by (simp add: word_halves [of "drop 44 bs"] del: u32_of.simps u16_of.simps)
    finally show ?thesis by (simp add: h_def elf32_header_of_def)
  qed
qed

lemma load_elf64_reads_header:
  assumes img: "image_at (mem st) (file_base (plat E) fp) bs" and len: "64 \<le> length bs" "file_len fp = of_nat (length bs)"
    and pl: "file_base (plat E) fp \<noteq> 0" "unat (file_base (plat E) fp) + length bs < 2 ^ 32" "hdr_at (frm E) \<noteq> 0"
      "apart (file_base (plat E) fp) (length bs) (hdr_at (frm E)) 52"
  defines "m1 \<equiv> mem_write (mem st) (hdr_at (frm E)) (take 52 bs)"
  shows "\<exists>fp1. cilo_read (plat E) (mem st) (hdr_at (frm E)) (of_nat elf32_header_size) 1 (cilo_seek fp 0 SEEK_SET) = (m1, fp1, 52)"
    and "elf64_hdr_at m1 (hdr_at (frm E)) = elf32_header_of BE bs"
proof -
  have base: "file_base (plat E) (cilo_seek fp 0 SEEK_SET) = file_base (plat E) fp" "file_pos (cilo_seek fp 0 SEEK_SET) = of_nat 0"
    by (simp_all add: cilo_seek_def file_base_def)
  note rd = local_read [of "mem st" "plat E" "cilo_seek fp 0 SEEK_SET" bs 0 52 "hdr_at (frm E)", unfolded base, OF img refl _ pl]
  show "\<exists>fp1. cilo_read (plat E) (mem st) (hdr_at (frm E)) (of_nat elf32_header_size) 1 (cilo_seek fp 0 SEEK_SET) = (m1, fp1, 52)"
    using rd(1) len by (simp add: m1_def elf32_header_size_def)
  show "elf64_hdr_at m1 (hdr_at (frm E)) = elf32_header_of BE bs"
    using rd(3) len elf32_header_of_take [of bs BE] by (simp add: elf64_hdr_at_def elf32_header_size_def m1_def)
qed

section \<open>Properties\<close>



text \<open>C34: the image tools and the boot loader, built with their own copies of the ELF header on different
  machines, see the same in a file: what elf2img has after its swap on a little-endian 64-bit host is what the
  big-endian 32-bit target reads.\<close>

theorem tools_and_loader_agree:
  assumes "16 \<le> length bs"
  shows "read_struct LP64 LE tool_elf32_header_decl bs = elf32_header_vals (elf32_header_of LE bs) \<and>
    elf32_header_vals (img_swap_elf32_header (elf32_header_of LE bs)) = read_struct ILP32 BE elf32_header_decl bs \<and>
    read_struct LP64 LE tool_elf32_phdr_decl bs = elf32_phdr_vals (elf32_phdr_of LE bs) \<and>
    elf32_phdr_vals (img_swap_elf32_program_header (elf32_phdr_of LE bs)) = read_struct ILP32 BE elf32_phdr_decl bs"
proof -
  have "tool_elf32_header_decl = elf32_header_decl" "tool_elf32_phdr_decl = elf32_phdr_decl"
    by (simp_all add: decl_defs tool_decl_defs)
  then show ?thesis using elf32_header_read [OF assms] elf32_phdr_read
    by (simp add: img_swap_eq swap_elf32_header_of swap_elf32_program_header_of)
qed

lemma tools_and_loader_agree_witness:
  "elf32_header_vals (img_swap_elf32_header (elf32_header_of LE sample_kernel)) = read_struct ILP32 BE elf32_header_decl sample_kernel"
  using tools_and_loader_agree [of sample_kernel] by (simp add: sample_kernel_def)

text \<open>C20: on the target \<^verbatim>\<open>uint64_t\<close> has 32 bits, so the header of a 64-bit file is misread: the loader takes the halves of
  the entry point for the entry point and the place of the program headers, and part of the place of the
  section headers for the number of program headers. A file with its section headers in the first 64 KiB is
  taken to have no segments, and nothing of it is loaded but the header.\<close>

theorem elf64_header_misread:
  assumes "image_at (mem st) (file_base (plat E) fp) bs" and "64 \<le> length bs" and "file_len fp = of_nat (length bs)"
    and "file_base (plat E) fp \<noteq> 0" and "unat (file_base (plat E) fp) + length bs < 2 ^ 32" and "hdr_at (frm E) \<noteq> 0"
    and "apart (file_base (plat E) fp) (length bs) (hdr_at (frm E)) 52"
  shows "\<exists>m1 fp1. cilo_read (plat E) (mem st) (hdr_at (frm E)) (of_nat elf32_header_size) 1 (cilo_seek fp 0 SEEK_SET) = (m1, fp1, 52) \<and>
    unat (eh_entry (elf64_hdr_at m1 (hdr_at (frm E)))) = num_field LP64 BE elf64_hdr_decl bs ''e_entry'' div 2 ^ 32 \<and>
    unat (eh_phoff (elf64_hdr_at m1 (hdr_at (frm E)))) = num_field LP64 BE elf64_hdr_decl bs ''e_entry'' mod 2 ^ 32 \<and>
    unat (eh_phnum (elf64_hdr_at m1 (hdr_at (frm E)))) = num_field LP64 BE elf64_hdr_decl bs ''e_shoff'' mod 2 ^ 32 div 2 ^ 16 \<and>
    (num_field LP64 BE elf64_hdr_decl bs ''e_shoff'' < 2 ^ 16 \<longrightarrow>
       (\<exists>st' fp'. load_elf64_file E st fp cmd_line = Some (st', fp', Returned) \<and>
          mem st' = mem_write (mem st) (hdr_at (frm E)) (take 52 bs)))"
proof -
  let ?m1 = "mem_write (mem st) (hdr_at (frm E)) (take 52 bs)" and ?h = "elf32_header_of BE bs"
  obtain fp1 where rd: "cilo_read (plat E) (mem st) (hdr_at (frm E)) (of_nat elf32_header_size) 1 (cilo_seek fp 0 SEEK_SET) = (?m1, fp1, 52)"
    and h: "elf64_hdr_at ?m1 (hdr_at (frm E)) = ?h"
    using load_elf64_reads_header [OF assms] by blast
  note shifted = elf64_header_shifted [OF assms(2)]
  have "eh_phnum ?h = 0" if "num_field LP64 BE elf64_hdr_decl bs ''e_shoff'' < 2 ^ 16"
    using shifted(3) that by (simp add: unat_eq_zero)
  then show ?thesis using load_elf64_file_result [OF rd, of cmd_line] rd shifted by (auto simp: h)
qed

text \<open>An ELF64 executable with one segment, entry point 0x80030000, program headers at 64 and section headers at 128.\<close>

definition sample_elf64 :: "u8 list" where
  "sample_elf64 =
     [0x7f, 0x45, 0x4c, 0x46, 2, 2, 1, 0, 0, 0, 0, 0, 0, 0, 0, 0, 0, 2, 0, 8, 0, 0, 0, 1,
      0, 0, 0, 0, 0x80, 3, 0, 0, 0, 0, 0, 0, 0, 0, 0, 64, 0, 0, 0, 0, 0, 0, 0, 128,
      0, 0, 0, 0, 0, 64, 0, 56, 0, 1, 0, 64, 0, 0, 0, 0]"

lemma elf64_header_misread_witness:
  "num_field LP64 BE elf64_hdr_decl sample_elf64 ''e_phoff'' = 64 \<and> num_field LP64 BE elf64_hdr_decl sample_elf64 ''e_phnum'' = 1 \<and>
   (\<exists>st fp st' fp'. image_at (mem st) 0x30000040 sample_elf64 \<and> load_elf64_file \<lparr>plat = C3600, rom = id, regs0 = \<lparr>a0 = 0, v0 = 0, r3 = 0\<rparr>,
      frm = \<lparr>hdr_at = 0x80010000, phdr_at = 0x80010100, printf_at = 0x80010200, lzma_props_at = 0, lzma_size_at = 0, lzma_buffer_at = 0,
        buf_at = 0, kernel_at = 0, main_hdr_at = 0, console_at = 0, lzma_at = 0\<rparr>\<rparr> st fp 0 = Some (st', fp', Returned) \<and>
      mem st' = mem_write (mem st) 0x80010000 (take 52 sample_elf64))"
proof -
  let ?E = "\<lparr>plat = C3600, rom = id, regs0 = \<lparr>a0 = 0, v0 = 0, r3 = 0\<rparr>,
      frm = \<lparr>hdr_at = 0x80010000, phdr_at = 0x80010100, printf_at = 0x80010200, lzma_props_at = 0, lzma_size_at = 0, lzma_buffer_at = 0,
        buf_at = 0, kernel_at = 0, main_hdr_at = 0, console_at = 0, lzma_at = 0\<rparr>\<rparr>"
  let ?st = "\<lparr>mem = mem_write (\<lambda>_. 0) 0x30000040 sample_elf64, con_in = [], con_out = []\<rparr>"
  let ?fp = "\<lparr>f_dev = 1, file_len = 64, file_pos = 0, f_name = [], f_code = 1, f_private = 0x30000000\<rparr>"
  have len: "length sample_elf64 = 64" by (simp add: sample_elf64_def)
  have base: "file_base (plat ?E) ?fp = 0x30000040" by (simp add: file_base_def)
  have img: "image_at (mem ?st) (file_base (plat ?E) ?fp) sample_elf64" unfolding base using mem_read_write_same [of sample_elf64 "\<lambda>_. 0" "0x30000040"] by (simp add: image_at_def len)
  have apart: "apart (file_base (plat ?E) ?fp) (length sample_elf64) (hdr_at (frm ?E)) 52" unfolding base len by (simp add: apart_def)
  have fields: "num_field LP64 BE elf64_hdr_decl sample_elf64 ''e_shoff'' = 128" "num_field LP64 BE elf64_hdr_decl sample_elf64 ''e_phoff'' = 64"
    "num_field LP64 BE elf64_hdr_decl sample_elf64 ''e_phnum'' = 1"
    using num_field_header [of sample_elf64] len by (simp_all add: sample_elf64_def be32_def be16_def)
  have "\<exists>st' fp'. load_elf64_file ?E ?st ?fp 0 = Some (st', fp', Returned) \<and>
      mem st' = mem_write (mem ?st) (hdr_at (frm ?E)) (take 52 sample_elf64)"
  proof -
    have "64 \<le> length sample_elf64" "file_len ?fp = of_nat (length sample_elf64)" "file_base (plat ?E) ?fp \<noteq> 0"
      "unat (file_base (plat ?E) ?fp) + length sample_elf64 < 2 ^ 32" "hdr_at (frm ?E) \<noteq> 0"
      unfolding base by (simp_all add: len)
    from elf64_header_misread [OF img this apart, of 0] show ?thesis unfolding fields(1) by auto
  qed
  then obtain st' fp' where run: "load_elf64_file ?E ?st ?fp 0 = Some (st', fp', Returned)"
    "mem st' = mem_write (mem ?st) (hdr_at (frm ?E)) (take 52 sample_elf64)" by blast
  show ?thesis
    by (intro conjI fields(2,3) exI [of _ ?st] exI [of _ ?fp] exI [of _ st'] exI [of _ fp'])
      (use img [unfolded base] run in simp_all)
qed

end
