(* ===== verification/Boards.thy ===== *)
theory Boards
  imports Platio
begin

text \<open>
  The MIPS boards in their own words. The files under \<^verbatim>\<open>mach/c3600\<close> and \<^verbatim>\<open>mach/c7200\<close> are copies
  of those for the C1700 with other addresses, structure layouts and key codes; the rest of the
  development works with one definition for the three, with the board as a parameter. Here
  the functions of the two boards are translated from their own files, with their own
  numbers, and proved equal to that definition at the board.
\<close>

section \<open>The C3600: console\<close>

definition c3600_putc :: "machine \<Rightarrow> u8 \<Rightarrow> machine" where
  "c3600_putc st c = st\<lparr>con_out := con_out st @ [c]\<rparr>"

partial_function (option) c3600_putsn_loop :: "machine \<Rightarrow> addr \<Rightarrow> int \<Rightarrow> int \<Rightarrow> machine option" where
  "c3600_putsn_loop st s n i =
     (if mem st s \<noteq> 0 \<and> i \<noteq> n then c3600_putsn_loop (c3600_putc st (mem st s)) (s + 1) n (i + 1) else Some st)"

definition c3600_putsn :: "machine \<Rightarrow> addr \<Rightarrow> int \<Rightarrow> machine option" where
  "c3600_putsn st s n = c3600_putsn_loop st s n 0"

definition c3600_getc :: "machine \<Rightarrow> (u8 \<times> machine) option" where
  "c3600_getc st = (case con_in st of [] \<Rightarrow> None | c # cs \<Rightarrow> Some (c, st\<lparr>con_in := cs\<rparr>))"

function c3600_gets_loop :: "machine \<Rightarrow> addr \<Rightarrow> int \<Rightarrow> int \<Rightarrow> (int \<times> machine) option" where
  "c3600_gets_loop st b n i =
     (case c3600_getc st of None \<Rightarrow> None
      | Some (c, st1) \<Rightarrow>
          let st2 = c3600_putc (store_at st1 (b + of_int i) c) c;
              i1 = i + 1
          in if c = 10 \<or> c = 13 then Some (i1, store_at st2 (b + of_int (i1 - 1)) 0)
             else let i2 = (if c = 0x8 \<or> c = 0x7f then i1 - 2 else i1)
                  in if i2 < n then c3600_gets_loop st2 b n i2
                     else Some (i2, store_at st2 (b + of_int (i2 - 1)) 0))"
  by pat_completeness auto
termination
  by (relation "measure (\<lambda>(st, b, n, i). length (con_in st))")
    (auto simp: c3600_getc_def c3600_putc_def store_at_def split: list.splits)

declare c3600_gets_loop.simps [simp del]

definition c3600_gets :: "machine \<Rightarrow> addr \<Rightarrow> int \<Rightarrow> (int \<times> machine) option" where
  "c3600_gets st b n = c3600_gets_loop st b n 0"

partial_function (option) c3600_strnlen_loop :: "mem \<Rightarrow> addr \<Rightarrow> int \<Rightarrow> int \<Rightarrow> int option" where
  "c3600_strnlen_loop m s maxlen i =
     (if m s \<noteq> 0 \<and> i \<noteq> maxlen then c3600_strnlen_loop m (s + 1) maxlen (i + 1) else Some i)"

definition c3600_strnlen :: "mem \<Rightarrow> addr \<Rightarrow> int \<Rightarrow> int option" where
  "c3600_strnlen m s maxlen = (if s = 0 then Some 0 else c3600_strnlen_loop m s maxlen 0)"

section \<open>The C3600: flash\<close>

definition c3600_platio_find_file :: "mem \<Rightarrow> addr \<Rightarrow> u8 option" where
  "c3600_platio_find_file m fname =
     (case c3600_find_file m fname 0x30000000 of None \<Rightarrow> None
      | Some f \<Rightarrow> if f \<noteq> 0 then Some 1 else Some 0)"

definition c3600_platio_file_open :: "mem \<Rightarrow> cfile \<Rightarrow> addr \<Rightarrow> cfile option" where
  "c3600_platio_file_open m fp fname =
     (case c3600_find_file m fname 0x30000000 of None \<Rightarrow> None
      | Some ent \<Rightarrow>
          if ent = 0 then Some (fp\<lparr>f_code := 0, f_private := 0\<rparr>)
          else Some (fp\<lparr>f_dev := 1, f_private := ent, file_len := u32_of BE (mem_read m (ent + 4) 4), file_pos := 0,
              f_name := padded_field m (ent + 16) 48 @ drop 48 (f_name fp), f_code := 1\<rparr>))"

definition c3600_platio_read :: "mem \<Rightarrow> addr \<Rightarrow> u32 \<Rightarrow> u32 \<Rightarrow> cfile \<Rightarrow> mem \<times> cfile \<times> u32" where
  "c3600_platio_read m pbuf sz nmemb fp =
     (let from = f_private fp + 64 + file_pos fp
      in (fst (memcpy m pbuf from (sz * nmemb)), fp\<lparr>file_pos := file_pos fp + sz * nmemb\<rparr>, nmemb * sz))"

definition c3600_platform_init :: "machine \<Rightarrow> machine" where
  "c3600_platform_init st = st"

definition c3600_check_flash :: "mem \<Rightarrow> u32" where
  "c3600_check_flash m = (if u32_of BE (mem_read m 0x30000000 4) \<noteq> 0xbad00b1e then 0 else 1)"

partial_function (option) c3600_directory_loop :: "addr \<Rightarrow> machine \<Rightarrow> u32 \<Rightarrow> machine option" where
  "c3600_directory_loop sp st offset =
     (let f = 0x30000000 + offset
      in if u32_of BE (mem_read (mem st) f 4) = 0xbad00b1e then
           (case printf C3600 sp st ''%s\<newline>'' [f + 16] of None \<Rightarrow> None
            | Some st' \<Rightarrow> c3600_directory_loop sp st' (offset + (64 + u32_of BE (mem_read (mem st') (f + 4) 4))))
         else Some st)"

definition c3600_flash_directory :: "addr \<Rightarrow> machine \<Rightarrow> machine option" where
  "c3600_flash_directory sp st = c3600_directory_loop sp st 0"

section \<open>The C7200: console\<close>

definition c7200_putc :: "machine \<Rightarrow> u8 \<Rightarrow> machine" where
  "c7200_putc st c = st\<lparr>con_out := con_out st @ [c]\<rparr>"

partial_function (option) c7200_putsn_loop :: "machine \<Rightarrow> addr \<Rightarrow> int \<Rightarrow> int \<Rightarrow> machine option" where
  "c7200_putsn_loop st s n i =
     (if mem st s \<noteq> 0 \<and> i \<noteq> n then c7200_putsn_loop (c7200_putc st (mem st s)) (s + 1) n (i + 1) else Some st)"

definition c7200_putsn :: "machine \<Rightarrow> addr \<Rightarrow> int \<Rightarrow> machine option" where
  "c7200_putsn st s n = c7200_putsn_loop st s n 0"

definition c7200_getc :: "machine \<Rightarrow> (u8 \<times> machine) option" where
  "c7200_getc st = (case con_in st of [] \<Rightarrow> None | c # cs \<Rightarrow> Some (c, st\<lparr>con_in := cs\<rparr>))"

function c7200_gets_loop :: "machine \<Rightarrow> addr \<Rightarrow> int \<Rightarrow> int \<Rightarrow> (int \<times> machine) option" where
  "c7200_gets_loop st b n i =
     (case c7200_getc st of None \<Rightarrow> None
      | Some (c, st1) \<Rightarrow>
          let st2 = c7200_putc (store_at st1 (b + of_int i) c) c;
              i1 = i + 1
          in if c = 10 \<or> c = 13 then Some (i1, store_at st2 (b + of_int (i1 - 1)) 0)
             else let i2 = (if c = 0x8 then i1 - 1 else i1)
                  in if i2 < n then c7200_gets_loop st2 b n i2
                     else Some (i2, store_at st2 (b + of_int (i2 - 1)) 0))"
  by pat_completeness auto
termination
  by (relation "measure (\<lambda>(st, b, n, i). length (con_in st))")
    (auto simp: c7200_getc_def c7200_putc_def store_at_def split: list.splits)

declare c7200_gets_loop.simps [simp del]

definition c7200_gets :: "machine \<Rightarrow> addr \<Rightarrow> int \<Rightarrow> (int \<times> machine) option" where
  "c7200_gets st b n = c7200_gets_loop st b n 0"

partial_function (option) c7200_strnlen_loop :: "mem \<Rightarrow> addr \<Rightarrow> int \<Rightarrow> int \<Rightarrow> int option" where
  "c7200_strnlen_loop m s maxlen i =
     (if m s \<noteq> 0 \<and> i \<noteq> maxlen then c7200_strnlen_loop m (s + 1) maxlen (i + 1) else Some i)"

definition c7200_strnlen :: "mem \<Rightarrow> addr \<Rightarrow> int \<Rightarrow> int option" where
  "c7200_strnlen m s maxlen = (if s = 0 then Some 0 else c7200_strnlen_loop m s maxlen 0)"

definition c7200_verstr :: "(regs \<Rightarrow> regs) \<Rightarrow> regs \<Rightarrow> addr" where
  "c7200_verstr rom r = v0 (rom (r\<lparr>a0 := 10\<rparr>))"

definition c7200_memsz :: "(regs \<Rightarrow> regs) \<Rightarrow> regs \<Rightarrow> u32" where
  "c7200_memsz rom r = v0 (rom (r\<lparr>a0 := 4\<rparr>))"

definition c7200_timer :: "(regs \<Rightarrow> regs) \<Rightarrow> regs \<Rightarrow> u32" where
  "c7200_timer rom r = a0 (rom (r\<lparr>a0 := 0\<rparr>))"

section \<open>The C7200: flash\<close>

definition c7200_platio_find_file :: "mem \<Rightarrow> addr \<Rightarrow> u8 option" where
  "c7200_platio_find_file m fname =
     (case c7200_find_file m fname 0xBA040000 of None \<Rightarrow> None
      | Some f \<Rightarrow> if f \<noteq> 0 then Some 1 else Some 0)"

definition c7200_platio_file_open :: "mem \<Rightarrow> cfile \<Rightarrow> addr \<Rightarrow> cfile option" where
  "c7200_platio_file_open m fp fname =
     (case c7200_find_file m fname 0xBA040000 of None \<Rightarrow> None
      | Some ent \<Rightarrow>
          if ent = 0 then Some (fp\<lparr>f_code := 0, f_private := 0\<rparr>)
          else Some (fp\<lparr>f_dev := 1, f_private := ent, file_len := u32_of BE (mem_read m (ent + 72) 4), file_pos := 0,
              f_name := padded_field m (ent + 8) 64 @ drop 64 (f_name fp), f_code := 1\<rparr>))"

definition c7200_platio_read :: "mem \<Rightarrow> addr \<Rightarrow> u32 \<Rightarrow> u32 \<Rightarrow> cfile \<Rightarrow> mem \<times> cfile \<times> u32" where
  "c7200_platio_read m pbuf sz nmemb fp =
     (let from = f_private fp + 128 + file_pos fp
      in (fst (memcpy m pbuf from (sz * nmemb)), fp\<lparr>file_pos := file_pos fp + sz * nmemb\<rparr>, nmemb * sz))"

definition c7200_platform_init :: "machine \<Rightarrow> machine" where
  "c7200_platform_init st = st"

definition c7200_check_flash :: "mem \<Rightarrow> u32" where
  "c7200_check_flash m = (if u32_of BE (mem_read m 0xBA040000 4) \<noteq> 0x07158805 then 0 else 1)"

partial_function (option) c7200_directory_loop :: "addr \<Rightarrow> machine \<Rightarrow> u32 \<Rightarrow> machine option" where
  "c7200_directory_loop sp st offset =
     (let f = 0xBA040000 + offset
      in if u32_of BE (mem_read (mem st) f 4) = 0x07158805 then
           (case printf C7200 sp st ''%s\<newline>'' [f + 8] of None \<Rightarrow> None
            | Some st' \<Rightarrow> c7200_directory_loop sp st' (offset + (128 + u32_of BE (mem_read (mem st') (f + 72) 4))))
         else Some st)"

definition c7200_flash_directory :: "addr \<Rightarrow> machine \<Rightarrow> machine option" where
  "c7200_flash_directory sp st = c7200_directory_loop sp st 0"

section \<open>One definition for the boards\<close>

lemma option_eqI: "(\<And>y. u = Some y \<longleftrightarrow> v = Some y) \<Longrightarrow> u = v"
  by (cases u; cases v) auto

lemmas putc_defs = c3600_putc_def c7200_putc_def c_putc_def
lemmas getc_defs = c3600_getc_def c7200_getc_def c_getc_def

lemmas ent_defs = fs_ent_magic_def fs_ent_length_def

text \<open>Two loops without a bound are equal when each result of the one is a result of the other.\<close>

lemma c3600_putsn_loop_eq: "c3600_putsn_loop st s n i = c_putsn_loop st s n i"
proof (rule option_eqI, rule iffI)
  show "c_putsn_loop st s n i = Some y" if "c3600_putsn_loop st s n i = Some y" for y
    using that by (induction rule: c3600_putsn_loop.raw_induct [rotated, consumes 1]) (subst c_putsn_loop.simps, auto simp: putc_defs split: if_splits)
  show "c3600_putsn_loop st s n i = Some y" if "c_putsn_loop st s n i = Some y" for y
    using that by (induction rule: c_putsn_loop.raw_induct [rotated, consumes 1]) (subst c3600_putsn_loop.simps, auto simp: putc_defs split: if_splits)
qed

lemma c3600_strnlen_loop_eq: "c3600_strnlen_loop m s k i = c_strnlen_loop m s k i"
proof (rule option_eqI, rule iffI)
  show "c_strnlen_loop m s k i = Some y" if "c3600_strnlen_loop m s k i = Some y" for y
    using that by (induction rule: c3600_strnlen_loop.raw_induct [rotated, consumes 1]) (subst c_strnlen_loop.simps, auto split: if_splits)
  show "c3600_strnlen_loop m s k i = Some y" if "c_strnlen_loop m s k i = Some y" for y
    using that by (induction rule: c_strnlen_loop.raw_induct [rotated, consumes 1]) (subst c3600_strnlen_loop.simps, auto split: if_splits)
qed

lemma c3600_directory_loop_eq: "c3600_directory_loop sp st off = flash_directory_loop C3600 sp st off"
proof (rule option_eqI, rule iffI)
  show "flash_directory_loop C3600 sp st off = Some y" if "c3600_directory_loop sp st off = Some y" for y
    using that by (induction rule: c3600_directory_loop.raw_induct [rotated, consumes 1])
      (subst flash_directory_loop.simps, auto simp: ent_defs Let_def split: if_splits option.splits)
  have "p = C3600 \<longrightarrow> c3600_directory_loop sp st off = Some y" if "flash_directory_loop p sp st off = Some y" for p y
    using that by (induction rule: flash_directory_loop.raw_induct [rotated, consumes 1])
      (subst c3600_directory_loop.simps, auto simp: ent_defs Let_def split: if_splits option.splits)
  then show "c3600_directory_loop sp st off = Some y" if "flash_directory_loop C3600 sp st off = Some y" for y
    using that by blast
qed

lemma c3600_gets_loop_eq: "c3600_gets_loop st b n i = c_gets_loop C3600 st b n i"
proof (induction st b n i rule: c3600_gets_loop.induct)
  case (1 st b n i)
  have getc: "c3600_getc st = c_getc st" by (simp add: getc_defs)
  show ?case
  proof (cases "c_getc st")
    case None
    then show ?thesis by (subst c3600_gets_loop.simps, subst c_gets_loop.simps) (simp add: getc)
  next
    case (Some r)
    obtain c st1 where r: "r = (c, st1)" by (cases r)
    show ?thesis
      using "1.IH" Some by (subst c3600_gets_loop.simps, subst c_gets_loop.simps) (simp add: getc r gets_back_def putc_defs Let_def)
  qed
qed

lemma c7200_putsn_loop_eq: "c7200_putsn_loop st s n i = c_putsn_loop st s n i"
proof (rule option_eqI, rule iffI)
  show "c_putsn_loop st s n i = Some y" if "c7200_putsn_loop st s n i = Some y" for y
    using that by (induction rule: c7200_putsn_loop.raw_induct [rotated, consumes 1]) (subst c_putsn_loop.simps, auto simp: putc_defs split: if_splits)
  show "c7200_putsn_loop st s n i = Some y" if "c_putsn_loop st s n i = Some y" for y
    using that by (induction rule: c_putsn_loop.raw_induct [rotated, consumes 1]) (subst c7200_putsn_loop.simps, auto simp: putc_defs split: if_splits)
qed

lemma c7200_strnlen_loop_eq: "c7200_strnlen_loop m s k i = c_strnlen_loop m s k i"
proof (rule option_eqI, rule iffI)
  show "c_strnlen_loop m s k i = Some y" if "c7200_strnlen_loop m s k i = Some y" for y
    using that by (induction rule: c7200_strnlen_loop.raw_induct [rotated, consumes 1]) (subst c_strnlen_loop.simps, auto split: if_splits)
  show "c7200_strnlen_loop m s k i = Some y" if "c_strnlen_loop m s k i = Some y" for y
    using that by (induction rule: c_strnlen_loop.raw_induct [rotated, consumes 1]) (subst c7200_strnlen_loop.simps, auto split: if_splits)
qed

lemma c7200_directory_loop_eq: "c7200_directory_loop sp st off = flash_directory_loop C7200 sp st off"
proof (rule option_eqI, rule iffI)
  show "flash_directory_loop C7200 sp st off = Some y" if "c7200_directory_loop sp st off = Some y" for y
    using that by (induction rule: c7200_directory_loop.raw_induct [rotated, consumes 1])
      (subst flash_directory_loop.simps, auto simp: ent_defs Let_def split: if_splits option.splits)
  have "p = C7200 \<longrightarrow> c7200_directory_loop sp st off = Some y" if "flash_directory_loop p sp st off = Some y" for p y
    using that by (induction rule: flash_directory_loop.raw_induct [rotated, consumes 1])
      (subst c7200_directory_loop.simps, auto simp: ent_defs Let_def split: if_splits option.splits)
  then show "c7200_directory_loop sp st off = Some y" if "flash_directory_loop C7200 sp st off = Some y" for y
    using that by blast
qed

lemma c7200_gets_loop_eq: "c7200_gets_loop st b n i = c_gets_loop C7200 st b n i"
proof (induction st b n i rule: c7200_gets_loop.induct)
  case (1 st b n i)
  have getc: "c7200_getc st = c_getc st" by (simp add: getc_defs)
  show ?case
  proof (cases "c_getc st")
    case None
    then show ?thesis by (subst c7200_gets_loop.simps, subst c_gets_loop.simps) (simp add: getc)
  next
    case (Some r)
    obtain c st1 where r: "r = (c, st1)" by (cases r)
    show ?thesis
      using "1.IH" Some by (subst c7200_gets_loop.simps, subst c_gets_loop.simps) (simp add: getc r gets_back_def putc_defs Let_def)
  qed
qed

lemma c3600_eq:
  "c3600_putc = c_putc" "c3600_getc = c_getc" "c3600_putsn = c_putsn" "c3600_gets = c_gets C3600" "c3600_strnlen = c_strnlen"
  "c3600_platio_find_file = platio_find_file C3600" "c3600_platio_file_open = platio_file_open C3600" "c3600_platio_read = platio_read C3600"
  "c3600_platform_init = platform_init" "c3600_check_flash = check_flash C3600" "c3600_flash_directory = flash_directory C3600"
  by (intro ext; simp add: putc_defs getc_defs c3600_putsn_def c_putsn_def c3600_putsn_loop_eq c3600_gets_def c_gets_def c3600_gets_loop_eq
      c3600_strnlen_def c_strnlen_def c3600_strnlen_loop_eq c3600_platio_find_file_def platio_find_file_def c3600_find_file_def
      c3600_platio_file_open_def platio_file_open_def ent_defs c3600_platio_read_def platio_read_def split_def Let_def
      c3600_platform_init_def platform_init_def c3600_check_flash_def check_flash_def c3600_flash_directory_def flash_directory_def
      c3600_directory_loop_eq split: option.splits)+

lemma c7200_eq:
  "c7200_putc = c_putc" "c7200_getc = c_getc" "c7200_putsn = c_putsn" "c7200_gets = c_gets C7200" "c7200_strnlen = c_strnlen"
  "c7200_platio_find_file = platio_find_file C7200" "c7200_platio_file_open = platio_file_open C7200" "c7200_platio_read = platio_read C7200"
  "c7200_platform_init = platform_init" "c7200_check_flash = check_flash C7200" "c7200_flash_directory = flash_directory C7200"
  "c7200_memsz = c_memsz C7200"
  by (intro ext; simp add: putc_defs getc_defs c7200_putsn_def c_putsn_def c7200_putsn_loop_eq c7200_gets_def c_gets_def c7200_gets_loop_eq
      c7200_strnlen_def c_strnlen_def c7200_strnlen_loop_eq c7200_platio_find_file_def platio_find_file_def c7200_find_file_def
      c7200_platio_file_open_def platio_file_open_def ent_defs c7200_platio_read_def platio_read_def split_def Let_def
      c7200_platform_init_def platform_init_def c7200_check_flash_def check_flash_def c7200_flash_directory_def flash_directory_def
      c7200_directory_loop_eq c7200_memsz_def mips_memsz_def MEMSIZE_def split: option.splits)+

lemma c7200_calls_eq: "c7200_verstr = mips_verstr" "c7200_timer = mips_timer"
  by (intro ext; simp add: c7200_verstr_def mips_verstr_def VERSION_def c7200_timer_def mips_timer_def TIMER_def)+

section \<open>Properties\<close>


end
