(* ===== verification/Platform.thy ===== *)
theory Platform
  imports Platio
begin

text \<open>
  The rest of the platform code: the address macros of \<^verbatim>\<open>include/addr.h\<close> for the unmapped segments
  of a MIPS processor, and the second loader of the C1700
  (\<^verbatim>\<open>mach/c1700/platform.c\<close>), which nothing calls. The string \<^verbatim>\<open>"ciscoload.two"\<close> is at an address
  the linker chooses, an argument here. Entering the second loader is a value: the address and
  the four arguments.
\<close>

section \<open>Segments\<close>

definition KSEG0_TO_PHYS32 :: "u32 \<Rightarrow> u32" where "KSEG0_TO_PHYS32 a = a AND 0x7FFFFFFF"
definition KSEG1_TO_PHYS32 :: "u32 \<Rightarrow> u32" where "KSEG1_TO_PHYS32 a = a AND 0x1FFFFFFF"
definition PHYS_TO_KSEG032 :: "u32 \<Rightarrow> u32" where "PHYS_TO_KSEG032 a = a + 0x80000000"
definition PHYS_TO_KSEG132 :: "u32 \<Rightarrow> u32" where "PHYS_TO_KSEG132 a = a + 0xE0000000"

definition KSEG0_TO_PHYS64 :: "64 word \<Rightarrow> 64 word" where "KSEG0_TO_PHYS64 a = a AND 0xFFFFFFFF7FFFFFFF"
definition KSEG1_TO_PHYS64 :: "64 word \<Rightarrow> 64 word" where "KSEG1_TO_PHYS64 a = a AND 0xFFFFFFFF1FFFFFFF"
definition PHYS_TO_KSEG064 :: "64 word \<Rightarrow> 64 word" where "PHYS_TO_KSEG064 a = a + 0x0000000080000000"
definition PHYS_TO_KSEG164 :: "64 word \<Rightarrow> 64 word" where "PHYS_TO_KSEG164 a = a + 0x00000000E0000000"

section \<open>The second loader\<close>

definition locate_stage_two :: "mem \<Rightarrow> addr \<Rightarrow> u32 option" where
  "locate_stage_two m name = map_option ucast (platio_find_file C1700 m name)"

record stage_two_call =
  s2_addr :: addr
  data_offset :: u32
  data_length :: u32
  entry_pt :: u32
  load_offset :: u32

definition stage_two :: "mem \<Rightarrow> addr \<Rightarrow> u32 \<Rightarrow> u32 \<Rightarrow> u32 \<Rightarrow> u32 \<Rightarrow> stage_two_call option" where
  "stage_two m name kern_off kern_entry kern_size kern_loadpt =
     (case find_file C1700 m name (FLASH_BASE C1700) of None \<Rightarrow> None
      | Some f \<Rightarrow> Some \<lparr>s2_addr = f + fs_ent_size C1700, data_offset = kern_off, data_length = kern_size,
          entry_pt = kern_entry, load_offset = kern_loadpt\<rparr>)"

section \<open>What the macros do\<close>

text \<open>Taking off the segment is a remainder.\<close>

lemma mask29: "(0x1FFFFFFF :: u32) = mask 29" and mask31: "(0x7FFFFFFF :: u32) = mask 31"
  by code_simp+

lemma KSEG_TO_PHYS_mod:
  "unat (KSEG0_TO_PHYS32 a) = unat a mod 2 ^ 31" "unat (KSEG1_TO_PHYS32 a) = unat a mod 2 ^ 29"
  unfolding KSEG0_TO_PHYS32_def KSEG1_TO_PHYS32_def mask29 mask31
  by (simp_all flip: take_bit_eq_mask add: unsigned_take_bit_eq take_bit_eq_mod unat_mod)

lemma PHYS_TO_KSEG_unat:
  assumes "unat a < 2 ^ 29"
  shows "unat (PHYS_TO_KSEG032 a) = 0x80000000 + unat a" "unat (PHYS_TO_KSEG132 a) = 0xE0000000 + unat a"
  using assms by (simp_all add: PHYS_TO_KSEG032_def PHYS_TO_KSEG132_def unat_word_ariths)

lemma stage_two_found:
  assumes "flash_dir C1700 m (FLASH_BASE C1700) es"
  shows "stage_two m name off entry sz pt =
    Some \<lparr>s2_addr = entry_addr C1700 (FLASH_BASE C1700) es (field_str m name 48) + 64, data_offset = off, data_length = sz,
      entry_pt = entry, load_offset = pt\<rparr>"
    and "locate_stage_two m name = Some (if map_of es (field_str m name 48) = None then 0 else 1)"
proof -
  show "stage_two m name off entry sz pt =
    Some \<lparr>s2_addr = entry_addr C1700 (FLASH_BASE C1700) es (field_str m name 48) + 64, data_offset = off, data_length = sz,
      entry_pt = entry, load_offset = pt\<rparr>"
    using find_file_dir [OF assms, of name] by (simp add: stage_two_def)
  show "locate_stage_two m name = Some (if map_of es (field_str m name 48) = None then 0 else 1)"
    using platio_find_file_dir [OF assms, of name] by (simp add: locate_stage_two_def)
qed

section \<open>Properties\<close>

text \<open>The conversions for the cached segment lead from 0x80000000 on and back. The one for the
  uncached segment leads back too, but to addresses from 0xE0000000 on, outside that segment,
  which ends at 0xC0000000.\<close>

theorem kseg_conversions:
  assumes "unat a < 2 ^ 29"
  shows "KSEG0_TO_PHYS32 (PHYS_TO_KSEG032 a) = a \<and> unat (PHYS_TO_KSEG032 a) = 0x80000000 + unat a \<and>
    KSEG1_TO_PHYS32 (PHYS_TO_KSEG132 a) = a \<and> unat (PHYS_TO_KSEG132 a) \<ge> 0xE0000000"
  using assms PHYS_TO_KSEG_unat [OF assms] mod_mult_self1 [of "unat a" 7 "2 ^ 29"] KSEG_TO_PHYS_mod(1) [of "PHYS_TO_KSEG032 a"] KSEG_TO_PHYS_mod(2) [of "PHYS_TO_KSEG132 a"]
  by (simp add: word_unat_eq_iff add.commute)

lemma kseg_conversions_witness: "KSEG1_TO_PHYS32 (PHYS_TO_KSEG132 0x1000) = 0x1000 \<and> unat (PHYS_TO_KSEG132 0x1000) \<ge> 0xE0000000"
  using kseg_conversions [of "0x1000"] by simp

text \<open>The second loader is entered right behind its directory entry; without such a file, which
  \<open>locate_stage_two\<close> reports and \<open>stage_two\<close> does not look at, the entry is address 64.\<close>

theorem stage_two_unchecked:
  assumes "flash_dir C1700 m (FLASH_BASE C1700) es"
  shows "\<exists>c. stage_two m name off entry sz pt = Some c \<and> data_length c = sz \<and> entry_pt c = entry \<and>
    (case map_of es (field_str m name 48) of
       None \<Rightarrow> locate_stage_two m name = Some 0 \<and> s2_addr c = 64
     | Some data \<Rightarrow> locate_stage_two m name = Some 1 \<and> mem_read m (s2_addr c) (length data) = data)"
  using stage_two_found [OF assms, of name] entry_addr_None [of es "field_str m name 48" C1700 "FLASH_BASE C1700"]
    entry_addr_Some [OF assms, of "field_str m name 48"]
  by (auto split: option.splits simp del: FLASH_BASE.simps)

lemma stage_two_unchecked_witness:
  "\<exists>c. stage_two (\<lambda>_. 0) 0x100 0 0x80000000 9 0x80000000 = Some c \<and> s2_addr c = 64"
proof -
  have "flash_dir C1700 (\<lambda>_. 0) (FLASH_BASE C1700) []" by (simp add: fs_ent_magic_def be32_def)
  from stage_two_unchecked [OF this, of "0x100" 0 "0x80000000" 9 "0x80000000"] show ?thesis by auto
qed

end
