(* ===== verification/Elftool.thy ===== *)
theory Elftool
  imports Elf2mzip
begin

text \<open>
  The viewer \<^verbatim>\<open>elftool/elftool.c\<close>: \<open>main\<close>, from the magic number to the last program header. What
  it prints is the list of its \<open>printf\<close> calls. The structures it reads into are byte arrays of
  its stack; the one for section headers and the one for program headers keep their contents
  from round to round, already swapped. A null pointer given to \<^verbatim>\<open>%s\<close> and a name outside the
  string table are \<open>Undefined\<close>.
\<close>

section \<open>The file header\<close>

abbreviation tab_text :: "string \<Rightarrow> string" where
  "tab_text s \<equiv> CHR 0x09 # s"

definition elftool_fail :: "printout \<Rightarrow> world \<Rightarrow> 'a tool" where
  "elftool_fail ls w = Inl (Exit (print_all ls w) (-1))"

text \<open>The message about a wrong magic number prints the address of the array, \<open>magic_at\<close>.\<close>

definition check_magic :: "u32 \<Rightarrow> u8 list \<Rightarrow> world \<Rightarrow> unit tool" where
  "check_magic magic_at magic w =
     (if magic ! 0 = 0x4d \<and> magic ! 1 = 0x5a \<and> magic ! 2 = 0x49 \<and> magic ! 3 = 0x50 then
        elftool_fail [(''Found MZIP file. This tool is unable to analyze MZIP files.\<newline>'', [])] w
      else if not_elf magic then
        elftool_fail [(''ELF magic number not found. Aborting.\<newline>'', []), (''Magic found: 0x%08x.\<newline>'', [Num magic_at])] w
      else Inr ())"

definition elftool_header :: "u32 \<Rightarrow> u8 list \<Rightarrow> u8 list \<Rightarrow> string list \<Rightarrow> world \<Rightarrow> (elf32_header \<times> bool \<times> stream \<times> world) tool" where
  "elftool_header magic_at magic0 hdr0 argv w =
     (let w = print_all [(''ELFTool - a simple tool for viewing ELF file structures.\<newline>'', []),
                (''(c) 2008 Philippe Vachon <philippe@cowpig.ca>\<newline>\<newline>'', [])] w
      in if length argv < 2 then elftool_fail [(''A file must be specified for analysis.\<newline>'', [])] w
         else case disk w (argv ! 1) of
           None \<Rightarrow> elftool_fail [(''Unable to open file %s. Aborting.\<newline>'', [Text (argv ! 1)])] w
         | Some bytes \<Rightarrow>
             let (magic, fp) = fread magic0 (stream_of bytes)
             in bindE (check_magic magic_at magic w) (\<lambda>_.
                  let (bs, fp) = fread hdr0 (fseek_set fp 0);
                      hdr = elf32_header_of LE bs;
                      swap = (eh_ident hdr ! ELF_INDEX_DATA = ELF_DATA_MSB)
                  in Inr (if swap then swap_elf32_header hdr else hdr, swap, fp, w)))"

definition rule_line :: "string \<times> printed_arg list" where
  "rule_line = (''================================================\<newline>'', [])"

definition header_lines :: "elf32_header \<Rightarrow> string \<Rightarrow> printout" where
  "header_lines hdr machine =
     [(''ELF File Header:\<newline>'', []), rule_line, (''Ident bytes:\<newline>'', []),
      (tab_text ''Class: %d-bit\<newline>'', [Num (if eh_ident hdr ! ELF_INDEX_CLASS = ELF_CLASS_64 then 64 else 32)]),
      (tab_text ''Data type: %s\<newline>'', [Text (if eh_ident hdr ! ELF_INDEX_DATA = ELF_DATA_MSB then ''Big endian'' else ''Little endian'')]),
      (tab_text ''Version: %u\<newline>\<newline>'', [Num (ucast (eh_ident hdr ! ELF_INDEX_VERSION))]),
      (''ELF Object Type: %s (%u)\<newline>'', [Text (file_type_to_string (eh_type hdr)), Num (ucast (eh_type hdr))]),
      (''Machine ID: %#4x\<newline>'' @ tab_text ''%s\<newline>'', [Num (ucast (eh_machine hdr)), Text machine]),
      (''Version: 0x%08x\<newline>'', [Num (eh_version hdr)]), (''Entry point: 0x%08x\<newline>'', [Num (eh_entry hdr)]),
      (''Program header offset: 0x%08x\<newline>'', [Num (eh_phoff hdr)]), (''Section header offset: 0x%08x\<newline>'', [Num (eh_shoff hdr)]),
      (''Flags: 0x%08x\<newline>'', [Num (eh_flags hdr)]), (''ELF Header Size: %u bytes\<newline>'', [Num (ucast (eh_ehsize hdr))]),
      (''Program Header Entry Size: %u bytes\<newline>'', [Num (ucast (eh_phentsize hdr))]), (''Program Header Count: %u\<newline>'', [Num (ucast (eh_phnum hdr))]),
      (''Section header Entry Size: %u bytes\<newline>'', [Num (ucast (eh_shentsize hdr))]), (''Section Header Count: %u\<newline>'', [Num (ucast (eh_shnum hdr))]),
      (''String table entry index: %u\<newline>\<newline>'', [Num (ucast (eh_shstrndx hdr))])]"

definition print_header :: "elf32_header \<Rightarrow> world \<Rightarrow> world tool" where
  "print_header hdr w =
     (case machine_id_to_string (eh_machine hdr) of None \<Rightarrow> Inl Undefined
      | Some machine \<Rightarrow> Inr (print_all (header_lines hdr machine) w))"

section \<open>The section headers\<close>

text \<open>The string table: none when its index is out of range or its section is of another type.\<close>

definition string_table :: "elf32_header \<Rightarrow> bool \<Rightarrow> u8 list \<Rightarrow> stream \<Rightarrow> world \<Rightarrow> (u8 list option \<times> stream \<times> world) tool" where
  "string_table hdr swap strtab0 fp w =
     (if eh_shstrndx hdr \<ge> eh_shnum hdr then
        Inr (None, fp, print ''Warning: String table specified in header is greater than total number of \<newline>sections.\<newline>\<newline>'' [] w)
      else
        let (bs, fp) = fread strtab0 (fseek_set fp (unat (eh_shoff hdr) + elf32_section_header_size * unat (eh_shstrndx hdr)));
            raw = elf32_section_header_of LE bs;
            strtab = (if swap then swap_elf32_section_header raw else raw)
        in if sh_type strtab \<noteq> ELF_SHT_STRTAB \<and> sh_type strtab \<noteq> ELF_SHT_NULL then
             Inr (None, fp, print ''Warning: String table specified in header is not a SHT_STRTAB!\<newline>\<newline>'' [] w)
           else if sh_type strtab \<noteq> ELF_SHT_NULL then
             (case heap w (unat (sh_size strtab)) of None \<Rightarrow> Inl Undefined
              | Some junk \<Rightarrow> let (tab, fp) = fread junk (fseek_set fp (unat (sh_offset strtab))) in Inr (Some tab, fp, w))
           else Inr (None, fp, w))"

definition section_name :: "u8 list option \<Rightarrow> u32 \<Rightarrow> string option" where
  "section_name strtabl name =
     (case strtabl of None \<Rightarrow> Some ''unknown''
      | Some tab \<Rightarrow>
          let rest = drop (unat name) tab
          in if rest = [] then None
             else if hd rest = 0 then Some ''null''
             else if 0 \<in> set rest then Some (map (\<lambda>c. char_of (unat c)) (takeWhile (\<lambda>c. c \<noteq> 0) rest))
             else None)"

definition flag_char :: "u32 \<Rightarrow> char \<Rightarrow> printed_arg" where
  "flag_char f c = Num (of_nat (of_char (if f \<noteq> 0 then c else CHR ''-'')))"

definition section_lines :: "nat \<Rightarrow> string \<Rightarrow> elf32_section_header \<Rightarrow> printout" where
  "section_lines i name shdr =
     [(''Section %d\<newline>'', [Num (of_nat i)]),
      (tab_text ''Name: %s [%u]\<newline>'', [Text name, Num (sh_name shdr)]),
      (tab_text ''Type: %s (0x%08x)\<newline>'', [Text (sh_type_to_string (sh_type shdr)), Num (sh_type shdr)]),
      (tab_text ''Flags: 0x%08x\<newline>'', [Num (sh_flags shdr)]),
      (tab_text (tab_text ''%c%c%c\<newline>''),
        [flag_char (ELF_SHF_ALLOCD (sh_flags shdr)) CHR ''A'', flag_char (ELF_SHF_WRITABLE (sh_flags shdr)) CHR ''w'',
         flag_char (ELF_SHF_EXECUTABLE (sh_flags shdr)) CHR ''x'']),
      (tab_text ''Address: 0x%08x\<newline>'', [Num (sh_addr shdr)]), (tab_text ''Offset: %u bytes\<newline>'', [Num (sh_offset shdr)]),
      (tab_text ''Size: %u bytes\<newline>'', [Num (sh_size shdr)]), (tab_text ''Link: 0x%08x\<newline>'', [Num (sh_link shdr)]),
      (tab_text ''Additional Info: 0x%08x\<newline>'', [Num (sh_info shdr)]),
      (tab_text ''Address Alignment: 0x%08x\<newline>'', [Num (sh_addralign shdr)]),
      (tab_text ''Per-Entry Size: %u bytes\<newline>\<newline>'', [Num (sh_entsize shdr)])]"

text \<open>\<open>n\<close> rounds are left, the next one is number \<open>i\<close>; \<open>obj\<close> is what the structure holds.\<close>

primrec section_loop :: "bool \<Rightarrow> u8 list option \<Rightarrow> nat \<Rightarrow> nat \<Rightarrow> u8 list \<Rightarrow> stream \<Rightarrow> world \<Rightarrow> (stream \<times> world) tool" where
  "section_loop swap strtabl 0 i obj fp w = Inr (fp, w)"
| "section_loop swap strtabl (Suc n) i obj fp w =
     (let (bs, fp) = fread obj fp;
          raw = elf32_section_header_of LE bs;
          shdr = (if swap then swap_elf32_section_header raw else raw)
      in case section_name strtabl (sh_name shdr) of None \<Rightarrow> Inl Undefined
         | Some name \<Rightarrow> section_loop swap strtabl n (Suc i) (elf32_section_header_bytes LE shdr) fp
             (print_all (section_lines i name shdr) w))"

section \<open>The program headers\<close>

definition segment_lines :: "nat \<Rightarrow> elf32_phdr \<Rightarrow> printout" where
  "segment_lines i phdr =
     [(''Segment %d\<newline>'', [Num (of_nat i)]),
      (tab_text ''Type: %s (0x%08x)\<newline>'', [Text (segment_type_to_string (ph_type phdr)), Num (ph_type phdr)]),
      (tab_text ''Offset: 0x%08x\<newline>'', [Num (ph_offset phdr)]), (tab_text ''Virtual Address: 0x%08x\<newline>'', [Num (ph_vaddr phdr)]),
      (tab_text ''Physical Address: 0x%08x\<newline>'', [Num (ph_paddr phdr)]), (tab_text ''Size in File: %u bytes\<newline>'', [Num (ph_filesz phdr)]),
      (tab_text ''Size in Memory: %u bytes\<newline>'', [Num (ph_memsz phdr)]), (tab_text ''Flags: 0x%08x\<newline>'', [Num (ph_flags phdr)]),
      (tab_text ''Alignment: 0x%08x\<newline>\<newline>'', [Num (ph_align phdr)])]"

primrec segment_loop :: "bool \<Rightarrow> nat \<Rightarrow> nat \<Rightarrow> u8 list \<Rightarrow> stream \<Rightarrow> world \<Rightarrow> world" where
  "segment_loop swap 0 i obj fp w = w"
| "segment_loop swap (Suc n) i obj fp w =
     (let (bs, fp) = fread obj fp;
          raw = elf32_phdr_of LE bs;
          phdr = (if swap then swap_elf32_program_header raw else raw)
      in segment_loop swap n (Suc i) (elf32_phdr_bytes LE phdr) fp (print_all (segment_lines i phdr) w))"

section \<open>The tool\<close>

record elftool_stack =
  magic_at :: u32
  magic0 :: "u8 list"
  hdr0 :: "u8 list"
  strtab0 :: "u8 list"
  shdr0 :: "u8 list"
  phdr0 :: "u8 list"

definition elftool_main :: "elftool_stack \<Rightarrow> string list \<Rightarrow> world \<Rightarrow> tool_end" where
  "elftool_main K argv w =
     (case
        bindE (elftool_header (magic_at K) (magic0 K) (hdr0 K) argv w) (\<lambda>(hdr, swap, fp, w).
        bindE (print_header hdr w) (\<lambda>w.
        bindE (string_table hdr swap (strtab0 K) fp w) (\<lambda>(strtabl, fp, w).
        bindE (section_loop swap strtabl (unat (eh_shnum hdr)) 0 (shdr0 K) (fseek_set fp (unat (eh_shoff hdr)))
          (print_all [(''Section Header Entries: \<newline>'', []), rule_line] w)) (\<lambda>(fp, w).
        if eh_phnum hdr = 0 then Inr (Exit w 0)
        else Inr (Exit (segment_loop swap (unat (eh_phnum hdr)) 0 (phdr0 K) (fseek_set fp (unat (eh_phoff hdr)))
          (print_all [(''\<newline>Program Header Entries\<newline>'', []), rule_line] w)) 0)))))
      of Inl e \<Rightarrow> e | Inr e \<Rightarrow> e)"

section \<open>What there is to see in a file\<close>

definition file_shdr :: "endian \<Rightarrow> u8 list \<Rightarrow> nat \<Rightarrow> elf32_section_header" where
  "file_shdr e bs i = elf32_section_header_of e (drop (unat (eh_shoff (elf32_header_of e bs)) + 40 * i) bs)"

definition file_phdr :: "endian \<Rightarrow> u8 list \<Rightarrow> nat \<Rightarrow> elf32_phdr" where
  "file_phdr e bs i = elf32_phdr_of e (drop (unat (eh_phoff (elf32_header_of e bs)) + 32 * i) bs)"

definition file_strtab :: "endian \<Rightarrow> u8 list \<Rightarrow> u8 list option" where
  "file_strtab e bs =
     (let hdr = elf32_header_of e bs; s = file_shdr e bs (unat (eh_shstrndx hdr))
      in if eh_shstrndx hdr < eh_shnum hdr \<and> sh_type s = ELF_SHT_STRTAB
         then Some (take (unat (sh_size s)) (drop (unat (sh_offset s)) bs)) else None)"

definition strtab_warning :: "endian \<Rightarrow> u8 list \<Rightarrow> printout" where
  "strtab_warning e bs =
     (let hdr = elf32_header_of e bs; t = sh_type (file_shdr e bs (unat (eh_shstrndx hdr)))
      in if eh_shstrndx hdr \<ge> eh_shnum hdr
         then [(''Warning: String table specified in header is greater than total number of \<newline>sections.\<newline>\<newline>'', [])]
         else if t \<noteq> ELF_SHT_STRTAB \<and> t \<noteq> ELF_SHT_NULL
         then [(''Warning: String table specified in header is not a SHT_STRTAB!\<newline>\<newline>'', [])]
         else [])"

definition elf_view :: "endian \<Rightarrow> u8 list \<Rightarrow> printout" where
  "elf_view e bs =
     (let hdr = elf32_header_of e bs; nm = (\<lambda>s. the (section_name (file_strtab e bs) (sh_name s)))
      in header_lines hdr (the (machine_id_to_string (eh_machine hdr))) @ strtab_warning e bs @
         [(''Section Header Entries: \<newline>'', []), rule_line] @
         concat (map (\<lambda>i. section_lines i (nm (file_shdr e bs i)) (file_shdr e bs i)) [0..<unat (eh_shnum hdr)]) @
         (if eh_phnum hdr = 0 then []
          else [(''\<newline>Program Header Entries\<newline>'', []), rule_line] @
            concat (map (\<lambda>i. segment_lines i (file_phdr e bs i)) [0..<unat (eh_phnum hdr)])))"

text \<open>A file with both tables and the string table in it, a machine that has a name, and section names
  that are in the string table.\<close>

definition viewable :: "world \<Rightarrow> endian \<Rightarrow> u8 list \<Rightarrow> bool" where
  "viewable w e bs \<longleftrightarrow>
     (let hdr = elf32_header_of e bs; s = file_shdr e bs (unat (eh_shstrndx hdr))
      in 52 \<le> length bs \<and> take 4 bs = ELF_MAGIC \<and> e = order_of (bs ! 5 = ELF_DATA_MSB) \<and> eh_machine hdr \<noteq> 6 \<and>
         unat (eh_shoff hdr) + 40 * unat (eh_shnum hdr) \<le> length bs \<and>
         unat (eh_phoff hdr) + 32 * unat (eh_phnum hdr) \<le> length bs \<and>
         (file_strtab e bs \<noteq> None \<longrightarrow> unat (sh_offset s) + unat (sh_size s) \<le> length bs \<and>
            (\<exists>junk. heap w (unat (sh_size s)) = Some junk \<and> length junk = unat (sh_size s))) \<and>
         (\<forall>i < unat (eh_shnum hdr). section_name (file_strtab e bs) (sh_name (file_shdr e bs i)) \<noteq> None))"

section \<open>The loops\<close>

lemma print_all_append: "print_all (a @ b) w = print_all b (print_all a w)"
  by (simp add: print_all_def)

lemma printed_print_all: "printed (print_all ls w) = printed w @ ls"
  by (induction ls arbitrary: w) (auto simp: print_all_def print_def)

lemma elf32_section_header_of_take: "40 \<le> length bs \<Longrightarrow> elf32_section_header_of e (take 40 bs) = elf32_section_header_of e bs"
  using u32_of_take [of 0 40 bs e] by (simp add: elf32_section_header_of_def u32_of_take)

lemma swap_if_order:
  "(if s then swap_elf32_section_header (elf32_section_header_of LE bs) else elf32_section_header_of LE bs) =
     elf32_section_header_of (order_of s) bs"
  "(if s then swap_elf32_program_header (elf32_phdr_of LE bs) else elf32_phdr_of LE bs) = elf32_phdr_of (order_of s) bs"
  "(if s then swap_elf32_header (elf32_header_of LE bs) else elf32_header_of LE bs) = elf32_header_of (order_of s) bs"
  by (simp_all add: order_of_def swap_elf32_header_of swap_elf32_program_header_of swap_elf32_section_header_of)

lemma upt_Suc_map: "map f [0..<Suc n] = f 0 # map (\<lambda>i. f (Suc i)) [0..<n]"
  by (simp add: upt_conv_Cons map_Suc_upt [symmetric] comp_def del: upt_Suc)

lemma section_loop_lists:
  assumes "s_pos fp + 40 * n \<le> length (s_bytes fp)" and "length obj = 40"
    and "\<forall>k < n. section_name tab (sh_name (elf32_section_header_of (order_of s) (drop (s_pos fp + 40 * k) (s_bytes fp)))) \<noteq> None"
  shows "\<exists>fp'. section_loop s tab n i obj fp w = Inr (fp', print_all
      (concat (map (\<lambda>k. let h = elf32_section_header_of (order_of s) (drop (s_pos fp + 40 * k) (s_bytes fp))
        in section_lines (i + k) (the (section_name tab (sh_name h))) h) [0..<n])) w) \<and> s_bytes fp' = s_bytes fp"
  using assms
proof (induction n arbitrary: i obj fp w)
  case 0
  then show ?case by (simp add: print_all_def)
next
  case (Suc n)
  let ?bs = "s_bytes fp" and ?fp = "fp\<lparr>s_pos := s_pos fp + 40\<rparr>"
  let ?h = "\<lambda>k. elf32_section_header_of (order_of s) (drop (s_pos fp + 40 * k) ?bs)"
  have rd: "fread obj fp = (take 40 (drop (s_pos fp) ?bs), ?fp)" using Suc.prems(1,2) by (simp add: fread_whole)
  have h: "(if s then swap_elf32_section_header (elf32_section_header_of LE (take 40 (drop (s_pos fp) ?bs)))
      else elf32_section_header_of LE (take 40 (drop (s_pos fp) ?bs))) = ?h 0"
    unfolding swap_if_order using Suc.prems(1) by (simp add: elf32_section_header_of_take)
  obtain nm where nm: "section_name tab (sh_name (?h 0)) = Some nm" using Suc.prems(3) by (metis not_None_eq zero_less_Suc)
  have next_h: "elf32_section_header_of (order_of s) (drop (s_pos ?fp + 40 * k) ?bs) = ?h (Suc k)" for k
    by (simp add: algebra_simps)
  have names: "\<forall>k < n. section_name tab (sh_name (elf32_section_header_of (order_of s) (drop (s_pos ?fp + 40 * k) (s_bytes ?fp)))) \<noteq> None"
    using Suc.prems(3) next_h by auto
  obtain fp' where "section_loop s tab n (Suc i) (elf32_section_header_bytes LE (?h 0)) ?fp (print_all (section_lines i nm (?h 0)) w) =
      Inr (fp', print_all (concat (map (\<lambda>k. let h = ?h (Suc k) in section_lines (Suc i + k) (the (section_name tab (sh_name h))) h) [0..<n]))
        (print_all (section_lines i nm (?h 0)) w))" "s_bytes fp' = ?bs"
    using Suc.IH [OF _ _ names, of "elf32_section_header_bytes LE (?h 0)" "Suc i" "print_all (section_lines i nm (?h 0)) w"]
      Suc.prems(1) next_h by (auto simp: length_elf32_section_header_bytes)
  then show ?case
    unfolding section_loop.simps rd Let_def prod.case h nm option.case upt_Suc_map
    by (simp add: print_all_append nm)
qed

lemma segment_loop_lists:
  assumes "s_pos fp + 32 * n \<le> length (s_bytes fp)" and "length obj = 32"
  shows "segment_loop s n i obj fp w = print_all
      (concat (map (\<lambda>k. segment_lines (i + k) (elf32_phdr_of (order_of s) (drop (s_pos fp + 32 * k) (s_bytes fp)))) [0..<n])) w"
  using assms
proof (induction n arbitrary: i obj fp w)
  case 0
  then show ?case by (simp add: print_all_def)
next
  case (Suc n)
  let ?bs = "s_bytes fp" and ?fp = "fp\<lparr>s_pos := s_pos fp + 32\<rparr>"
  let ?h = "\<lambda>k. elf32_phdr_of (order_of s) (drop (s_pos fp + 32 * k) ?bs)"
  have rd: "fread obj fp = (take 32 (drop (s_pos fp) ?bs), ?fp)" using Suc.prems(1,2) by (simp add: fread_whole)
  have h: "(if s then swap_elf32_program_header (elf32_phdr_of LE (take 32 (drop (s_pos fp) ?bs)))
      else elf32_phdr_of LE (take 32 (drop (s_pos fp) ?bs))) = ?h 0"
    unfolding swap_if_order using Suc.prems(1) by (simp add: elf32_phdr_of_take)
  have next_h: "elf32_phdr_of (order_of s) (drop (s_pos ?fp + 32 * k) ?bs) = ?h (Suc k)" for k
    by (simp add: algebra_simps)
  have "segment_loop s n (Suc i) (elf32_phdr_bytes LE (?h 0)) ?fp (print_all (segment_lines i (?h 0)) w) =
      print_all (concat (map (\<lambda>k. segment_lines (Suc i + k) (?h (Suc k))) [0..<n])) (print_all (segment_lines i (?h 0)) w)"
    using Suc.IH [of ?fp "elf32_phdr_bytes LE (?h 0)" "Suc i"] Suc.prems(1) next_h by (simp add: length_elf32_phdr_bytes)
  then show ?case unfolding segment_loop.simps rd Let_def prod.case h upt_Suc_map by (simp add: print_all_append)
qed

section \<open>A run on a sound file\<close>

definition stack_ok :: "elftool_stack \<Rightarrow> bool" where
  "stack_ok K \<longleftrightarrow> length (magic0 K) = 4 \<and> length (hdr0 K) = 52 \<and> length (strtab0 K) = 40 \<and> length (shdr0 K) = 40 \<and> length (phdr0 K) = 32"

definition banner :: printout where
  "banner = [(''ELFTool - a simple tool for viewing ELF file structures.\<newline>'', []), (''(c) 2008 Philippe Vachon <philippe@cowpig.ca>\<newline>\<newline>'', [])]"

lemma elftool_header_good:
  assumes "2 \<le> length argv" and "disk w (argv ! 1) = Some bs" and "52 \<le> length bs" and "take 4 bs = ELF_MAGIC"
    and "length m0 = 4" and "length h0 = 52"
  shows "\<exists>fp. elftool_header at m0 h0 argv w =
      Inr (elf32_header_of (order_of (bs ! 5 = ELF_DATA_MSB)) bs, bs ! 5 = ELF_DATA_MSB, fp, print_all banner w) \<and> s_bytes fp = bs"
proof -
  have rd: "fread m0 (stream_of bs) = (take 4 bs, (stream_of bs)\<lparr>s_pos := 4\<rparr>)"
    using fread_whole [of "stream_of bs" m0] assms(3,5) by simp
  have rd2: "fread h0 (fseek_set ((stream_of bs)\<lparr>s_pos := 4\<rparr>) 0) = (take 52 bs, (stream_of bs)\<lparr>s_pos := 52\<rparr>)"
    using fread_whole [of "stream_of bs" h0] assms(3,6) by (simp add: fseek_set_def stream_of_def)
  have magic: "check_magic at ELF_MAGIC v = Inr ()" for v
    by (simp add: check_magic_def not_elf_def ELF_MAGIC_def)
  have "eh_ident (elf32_header_of LE bs) ! ELF_INDEX_DATA = bs ! 5"
    using assms(3) by (simp add: elf32_header_of_def ELF_INDEX_DATA_def)
  then have msb: "(eh_ident (elf32_header_of LE bs) ! ELF_INDEX_DATA = ELF_DATA_MSB) = (bs ! 5 = ELF_DATA_MSB)" by simp
  have "\<not> length argv < 2" using assms(1) by simp
  then show ?thesis
    unfolding elftool_header_def Let_def if_not_P [OF \<open>\<not> length argv < 2\<close>] print_all_simps assms(2) option.case rd prod.case assms(4) magic
      bindE.simps rd2 elf32_header_of_take [OF assms(3)] msb swap_if_order banner_def
    by simp
qed

lemma string_table_good:
  assumes "s_bytes fp = bs" and "length s0 = 40"
    and "unat (eh_shoff (elf32_header_of (order_of s) bs)) + 40 * unat (eh_shnum (elf32_header_of (order_of s) bs)) \<le> length bs"
    and "file_strtab (order_of s) bs \<noteq> None \<longrightarrow>
      unat (sh_offset (file_shdr (order_of s) bs (unat (eh_shstrndx (elf32_header_of (order_of s) bs))))) +
        unat (sh_size (file_shdr (order_of s) bs (unat (eh_shstrndx (elf32_header_of (order_of s) bs))))) \<le> length bs \<and>
      (\<exists>junk. heap w (unat (sh_size (file_shdr (order_of s) bs (unat (eh_shstrndx (elf32_header_of (order_of s) bs)))))) = Some junk \<and>
         length junk = unat (sh_size (file_shdr (order_of s) bs (unat (eh_shstrndx (elf32_header_of (order_of s) bs))))))"
  shows "\<exists>fp'. string_table (elf32_header_of (order_of s) bs) s s0 fp w =
      Inr (file_strtab (order_of s) bs, fp', print_all (strtab_warning (order_of s) bs) w) \<and> s_bytes fp' = bs"
proof -
  define hdr where "hdr = elf32_header_of (order_of s) bs"
  define S where "S = file_shdr (order_of s) bs (unat (eh_shstrndx hdr))"
  note A = assms(3,4) [folded hdr_def, folded S_def]
  show ?thesis
  proof (cases "eh_shstrndx hdr < eh_shnum hdr")
    case False
    then show ?thesis using assms(1)
      by (simp add: string_table_def file_strtab_def strtab_warning_def Let_def print_all_def not_less flip: hdr_def)
  next
    case True
    let ?off = "unat (eh_shoff hdr) + 40 * unat (eh_shstrndx hdr)"
    have inrange: "\<not> eh_shnum hdr \<le> eh_shstrndx hdr" using True by (simp add: not_le)
    have inside: "?off + 40 \<le> length bs" using A(1) True by (simp add: word_less_nat_alt)
    have rd: "fread s0 (fseek_set fp ?off) = (take 40 (drop ?off bs), fp\<lparr>s_pos := ?off + 40\<rparr>)"
      using fread_whole [of "fseek_set fp ?off" s0] assms(1,2) inside by (simp add: fseek_set_def)
    have S: "(if s then swap_elf32_section_header (elf32_section_header_of LE (take 40 (drop ?off bs)))
        else elf32_section_header_of LE (take 40 (drop ?off bs))) = S"
      unfolding swap_if_order using inside by (simp add: elf32_section_header_of_take S_def file_shdr_def hdr_def)
    have run: "string_table hdr s s0 fp w =
        (if sh_type S \<noteq> ELF_SHT_STRTAB \<and> sh_type S \<noteq> ELF_SHT_NULL then
           Inr (None, fp\<lparr>s_pos := ?off + 40\<rparr>, print ''Warning: String table specified in header is not a SHT_STRTAB!\<newline>\<newline>'' [] w)
         else if sh_type S \<noteq> ELF_SHT_NULL then
           (case heap w (unat (sh_size S)) of None \<Rightarrow> Inl Undefined
            | Some junk \<Rightarrow> let (tab, fp) = fread junk (fseek_set (fp\<lparr>s_pos := ?off + 40\<rparr>) (unat (sh_offset S))) in Inr (Some tab, fp, w))
         else Inr (None, fp\<lparr>s_pos := ?off + 40\<rparr>, w))"
      unfolding string_table_def if_not_P [OF inrange] elf32_section_header_size_def rd Let_def prod.case S ..
    show ?thesis
    proof (cases "sh_type S = ELF_SHT_STRTAB")
      case False
      then show ?thesis using assms(1) True
        unfolding hdr_def [symmetric] run
        by (simp add: file_strtab_def strtab_warning_def Let_def print_all_def not_le flip: hdr_def S_def)
    next
      case T: True
      then have tab: "file_strtab (order_of s) bs = Some (take (unat (sh_size S)) (drop (unat (sh_offset S)) bs))"
        using True by (simp add: file_strtab_def Let_def S_def hdr_def)
      then obtain junk where junk: "heap w (unat (sh_size S)) = Some junk" "length junk = unat (sh_size S)"
          "unat (sh_offset S) + unat (sh_size S) \<le> length bs" using A(2) by auto
      have "fread junk (fseek_set (fp\<lparr>s_pos := ?off + 40\<rparr>) (unat (sh_offset S))) =
          (take (unat (sh_size S)) (drop (unat (sh_offset S)) bs), fp\<lparr>s_pos := unat (sh_offset S) + unat (sh_size S)\<rparr>)"
        using fread_whole [of "fseek_set (fp\<lparr>s_pos := ?off + 40\<rparr>) (unat (sh_offset S))" junk] assms(1) junk
        by (simp add: fseek_set_def)
      moreover have "strtab_warning (order_of s) bs = []"
        using T True by (simp add: strtab_warning_def Let_def S_def hdr_def not_le)
      moreover have "ELF_SHT_STRTAB \<noteq> ELF_SHT_NULL" by (simp add: ELF_SHT_STRTAB_def ELF_SHT_NULL_def)
      ultimately show ?thesis using T assms(1) junk(1) tab
        unfolding hdr_def [symmetric] run by (simp add: print_all_def)
    qed
  qed
qed

lemma elftool_main_view:
  assumes "2 \<le> length argv" and "disk w (argv ! 1) = Some bs" and "viewable w e bs" and "stack_ok K"
  shows "\<exists>w'. elftool_main K argv w = Exit w' 0 \<and> printed w' = printed w @ banner @ elf_view e bs \<and> disk w' = disk w"
proof -
  define s where "s = (bs ! 5 = ELF_DATA_MSB)"
  define hdr where "hdr = elf32_header_of (order_of s) bs"
  have e: "e = order_of s" using assms(3) by (simp add: viewable_def Let_def s_def)
  note V = assms(3) [unfolded viewable_def Let_def e, folded s_def, folded hdr_def]
  note K = assms(4) [unfolded stack_ok_def]
  obtain fp1 where 1: "elftool_header (magic_at K) (magic0 K) (hdr0 K) argv w = Inr (hdr, s, fp1, print_all banner w)" "s_bytes fp1 = bs"
    using elftool_header_good [OF assms(1,2), of "magic0 K" "hdr0 K" "magic_at K", folded s_def, folded hdr_def] V K by blast
  obtain machine where m: "machine_id_to_string (eh_machine hdr) = Some machine"
    using machine_id_to_string_None [of "eh_machine hdr"] V by auto
  have 2: "print_header hdr v = Inr (print_all (header_lines hdr machine) v)" for v by (simp add: print_header_def m)
  define w2 where "w2 = print_all (header_lines hdr machine) (print_all banner w)"
  obtain fp3 where 3: "string_table hdr s (strtab0 K) fp1 w2 =
      Inr (file_strtab (order_of s) bs, fp3, print_all (strtab_warning (order_of s) bs) w2)" "s_bytes fp3 = bs"
    using string_table_good [OF 1(2), of "strtab0 K" s w2, folded hdr_def] V K by (auto simp: w2_def)
  define w3 where "w3 = print_all [(''Section Header Entries: \<newline>'', []), rule_line] (print_all (strtab_warning (order_of s) bs) w2)"
  let ?fp = "fseek_set fp3 (unat (eh_shoff hdr))" and ?nm = "\<lambda>h. the (section_name (file_strtab (order_of s) bs) (sh_name h))"
  have sh: "elf32_section_header_of (order_of s) (drop (s_pos ?fp + 40 * k) (s_bytes ?fp)) = file_shdr (order_of s) bs k" for k
    by (simp add: 3(2) file_shdr_def hdr_def)
  define sections where "sections = concat (map (\<lambda>k. section_lines k (?nm (file_shdr (order_of s) bs k)) (file_shdr (order_of s) bs k)) [0..<unat (eh_shnum hdr)])"
  obtain fp4 where 4: "section_loop s (file_strtab (order_of s) bs) (unat (eh_shnum hdr)) 0 (shdr0 K) ?fp w3 =
      Inr (fp4, print_all sections w3)" "s_bytes fp4 = bs"
    using section_loop_lists [of ?fp "unat (eh_shnum hdr)" "shdr0 K" "file_strtab (order_of s) bs" s 0 w3, unfolded sh] V K 3(2)
    unfolding sections_def Let_def by auto
  define heading where "heading = [(''\<newline>Program Header Entries\<newline>'', []), rule_line :: string \<times> printed_arg list]"
  define segments where "segments = concat (map (\<lambda>k. segment_lines k (file_phdr (order_of s) bs k)) [0..<unat (eh_phnum hdr)])"
  have 5: "segment_loop s (unat (eh_phnum hdr)) 0 (phdr0 K) (fseek_set fp4 (unat (eh_phoff hdr))) v = print_all segments v" for v
    using segment_loop_lists [of "fseek_set fp4 (unat (eh_phoff hdr))" "unat (eh_phnum hdr)" "phdr0 K" s 0 v] V K 4(2)
    by (simp add: segments_def file_phdr_def flip: hdr_def)
  define w' where "w' = (if eh_phnum hdr = 0 then print_all sections w3 else print_all segments (print_all heading (print_all sections w3)))"
  have "elftool_main K argv w = Exit w' 0"
    unfolding elftool_main_def 1(1) bindE.simps prod.case 2 w2_def [symmetric] 3(1) w3_def [symmetric] 4(1) 5 heading_def [symmetric]
    by (simp add: w'_def)
  moreover have "elf_view e bs = header_lines hdr machine @ strtab_warning (order_of s) bs @ [(''Section Header Entries: \<newline>'', []), rule_line] @
      sections @ (if eh_phnum hdr = 0 then [] else heading @ segments)"
    unfolding elf_view_def Let_def e hdr_def [symmetric] m option.sel sections_def segments_def heading_def by simp
  ultimately show ?thesis by (simp add: w'_def w3_def w2_def printed_print_all)
qed

section \<open>A header that cannot be read\<close>

text \<open>At the end of the file the structure keeps what it held, and that is swapped once more.\<close>

lemma fread_nothing: "length (s_bytes fp) \<le> s_pos fp \<Longrightarrow> fread obj fp = (obj, fp)"
  by (simp add: fread_def Let_def)

lemma section_loop_stale:
  assumes "length (s_bytes fp) \<le> s_pos fp"
  shows "section_loop True None (Suc n) i (elf32_section_header_bytes LE h) fp w =
    section_loop True None n (Suc i) (elf32_section_header_bytes LE (swap_elf32_section_header h)) fp
      (print_all (section_lines i ''unknown'' (swap_elf32_section_header h)) w)"
proof -
  have "elf32_section_header_of LE (elf32_section_header_bytes LE h) = h"
    using elf32_section_header_roundtrip [of LE h "[]"] by simp
  then show ?thesis by (simp add: fread_nothing [OF assms] section_name_def Let_def)
qed

section \<open>The small kernel, seen\<close>

definition sample_stack :: elftool_stack where
  "sample_stack = \<lparr>magic_at = 0xbffff000, magic0 = replicate 4 7, hdr0 = replicate 52 7, strtab0 = replicate 40 7,
     shdr0 = replicate 40 7, phdr0 = replicate 32 7\<rparr>"

lemma sample_kernel_viewable: "viewable sample_world BE sample_kernel"
proof -
  have hdr: "eh_machine (elf32_header_of BE sample_kernel) = 8" "eh_shnum (elf32_header_of BE sample_kernel) = 0"
    "eh_shoff (elf32_header_of BE sample_kernel) = 0" "eh_phoff (elf32_header_of BE sample_kernel) = 52"
    "eh_phnum (elf32_header_of BE sample_kernel) = 1"
    by code_simp+
  have "file_strtab BE sample_kernel = None" by (simp add: file_strtab_def Let_def hdr)
  moreover have "length sample_kernel = 88" "take 4 sample_kernel = ELF_MAGIC" "sample_kernel ! 5 = ELF_DATA_MSB"
    by (simp_all add: sample_kernel_def ELF_MAGIC_def ELF_DATA_MSB_def)
  ultimately show ?thesis by (simp add: viewable_def Let_def hdr order_of_def)
qed

section \<open>Properties\<close>

text \<open>C31: on a file that holds both its tables the viewer prints exactly the fields of the header, of every
  section header with its name, and of every program header, as they are in the byte order of
  the file, changes no file and exits with 0.\<close>

theorem elftool_shows_file:
  assumes "2 \<le> length argv" and "disk w (argv ! 1) = Some bs" and "viewable w e bs" and "stack_ok K"
  shows "\<exists>w'. elftool_main K argv w = Exit w' 0 \<and> printed w' = printed w @ banner @ elf_view e bs \<and> disk w' = disk w"
  by (rule elftool_main_view [OF assms])

lemma elftool_shows_file_witness:
  "\<exists>w'. elftool_main sample_stack [''elftool'', ''k''] sample_world = Exit w' 0 \<and> printed w' = banner @ elf_view BE sample_kernel"
proof -
  have "\<exists>w'. elftool_main sample_stack [''elftool'', ''k''] sample_world = Exit w' 0 \<and>
      printed w' = printed sample_world @ banner @ elf_view BE sample_kernel \<and> disk w' = disk sample_world"
    by (rule elftool_shows_file [OF _ _ sample_kernel_viewable])
      (use sample_facts(5) in \<open>simp_all add: stack_ok_def sample_stack_def\<close>)
  moreover have "printed sample_world = []" by (simp add: sample_world_def)
  ultimately show ?thesis by auto
qed



text \<open>A file of machine 6 has no defined view: its name is a null pointer in the table of the tool.\<close>

theorem elftool_machine_6:
  assumes "2 \<le> length argv" and "disk w (argv ! 1) = Some bs" and "52 \<le> length bs" and "take 4 bs = ELF_MAGIC"
    and "stack_ok K" and "eh_machine (elf32_header_of (order_of (bs ! 5 = ELF_DATA_MSB)) bs) = 6"
  shows "elftool_main K argv w = Undefined"
proof -
  obtain fp where "elftool_header (magic_at K) (magic0 K) (hdr0 K) argv w =
      Inr (elf32_header_of (order_of (bs ! 5 = ELF_DATA_MSB)) bs, bs ! 5 = ELF_DATA_MSB, fp, print_all banner w)"
    using elftool_header_good [OF assms(1-4)] assms(5) unfolding stack_ok_def by blast
  moreover have "machine_id_to_string (6 :: u16) = None" by (simp add: machine_id_to_string_None)
  ultimately show ?thesis by (simp add: elftool_main_def print_header_def assms(6))
qed

lemma elftool_machine_6_witness:
  "elftool_main sample_stack [''elftool'', ''k''] (sample_world\<lparr>disk := [''k'' \<mapsto> sample_kernel[19 := 6]]\<rparr>) = Undefined"
proof (rule elftool_machine_6)
  have "order_of (sample_kernel[19 := 6] ! 5 = ELF_DATA_MSB) = BE" by code_simp
  moreover have "eh_machine (elf32_header_of BE (sample_kernel[19 := 6])) = 6" by code_simp
  ultimately show "eh_machine (elf32_header_of (order_of (sample_kernel[19 := 6] ! 5 = ELF_DATA_MSB)) (sample_kernel[19 := 6])) = 6" by simp
  show "take 4 (sample_kernel[19 := 6]) = ELF_MAGIC" "52 \<le> length (sample_kernel[19 := 6])"
    by (simp_all add: sample_kernel_def ELF_MAGIC_def)
qed (simp_all add: sample_stack_def stack_ok_def)

end
