(* ===== verification/Spec2Isabelle.thy ===== *)
theory Spec2Isabelle
  imports Startup Layouts Boards Platform Elftool
begin

text \<open>
  CILO is a boot loader for Cisco routers (C1700 with a PowerPC, C3600 and C7200 with a MIPS
  processor, all 32 bits and big-endian) with three host tools: \<^verbatim>\<open>elftool\<close> shows an ELF file,
  \<^verbatim>\<open>elf2mzip\<close> and \<^verbatim>\<open>elf2img\<close> make boot images of one. The boot loader asks the ROM monitor for the
  size of the memory, checks and lists the flash, reads a line from the console, splits it into a
  kernel name and a command line, opens the file and loads it with one of three loaders; a loader
  either jumps into the kernel or comes back to the prompt. This development models the C code of
  all of these and proves what they do.

  \<^bold>\<open>Layout.\<close> Memory is a function from 32-bit addresses to bytes. The places of the C program's own
  arrays and literals are a record \<open>frame\<close>, because the loaders write through pointers into the
  same memory; \<open>layout_ok\<close> says that they do not overlap. A machine is its memory, the console input
  that is still to be read, and the console output. A call that may not return is an \<open>option\<close>, and
  \<open>None\<close> is not returning (or, where the theory says so, C without a defined result).

    \<^item> \<open>Prelude\<close>: words, runs of memory (\<open>mem_read\<close>, \<open>mem_write\<close>, \<open>apart\<close>), sums as results.
    \<^item> \<open>CString\<close> (\<^verbatim>\<open>string.c\<close>), \<open>Bytes\<close> (\<^verbatim>\<open>include/types.h\<close>, byte order), \<open>Printf\<close> (\<^verbatim>\<open>printf.c\<close>),
      \<open>Promlib\<close> (\<^verbatim>\<open>mach/*/promlib.c\<close>, with \<open>printf\<close> to the console).
    \<^item> \<open>Platio\<close> (\<^verbatim>\<open>ciloio.c\<close>, \<^verbatim>\<open>mach/*/platio.c\<close>, \<^verbatim>\<open>mach/*/platform.c\<close>): the flash directory and files;
      \<open>Boards\<close>: the files of the C3600 and the C7200 in their own numbers, equal to the definitions of
      \<open>Promlib\<close> and \<open>Platio\<close>; \<open>Platform\<close>: the address macros and the unused second loader.
    \<^item> \<open>Elf\<close> (\<^verbatim>\<open>include/elf.h\<close> and the tables and swaps of \<^verbatim>\<open>elftool.c\<close>), \<open>ElfLoader\<close> (\<^verbatim>\<open>elf_loader.c\<close>).
    \<^item> \<open>Lzma\<close> (\<^verbatim>\<open>LzmaDecode.c\<close>), \<open>LzmaLoader\<close> (\<^verbatim>\<open>lzma_loader.c\<close>), \<open>LzmaSpec\<close> (what the decoder's parts compute).
    \<^item> \<open>Bootloader\<close> (\<^verbatim>\<open>main.c\<close>), \<open>Booting\<close> (one pass from the prompt), \<open>Reaching\<close> (all runs), \<open>LzmaBooting\<close>.
    \<^item> The LZMA format from the encoder's side: \<open>RangeCode\<close> (choices with their probabilities as an interval,
      and a code in it), \<open>LzmaSymbols\<close> (bytes, lengths and distances as choices), \<open>LzmaPackets\<close> (packets,
      the text they stand for, the encoder, and the decoder undoing it), \<open>LzmaKernel\<close> (a compressed
      kernel from the prompt to its entry), \<open>LzmaCut\<close> (a compressed kernel that has lost its end), \<open>LzmaStreams\<close>
      (any stream of packets and any announced size), \<open>LzmaRecovery\<close> (the prompt after a damaged kernel, and runs past it).
    \<^item> \<open>Startup\<close> (\<^verbatim>\<open>mach/*/start.S\<close>): the instructions before the C code, and runs from the first of them.
    \<^item> \<open>Layouts\<close> (the structures of \<^verbatim>\<open>include/elf.h\<close>, \<^verbatim>\<open>elf2mzip/elf.h\<close>, \<^verbatim>\<open>mzip.h\<close>, \<^verbatim>\<open>platio.h\<close>, \<^verbatim>\<open>ciloio.h\<close> and
      \<^verbatim>\<open>storage.h\<close> as declared, and the layout rules of C, which give the offsets of the other theories).
    \<^item> \<open>Stdio\<close> (what the tools use of the C library), \<open>Mzip\<close> (\<^verbatim>\<open>elf2mzip/mzip.c\<close>), \<open>Elf2mzip\<close>, \<open>Elf2img\<close>,
      \<open>Elftool\<close> (the three \<open>main\<close> functions).

  \<^bold>\<open>State and operations.\<close> Every C function is a definition of the same name; a loop is a recursive
  function named after it with \<open>_loop\<close>. The start-up code is a list of instructions (\<open>mips_start\<close>) and
  \<open>power_step\<close> their execution, which ends in a call of the boot loader. \<open>boot_step\<close> is the relation between the states of
  \<^verbatim>\<open>start_bootloader\<close>: \<open>Reset\<close>, \<open>Prompt\<close>, \<open>Stopped\<close> and \<open>Kernel\<close>; it is a relation because an
  uninitialised \<^verbatim>\<open>struct file\<close> holds anything. The ROM monitor is a function on registers (\<open>rom\<close>);
  the tools have the files, the outcome of each request to the operating system and the heap in a
  record \<open>world\<close>, the compressor in a record \<open>zip_env\<close>, and \<open>Undefined\<close> for a run that leaves C.

  \<^bold>\<open>Interfaces.\<close> The loaders read files through the locale \<open>file_io\<close>, interpreted on the operations of
  \<open>Platio\<close>; the LZMA decoder needs of its input callback only the locale \<open>lzma_input\<close> (it returns, keeps
  an invariant and stores nowhere but in its buffer), which \<open>LzmaLoader\<close> interprets with \<^verbatim>\<open>read_data\<close>;
  \<open>lzma_feed\<close> extends it by the bytes still to come, \<open>lzma_run\<close> by the output region, \<open>lzma_coded\<close> joins
  the two, and \<open>LzmaKernel\<close> interprets it with \<^verbatim>\<open>read_data\<close> on a compressed file in flash; \<open>lzma_cut\<close>
  takes it twice, for the whole file and for what is left of it; codecs of words and structures
  share \<open>byte_codec\<close>, and the swaps between two orders \<open>codec_swap\<close>.

  \<^bold>\<open>Lemmas.\<close> The string routines have their effect on strings in memory, with what they leave alone.
  \<open>printf\<close> is reduced to the text it prints. The flash is a list of named files (\<open>flash_dir\<close>), opening
  and listing are operations on the list. The ELF loaders place exactly the segments of the file
  (\<open>segment_image\<close>), end on every file, and refuse with the right message. The decoder runs safely
  from any input: its invariant (\<open>sane\<close>, \<open>calm\<close>) bounds the probability indices, the distances and the
  output position; one decoded bit is an exact division of an interval, a match is the Lempel-Ziv
  copy. What the encoder writes for any list of packets (bytes, matches at new and at old distances,
  short repeats) the decoder turns back into their text, up to the announced length; on a stream that
  is cut off, ended early or out of order it does what a reading of the format by packets (\<open>stream_text\<close>) says. With the end of
  the file missing it does the same until it runs out of input, and the loader returns. Over these,
  runs from the first instruction and from the start of the boot loader are followed to the kernel, past names that are not in
  flash and kernels that are damaged. The checksum of the image format is the division by its polynomial, the converters write images that verify and
  that hold every segment, and the viewer prints the fields of the file.

  \<^bold>\<open>Bounds and fuel.\<close> No definition runs out of fuel. The main loop of the decoder counts down the
  bytes there is room for, and every round but the last stores one; the loops over program and
  section headers count down a 16-bit field. The walks through the flash directory may run for
  ever when offsets wrap around, and are partial functions; on a directory that ends they are proved
  to return.

  \<^bold>\<open>Not modelled.\<close> The instructions of the start-up code behind the call of
  \<^verbatim>\<open>start_bootloader\<close>, which are reached only without a flash (the \<^verbatim>\<open>ld\<close> among them stands for different instructions
  in the two modes of the assembler); the linker scripts; the register numbers and assembler macros in \<^verbatim>\<open>include/asm\<close>,
  taken over from other projects, of which the C code uses nothing; the
  configurations of \<^verbatim>\<open>LzmaDecode.c\<close> that the build does not select (no input callback, output by
  pieces); the routines of \<^verbatim>\<open>include/storage/storage.h\<close>, which are declared and nowhere defined. libzip and the operating system are
  arguments.
\<close>

section \<open>The host and the router\<close>

text \<open>The image that \<^verbatim>\<open>elf2img\<close> writes and the memory the boot loader leaves to the kernel.\<close>

lemma raw_image_in_memory:
  assumes "kernel_runs E bs s" and "\<forall>ph \<in> set (load_phdrs BE bs). holds_segment bs lo img ph"
  shows "\<exists>st entry sz args. s = Kernel st entry sz args \<and> (\<forall>ph \<in> set (elf32_segments bs).
    mem_read (mem st) (ph_paddr ph) (unat (ph_memsz ph)) = take (unat (ph_memsz ph)) (drop (unat (ph_paddr ph - lo)) img))"
proof -
  obtain st where st: "s = Kernel st (eh_entry (elf32_header_of BE bs)) (c_memsz (plat E) (rom E) (regs0 E)) MEMORY_BASE"
    "\<forall>ph \<in> set (elf32_segments bs). mem_read (mem st) (ph_paddr ph) (unat (ph_memsz ph)) = segment_image bs ph"
    using assms(1) by (auto simp: kernel_runs_def)
  then show ?thesis using assms(2) by (auto simp: load_phdrs_segments holds_segment_def)
qed

section \<open>Properties\<close>

text \<open>C10: the same file on both sides: from power-on the boot loader runs the kernel, \<^verbatim>\<open>elf2img\<close> makes an
  image of it, and the memory of the router under every segment holds what the image has there.\<close>

theorem raw_image_is_memory:
  assumes "prompt_ok E es (mem st)" and "\<forall>(name, data) \<in> set es. length name < unat (filename_width (plat E))"
    and "enters (plat E) cs e line" and "bootable E es line bs" and "con_in st = cs @ e # rest"
    and "disk w src = Some bs" and "sound_file bs" and "file_order bs = BE" and "length elf0 = 52"
    and "img_bounds (file_phdrs BE bs) = (lo, hi)" and "hi - lo \<noteq> 1" and "img_memory w bs (unat (hi - lo))"
    and "can_create w dst" and "''-m'' \<notin> set [src, dst, descr]"
  shows "\<exists>st' entry sz args w' img. (boot_step E)\<^sup>*\<^sup>* (Reset st) (Kernel st' entry sz args) \<and>
    elf2img_main Z elf0 [name, src, dst, descr] w = Exit w' 0 \<and> disk w' dst = Some img \<and>
    (\<forall>ph \<in> set (elf32_segments bs).
       mem_read (mem st') (ph_paddr ph) (unat (ph_memsz ph)) = take (unat (ph_memsz ph)) (drop (unat (ph_paddr ph - lo)) img))"
proof -
  obtain s where s: "(boot_step E)\<^sup>*\<^sup>* (Reset st) s" "kernel_runs E bs s"
    using power_on_boots [OF assms(1,2), of "[]" cs e line bs rest] assms(3-5) by auto
  obtain w' img where img: "elf2img_main Z elf0 [name, src, dst, descr] w = Exit w' 0" "disk w' = (disk w)(dst := Some img)"
      "\<forall>ph \<in> set (load_phdrs BE bs). holds_segment bs lo img ph"
    using elf2img_main_raw [of "[name, src, dst, descr]" w bs elf0 lo hi Z] assms(6-14) by (auto simp: numeral_2_eq_2)
  obtain st' entry sz args where st': "s = Kernel st' entry sz args" "\<forall>ph \<in> set (elf32_segments bs).
      mem_read (mem st') (ph_paddr ph) (unat (ph_memsz ph)) = take (unat (ph_memsz ph)) (drop (unat (ph_paddr ph - lo)) img)"
    using raw_image_in_memory [OF s(2) img(3)] by blast
  have "disk w' dst = Some img" using img(2) by simp
  then show ?thesis using s(1) st' img(1) by blast
qed

lemma raw_image_is_memory_witness:
  "\<exists>st' entry sz args w' img. (boot_step sample_env)\<^sup>*\<^sup>* (Reset (sample_start [107, 13])) (Kernel st' entry sz args) \<and>
    elf2img_main img_sample_zip (replicate 52 0) [''elf2img'', ''k'', ''k.img'', ''text''] img_sample_world = Exit w' 0 \<and>
    disk w' ''k.img'' = Some img \<and> mem_read (mem st') 0x80030000 8 = take 8 img"
proof -
  have "\<exists>st' entry sz args w' img. (boot_step sample_env)\<^sup>*\<^sup>* (Reset (sample_start [107, 13])) (Kernel st' entry sz args) \<and>
    elf2img_main img_sample_zip (replicate 52 0) [''elf2img'', ''k'', ''k.img'', ''text''] img_sample_world = Exit w' 0 \<and>
    disk w' ''k.img'' = Some img \<and> (\<forall>ph \<in> set (elf32_segments sample_kernel).
       mem_read (mem st') (ph_paddr ph) (unat (ph_memsz ph)) = take (unat (ph_memsz ph)) (drop (unat (ph_paddr ph - 0x80030000)) img))"
    by (rule raw_image_is_memory [OF _ _ sample_enters(1) sample_bootable _ _ sample_sound sample_kernel_order(1) _ sample_bounds])
      (use sample_prompt sample_memory in \<open>simp_all add: sample_start_def sample_env_def img_sample_world_def\<close>)
  then show ?thesis by (simp add: sample_segments)
qed

end
